(* ===== verification/Prelude.thy ===== *)
theory Prelude
  imports Main "HOL-Library.Word" "HOL-Library.Char_ord" "HOL-Library.List_Lexorder"
    "HOL-Library.Sublist"
begin

text \<open>
  Shared vocabulary of the development: the operations of Qt's string, list and map classes that
  the C++ sources use, an ordered-map interface with its interpretation, JSON values, and the
  generic lemmas the components rely on.

  Strings. A \<^verbatim>\<open>QString\<close> is modelled as a \<^typ>\<open>string\<close> whose characters are the Latin-1 code
  points 0 to 255; code points above 255 are outside the model. Case folding and white space
  follow Qt's tables on that range.
  A \<^verbatim>\<open>QStringList\<close> is a list of strings. A \<^verbatim>\<open>QMap\<close> with string keys iterates in ascending key
  order, so it is an association list kept strictly sorted by key.
\<close>

section \<open>Theorem collections\<close>

named_theorems qt_simps \<open>rewrite rules for the Qt string, list and map operations\<close>
named_theorems wf_intros \<open>well-formedness of the maps and records of the model\<close>
named_theorems inv_intros \<open>invariant preservation by the operations of a component\<close>

section \<open>Characters and strings\<close>

type_synonym qstring = string
type_synonym qstringlist = "string list"

definition qisSpace :: "char \<Rightarrow> bool" where
  "qisSpace c \<longleftrightarrow> (of_char c :: nat) \<in> {9, 10, 11, 12, 13, 32, 133, 160}"

definition qcharLower :: "char \<Rightarrow> char" where
  "qcharLower c = (let n = of_char c :: nat in
     if (65 \<le> n \<and> n \<le> 90) \<or> (192 \<le> n \<and> n \<le> 222 \<and> n \<noteq> 215) then char_of (n + 32) else c)"

definition isDigit :: "char \<Rightarrow> bool" where
  "isDigit c \<longleftrightarrow> CHR ''0'' \<le> c \<and> c \<le> CHR ''9''"

definition trimmed :: "string \<Rightarrow> string" where
  "trimmed s = rev (dropWhile qisSpace (rev (dropWhile qisSpace s)))"

definition toLower :: "string \<Rightarrow> string" where
  "toLower s = map qcharLower s"

text \<open>\<^verbatim>\<open>QString::replace(before, after)\<close>: left to right, occurrences do not overlap. The sources
  never pass an empty \<^verbatim>\<open>before\<close>; the model leaves the string alone then.\<close>

function replaceAll :: "string \<Rightarrow> string \<Rightarrow> string \<Rightarrow> string" where
  "replaceAll b a s =
     (if b = [] \<or> s = [] then s
      else if prefix b s then a @ replaceAll b a (drop (length b) s)
      else hd s # replaceAll b a (tl s))"
  by pat_completeness auto
termination
  by (relation "measure (\<lambda>(b, a, s). length s)") auto

declare replaceAll.simps [simp del]

lemma replaceAll_Nil [simp]: "replaceAll b a [] = []"
  by (simp add: replaceAll.simps)

lemma replaceAll_Cons:
  "b \<noteq> [] \<Longrightarrow> replaceAll b a (x # xs) =
     (if prefix b (x # xs) then a @ replaceAll b a (drop (length b) (x # xs)) else x # replaceAll b a xs)"
  by (simp add: replaceAll.simps [of b a "x # xs"])

text \<open>\<^verbatim>\<open>QString::split(sep)\<close> on one character, with empty parts kept (Qt's default).\<close>

fun splitChar :: "char \<Rightarrow> string \<Rightarrow> string list" where
  "splitChar c [] = [[]]"
| "splitChar c (x # xs) =
     (if x = c then [] # splitChar c xs
      else (case splitChar c xs of [] \<Rightarrow> [[x]] | p # ps \<Rightarrow> (x # p) # ps))"

definition splitSkipEmpty :: "char \<Rightarrow> string \<Rightarrow> string list" where
  "splitSkipEmpty c s = filter (\<lambda>p. p \<noteq> []) (splitChar c s)"

fun joinWith :: "string \<Rightarrow> string list \<Rightarrow> string" where
  "joinWith sep [] = []"
| "joinWith sep [x] = x"
| "joinWith sep (x # y # ys) = x @ sep @ joinWith sep (y # ys)"

fun containsStr :: "string \<Rightarrow> string \<Rightarrow> bool" where
  "containsStr [] p \<longleftrightarrow> p = []"
| "containsStr (x # xs) p \<longleftrightarrow> prefix p (x # xs) \<or> containsStr xs p"

text \<open>\<^verbatim>\<open>QStringList::removeDuplicates\<close> keeps the first occurrence of each element.\<close>

fun appendNew :: "'a list \<Rightarrow> 'a list \<Rightarrow> 'a list" where
  "appendNew acc [] = acc"
| "appendNew acc (x # xs) = appendNew (if x \<in> set acc then acc else acc @ [x]) xs"

definition removeDuplicates :: "'a list \<Rightarrow> 'a list" where
  "removeDuplicates xs = appendNew [] xs"

section \<open>Decimal numbers\<close>

definition digitChar :: "nat \<Rightarrow> char" where
  "digitChar d = char_of (48 + d)"

definition digitVal :: "char \<Rightarrow> nat" where
  "digitVal c = of_char c - 48"

fun showNat :: "nat \<Rightarrow> string" where
  "showNat n = (if n < 10 then [digitChar n] else showNat (n div 10) @ [digitChar (n mod 10)])"

declare showNat.simps [simp del]

definition readNat :: "string \<Rightarrow> nat" where
  "readNat s = foldl (\<lambda>n c. 10 * n + digitVal c) 0 s"

text \<open>\<^verbatim>\<open>QString::toInt(&ok)\<close>, base 10: surrounding white space is ignored, one sign is allowed, at
  least one digit is required and the value must fit 32 signed bits. \<^const>\<open>None\<close> is \<^verbatim>\<open>ok == false\<close>.\<close>

definition toInt :: "string \<Rightarrow> int option" where
  "toInt s = (let t = trimmed s;
       (sgn, ds) = (case t of [] \<Rightarrow> (1, []) | c # cs \<Rightarrow>
          if c = CHR ''-'' then (-1, cs) else if c = CHR ''+'' then (1, cs) else (1, t))
     in if ds = [] \<or> \<not> list_all isDigit ds then None
        else let v = sgn * int (readNat ds) in
          if - (2 ^ 31) \<le> v \<and> v < 2 ^ 31 then Some v else None)"

section \<open>Ordered maps\<close>

text \<open>What a client of an ordered map may rely on.\<close>

locale ordered_map =
  fixes empty :: 'm
    and ins :: "'k::linorder \<Rightarrow> 'v \<Rightarrow> 'm \<Rightarrow> 'm"
    and del :: "'k \<Rightarrow> 'm \<Rightarrow> 'm"
    and look :: "'m \<Rightarrow> 'k \<Rightarrow> 'v option"
    and entries :: "'m \<Rightarrow> ('k \<times> 'v) list"
    and ok :: "'m \<Rightarrow> bool"
  assumes look_empty: "look empty k = None"
    and look_ins: "ok m \<Longrightarrow> look (ins k v m) k' = (if k' = k then Some v else look m k')"
    and look_del: "ok m \<Longrightarrow> look (del k m) k' = (if k' = k then None else look m k')"
    and look_entries: "ok m \<Longrightarrow> look m k = Some v \<longleftrightarrow> (k, v) \<in> set (entries m)"
    and sorted_entries: "ok m \<Longrightarrow> sorted_wrt (<) (map fst (entries m))"
    and ok_empty: "ok empty"
    and ok_ins: "ok m \<Longrightarrow> ok (ins k v m)"
    and ok_del: "ok m \<Longrightarrow> ok (del k m)"
begin

lemma look_fold_ins:
  "ok m \<Longrightarrow> distinct (map fst kvs) \<Longrightarrow>
     look (fold (\<lambda>(k, v) m. ins k v m) kvs m) k' =
       (case map_of kvs k' of Some v \<Rightarrow> Some v | None \<Rightarrow> look m k')"
proof (induction kvs arbitrary: m)
  case Nil
  then show ?case by simp
next
  case (Cons kv kvs)
  obtain k v where kv: "kv = (k, v)" by (cases kv)
  have "map_of kvs k = None"
    using Cons.prems(2) kv by (simp add: map_of_eq_None_iff)
  with Cons kv show ?case
    by (auto simp: look_ins ok_ins split: option.splits)
qed

lemma ok_fold_ins: "ok m \<Longrightarrow> ok (fold (\<lambda>(k, v) m. ins k v m) kvs m)"
  by (induction kvs arbitrary: m) (auto simp: ok_ins)

lemma distinct_entries: "ok m \<Longrightarrow> distinct (map fst (entries m))"
  using sorted_entries strict_sorted_iff by blast

lemma look_map_of_entries: "ok m \<Longrightarrow> look m k = map_of (entries m) k"
  by (metis distinct_entries look_entries map_of_eq_Some_iff not_None_eq)

end

type_synonym 'v qmap = "(string \<times> 'v) list"

definition qmapWf :: "'v qmap \<Rightarrow> bool" where
  "qmapWf m \<longleftrightarrow> sorted_wrt (<) (map fst m)"

fun qinsert :: "string \<Rightarrow> 'v \<Rightarrow> 'v qmap \<Rightarrow> 'v qmap" where
  "qinsert k v [] = [(k, v)]"
| "qinsert k v ((k', v') # m) =
     (if k = k' then (k, v) # m
      else if k < k' then (k, v) # (k', v') # m
      else (k', v') # qinsert k v m)"

definition qremove :: "string \<Rightarrow> 'v qmap \<Rightarrow> 'v qmap" where
  "qremove k m = filter (\<lambda>kv. fst kv \<noteq> k) m"

definition qvalue :: "'v qmap \<Rightarrow> string \<Rightarrow> 'v option" where
  "qvalue m k = map_of m k"

definition qcontains :: "'v qmap \<Rightarrow> string \<Rightarrow> bool" where
  "qcontains m k \<longleftrightarrow> k \<in> set (map fst m)"

lemma keys_qinsert [qt_simps]: "fst ` set (qinsert k v m) = insert k (fst ` set m)"
  by (induction k v m rule: qinsert.induct) auto

lemma map_of_qinsert [qt_simps]: "map_of (qinsert k v m) k' = (if k' = k then Some v else map_of m k')"
  by (induction k v m rule: qinsert.induct) auto

lemma set_map_fst_qinsert: "set (map fst (qinsert k v m)) = insert k (set (map fst m))"
  by (simp add: keys_qinsert)

lemma qmapWf_qinsert [wf_intros]: "qmapWf m \<Longrightarrow> qmapWf (qinsert k v m)"
  unfolding qmapWf_def
proof (induction k v m rule: qinsert.induct)
  case (2 k v k' v' m)
  then show ?case
    by (auto simp: keys_qinsert dest: order.strict_trans)
qed simp

lemma map_fst_qremove: "map fst (qremove k m) = filter (\<lambda>x. x \<noteq> k) (map fst m)"
  by (induction m) (auto simp: qremove_def)

lemma qmapWf_qremove [wf_intros]: "qmapWf m \<Longrightarrow> qmapWf (qremove k m)"
  by (simp add: qmapWf_def map_fst_qremove sorted_wrt_filter)

lemma map_of_qremove [qt_simps]: "map_of (qremove k m) k' = (if k' = k then None else map_of m k')"
  by (induction m) (auto simp: qremove_def)

lemma qmapWf_distinct: "qmapWf m \<Longrightarrow> distinct (map fst m)"
  unfolding qmapWf_def using strict_sorted_iff by blast

interpretation qm: ordered_map "[]" qinsert qremove qvalue "\<lambda>m. m" qmapWf
proof unfold_locales
  show "qvalue m k = Some v \<longleftrightarrow> (k, v) \<in> set m" if "qmapWf m" for m :: "'a qmap" and k v
    using that by (simp add: qvalue_def qmapWf_distinct)
  show "sorted_wrt (<) (map fst m)" if "qmapWf m" for m :: "'a qmap"
    using that by (simp add: qmapWf_def)
qed (auto simp: qvalue_def qmapWf_qinsert qmapWf_qremove map_of_qinsert map_of_qremove
       simp: qmapWf_def [of "[]"])

lemma qcontains_iff [qt_simps]: "qcontains m k \<longleftrightarrow> qvalue m k \<noteq> None"
  by (simp add: qcontains_def qvalue_def map_of_eq_None_iff)

lemma qvalue_qinsert [simp]: "qvalue (qinsert k v m) k' = (if k' = k then Some v else qvalue m k')"
  by (simp add: qvalue_def map_of_qinsert)

lemma qvalue_qremove [simp]: "qvalue (qremove k m) k' = (if k' = k then None else qvalue m k')"
  by (simp add: qvalue_def map_of_qremove)

lemma qvalue_Nil [simp]: "qvalue [] k = None"
  by (simp add: qvalue_def)

lemma qmapWf_Nil [wf_intros, simp]: "qmapWf []"
  by (simp add: qmapWf_def)

text \<open>A strictly sorted map is determined by its look-ups.\<close>

lemma qmap_ext:
  assumes "qmapWf m" and "qmapWf m'" and "\<And>k. qvalue m k = qvalue m' k"
  shows "m = m'"
proof -
  have "set m = set m'"
    using assms by (auto simp flip: qm.look_entries)
  with assms(1,2) have "inj_on fst (set m \<union> set m')"
    by (auto dest!: qmapWf_distinct simp: distinct_map)
  then show ?thesis
    using assms(1,2) \<open>set m = set m'\<close>
    by (intro map_sorted_distinct_set_unique [of fst])
       (auto simp: qmapWf_def strict_sorted_iff)
qed

section \<open>Lemmas on the list and string operations\<close>

lemma set_appendNew [simp]: "set (appendNew acc xs) = set acc \<union> set xs"
  by (induction acc xs rule: appendNew.induct) auto

lemma distinct_appendNew: "distinct acc \<Longrightarrow> distinct (appendNew acc xs)"
  by (induction acc xs rule: appendNew.induct) auto

lemma appendNew_prefix: "\<exists>zs. appendNew acc xs = acc @ zs"
proof (induction acc xs rule: appendNew.induct)
  case (2 acc x xs)
  then show ?case by (cases "x \<in> set acc") auto
qed simp

lemma appendNew_subset: "set xs \<subseteq> set acc \<Longrightarrow> appendNew acc xs = acc"
  by (induction acc xs rule: appendNew.induct) auto

lemma appendNew_distinct: "distinct (acc @ xs) \<Longrightarrow> appendNew acc xs = acc @ xs"
  by (induction acc xs rule: appendNew.induct) auto

lemma set_removeDuplicates [simp]: "set (removeDuplicates xs) = set xs"
  by (simp add: removeDuplicates_def)

lemma distinct_removeDuplicates [simp]: "distinct (removeDuplicates xs)"
  by (simp add: removeDuplicates_def distinct_appendNew)

lemma removeDuplicates_id: "distinct xs \<Longrightarrow> removeDuplicates xs = xs"
  by (simp add: removeDuplicates_def appendNew_distinct)

lemma appendNew_append: "appendNew acc (xs @ ys) = appendNew (appendNew acc xs) ys"
  by (induction acc xs rule: appendNew.induct) auto

lemma appendNew_removeDuplicates: "appendNew acc (appendNew [] xs) = appendNew acc xs"
proof (induction xs rule: rev_induct)
  case (snoc x xs)
  have "appendNew b (zs @ [x]) = (if x \<in> set (appendNew b zs) then appendNew b zs else appendNew b zs @ [x])" for b zs
    by (simp add: appendNew_append)
  with snoc show ?case by auto
qed simp

lemma filter_appendNew: "filter P (appendNew acc xs) = appendNew (filter P acc) (filter P xs)"
  by (induction acc xs rule: appendNew.induct) auto

lemma fold_appendNew:
  "fold (\<lambda>x acc. if P x \<and> x \<notin> set acc then acc @ [x] else acc) xs acc = appendNew acc (filter P xs)"
  by (induction xs arbitrary: acc) auto

lemma splitChar_neq_Nil [simp]: "splitChar c s \<noteq> []"
  by (induction c s rule: splitChar.induct) (auto split: list.splits)

lemma splitChar_no_sep: "p \<in> set (splitChar c s) \<Longrightarrow> c \<notin> set p"
  by (induction c s arbitrary: p rule: splitChar.induct) (force split: if_splits list.splits)+

lemma splitChar_chars: "p \<in> set (splitChar c s) \<Longrightarrow> set p \<subseteq> set s"
  by (induction c s arbitrary: p rule: splitChar.induct) (fastforce split: if_splits list.splits)+

lemma splitChar_absent: "c \<notin> set s \<Longrightarrow> splitChar c s = [s]"
  by (induction c s rule: splitChar.induct) auto

lemma splitChar_append_sep: "c \<notin> set p \<Longrightarrow> splitChar c (p @ c # s) = p # splitChar c s"
  by (induction p) auto

lemma joinWith_splitChar: "joinWith [c] (splitChar c s) = s"
proof (induction c s rule: splitChar.induct)
  case (2 c x xs)
  obtain p ps where ps: "splitChar c xs = p # ps"
    using splitChar_neq_Nil by (meson neq_Nil_conv)
  with 2 show ?case by (cases ps) auto
qed simp

lemma set_splitSkipEmpty: "p \<in> set (splitSkipEmpty c s) \<longleftrightarrow> p \<in> set (splitChar c s) \<and> p \<noteq> []"
  by (auto simp: splitSkipEmpty_def)

lemma splitSkipEmpty_Nil_iff: "splitSkipEmpty c s = [] \<longleftrightarrow> set s \<subseteq> {c}"
proof (induction c s rule: splitChar.induct)
  case (2 c x xs)
  then show ?case
    by (cases "splitChar c xs") (auto simp: splitSkipEmpty_def split: if_splits)
qed (simp add: splitSkipEmpty_def)

lemma set_trimmed: "set (trimmed s) \<subseteq> set s"
  by (auto simp: trimmed_def dest!: set_dropWhileD)

lemma trimmed_id:
  assumes "s = [] \<or> (\<not> qisSpace (hd s) \<and> \<not> qisSpace (last s))"
  shows "trimmed s = s"
proof (cases "s = []")
  case False
  with assms have "dropWhile qisSpace s = s" and "dropWhile qisSpace (rev s) = rev s"
    by (auto simp: neq_Nil_conv hd_rev dropWhile_eq_self_iff)
  then show ?thesis by (simp add: trimmed_def)
qed (simp add: trimmed_def)

lemma trimmed_idem [simp]: "trimmed (trimmed s) = trimmed s"
proof (rule trimmed_id)
  define t where "t = dropWhile qisSpace s"
  define u where "u = dropWhile qisSpace (rev t)"
  have tr: "trimmed s = rev u" by (simp add: trimmed_def t_def u_def)
  show "trimmed s = [] \<or> (\<not> qisSpace (hd (trimmed s)) \<and> \<not> qisSpace (last (trimmed s)))"
  proof (cases "u = []")
    case False
    then have l: "\<not> qisSpace (hd u)" unfolding u_def by (rule hd_dropWhile)
    have "suffix u (rev t)" unfolding u_def by (rule suffix_dropWhile)
    then have "last u = last (rev t)" using False by (auto simp: suffix_def)
    moreover have "t \<noteq> []" using False u_def by auto
    ultimately have "last u = hd t" by (simp add: last_rev)
    moreover have "\<not> qisSpace (hd t)" using \<open>t \<noteq> []\<close> unfolding t_def by (rule hd_dropWhile)
    ultimately show ?thesis using l False tr by (simp add: hd_rev last_rev)
  qed (simp add: tr)
qed

lemma qcharLower_idem [simp]: "qcharLower (qcharLower c) = qcharLower c"
proof -
  have "(of_char (char_of (n + 32) :: char) :: nat) = n + 32" if "n \<le> 222" for n :: nat
    using that by simp
  then show ?thesis by (auto simp: qcharLower_def Let_def)
qed

lemma toLower_idem [simp]: "toLower (toLower s) = toLower s"
  by (simp add: toLower_def)

section \<open>Decimal round trip\<close>

lemma digitChar_simps:
  "digitChar 0 = CHR ''0''" "digitChar (Suc 0) = CHR ''1''" "digitChar 1 = CHR ''1''" "digitChar 2 = CHR ''2''"
  "digitChar 3 = CHR ''3''" "digitChar 4 = CHR ''4''" "digitChar 5 = CHR ''5''" "digitChar 6 = CHR ''6''"
  "digitChar 7 = CHR ''7''" "digitChar 8 = CHR ''8''" "digitChar 9 = CHR ''9''"
  by code_simp+

lemma of_char_digitChar [simp]: "d < 10 \<Longrightarrow> (of_char (digitChar d) :: nat) = 48 + d"
  by (simp add: digitChar_def)

lemma digitVal_digitChar [simp]: "d < 10 \<Longrightarrow> digitVal (digitChar d) = d"
  by (simp add: digitVal_def)

lemma isDigit_of_char: "isDigit c \<longleftrightarrow> 48 \<le> (of_char c :: nat) \<and> (of_char c :: nat) \<le> 57"
  by (simp add: isDigit_def less_eq_char_def)

lemma isDigit_digitChar [simp]: "d < 10 \<Longrightarrow> isDigit (digitChar d)"
  by (simp add: isDigit_of_char)

lemma isDigit_not_space: "isDigit c \<Longrightarrow> \<not> qisSpace c"
  by (auto simp: isDigit_of_char qisSpace_def)

lemma readNat_append_digit: "readNat (s @ [c]) = 10 * readNat s + digitVal c"
  by (simp add: readNat_def)

lemma readNat_showNat [simp]: "readNat (showNat n) = n"
proof (induction n rule: showNat.induct)
  case (1 n)
  show ?case
  proof (cases "n < 10")
    case True
    then show ?thesis by (simp add: showNat.simps [of n] readNat_def)
  next
    case False
    with 1 have "readNat (showNat (n div 10)) = n div 10" by simp
    with False show ?thesis by (simp add: showNat.simps [of n] readNat_append_digit)
  qed
qed

lemma showNat_neq_Nil [simp]: "showNat n \<noteq> []"
  by (subst showNat.simps) simp

lemma showNat_digits: "list_all isDigit (showNat n)"
proof (induction n rule: showNat.induct)
  case (1 n)
  then show ?case by (cases "n < 10") (simp_all add: showNat.simps [of n])
qed

lemma showNat_inj: "showNat m = showNat n \<longleftrightarrow> m = n"
  by (metis readNat_showNat)

lemma digits_ends:
  assumes "list_all isDigit s" and "s \<noteq> []"
  shows "isDigit (hd s)" "isDigit (last s)"
  using assms by (auto simp: list_all_iff)

lemma trimmed_digits: "list_all isDigit s \<Longrightarrow> trimmed s = s"
  by (cases "s = []") (auto intro!: trimmed_id dest: isDigit_not_space digits_ends)

lemma toInt_digits:
  assumes "list_all isDigit s" "s \<noteq> []" "readNat s < 2 ^ 31"
  shows "toInt s = Some (int (readNat s))"
proof -
  obtain c cs where s: "s = c # cs" using assms(2) by (cases s) auto
  with assms(1) have "isDigit c" by simp
  then have "c \<noteq> CHR ''-''" "c \<noteq> CHR ''+''" by (auto simp: isDigit_of_char)
  moreover have "int (readNat s) < 2 ^ 31"
    using assms(3) by (metis of_nat_less_iff of_nat_numeral of_nat_power)
  ultimately show ?thesis
    using assms(1) s by (simp add: toInt_def trimmed_digits Let_def)
qed

lemma toInt_showNat: "n < 2 ^ 31 \<Longrightarrow> toInt (showNat n) = Some (int n)"
  by (simp add: toInt_digits showNat_digits)

lemma showNat_no_char: "\<not> isDigit c \<Longrightarrow> c \<notin> set (showNat n)"
  using showNat_digits [of n] by (auto simp: list_all_iff)

end
