(* ===== verification/Regex.thy ===== *)
theory Regex
  imports Prelude
begin

text \<open>
  The regular expressions of the sources are written here as terms of a small syntax, so that each
  pattern literal has a definition that reads like it. Matching is executable: \<open>ends r s\<close> lists
  the rests of \<open>s\<close> after a prefix that \<open>r\<close> matches. Negative look-ahead is supported. For
  expressions without look-ahead, matching agrees with the language of the expression
  (\<open>fullMatch_lang\<close>).
\<close>

datatype rexp =
    Eps
  | Cls "(char \<times> char) list"   \<comment> \<open>a bracket expression, as ranges\<close>
  | Dot                        \<comment> \<open>any character but a line feed\<close>
  | Seq rexp rexp
  | Alt rexp rexp
  | Rep rexp nat nat           \<comment> \<open>between \<open>lo\<close> and \<open>hi\<close> times\<close>
  | Star rexp
  | NotAhead rexp              \<comment> \<open>negative look-ahead: matches the empty string\<close>

abbreviation Chr :: "char \<Rightarrow> rexp" where
  "Chr c \<equiv> Cls [(c, c)]"

definition inRanges :: "(char \<times> char) list \<Rightarrow> char \<Rightarrow> bool" where
  "inRanges rs c \<longleftrightarrow> list_ex (\<lambda>(a, b). a \<le> c \<and> c \<le> b) rs"

fun seqs :: "rexp list \<Rightarrow> rexp" where
  "seqs [] = Eps"
| "seqs [r] = r"
| "seqs (r # rs) = Seq r (seqs rs)"

fun alts :: "rexp \<Rightarrow> rexp list \<Rightarrow> rexp" where
  "alts r [] = r"
| "alts r (q # qs) = Alt r (alts q qs)"

definition lit :: "string \<Rightarrow> rexp" where
  "lit s = seqs (map Chr s)"

abbreviation opt :: "rexp \<Rightarrow> rexp" where
  "opt r \<equiv> Rep r 0 1"

section \<open>Matching\<close>

definition isLF :: "char \<Rightarrow> bool" where
  "isLF c \<longleftrightarrow> c = CHR 0x0A"

fun repEnds :: "(string \<Rightarrow> string list) \<Rightarrow> nat \<Rightarrow> nat \<Rightarrow> string \<Rightarrow> string list" where
  "repEnds f lo 0 s = (if lo = 0 then [s] else [])"
| "repEnds f lo (Suc hi) s =
     remdups ((if lo = 0 then [s] else []) @ concat (map (repEnds f (lo - 1) hi) (f s)))"

primrec ends :: "rexp \<Rightarrow> string \<Rightarrow> string list" where
  "ends Eps s = [s]"
| "ends (Cls rs) s = (case s of [] \<Rightarrow> [] | c # cs \<Rightarrow> if inRanges rs c then [cs] else [])"
| "ends Dot s = (case s of [] \<Rightarrow> [] | c # cs \<Rightarrow> if isLF c then [] else [cs])"
| "ends (Seq a b) s = remdups (concat (map (ends b) (ends a s)))"
| "ends (Alt a b) s = remdups (ends a s @ ends b s)"
| "ends (Rep a lo hi) s = repEnds (ends a) lo hi s"
| "ends (Star a) s = repEnds (ends a) 0 (length s) s"
| "ends (NotAhead a) s = (if ends a s = [] then [s] else [])"

text \<open>\<^verbatim>\<open>QRegExp::exactMatch\<close>: the whole string matches.\<close>

definition fullMatch :: "rexp \<Rightarrow> string \<Rightarrow> bool" where
  "fullMatch r s \<longleftrightarrow> [] \<in> set (ends r s)"

text \<open>A \<^verbatim>\<open>QRegularExpression\<close> of the form \<^verbatim>\<open>^r$\<close>: the dollar sign also matches before one final line
  feed.\<close>

definition anchoredMatch :: "rexp \<Rightarrow> string \<Rightarrow> bool" where
  "anchoredMatch r s \<longleftrightarrow> [] \<in> set (ends r s) \<or> [CHR 0x0A] \<in> set (ends r s)"

section \<open>Languages\<close>

definition conc :: "string set \<Rightarrow> string set \<Rightarrow> string set" where
  "conc A B = {u @ v |u v. u \<in> A \<and> v \<in> B}"

primrec lpow :: "string set \<Rightarrow> nat \<Rightarrow> string set" where
  "lpow A 0 = {[]}"
| "lpow A (Suc n) = conc A (lpow A n)"

primrec lang :: "rexp \<Rightarrow> string set" where
  "lang Eps = {[]}"
| "lang (Cls rs) = {[c] |c. inRanges rs c}"
| "lang Dot = {[c] |c. \<not> isLF c}"
| "lang (Seq a b) = conc (lang a) (lang b)"
| "lang (Alt a b) = lang a \<union> lang b"
| "lang (Rep a lo hi) = (\<Union>k \<in> {lo..hi}. lpow (lang a) k)"
| "lang (Star a) = (\<Union>k. lpow (lang a) k)"
| "lang (NotAhead a) = {}"

primrec plain :: "rexp \<Rightarrow> bool" where
  "plain Eps = True"
| "plain (Cls rs) = True"
| "plain Dot = True"
| "plain (Seq a b) = (plain a \<and> plain b)"
| "plain (Alt a b) = (plain a \<and> plain b)"
| "plain (Rep a lo hi) = plain a"
| "plain (Star a) = plain a"
| "plain (NotAhead a) = False"

lemma concI: "u \<in> A \<Longrightarrow> v \<in> B \<Longrightarrow> u @ v \<in> conc A B"
  by (auto simp: conc_def)

lemma concE:
  assumes "s \<in> conc A B"
  obtains u v where "s = u @ v" "u \<in> A" "v \<in> B"
  using assms by (auto simp: conc_def)

lemma conc_rest: "(\<exists>w \<in> conc A B. s = w @ t) \<longleftrightarrow> (\<exists>u \<in> A. \<exists>v \<in> B. s = u @ v @ t)"
  unfolding conc_def by (simp add: Bex_def) (metis append.assoc)

text \<open>What \<open>ends\<close> returns are rests of its input.\<close>

definition restsOf :: "(string \<Rightarrow> string list) \<Rightarrow> string set \<Rightarrow> bool" where
  "restsOf f A \<longleftrightarrow> (\<forall>s t. t \<in> set (f s) \<longleftrightarrow> (\<exists>u \<in> A. s = u @ t))"

lemma restsOfD: "restsOf f A \<Longrightarrow> t \<in> set (f s) \<longleftrightarrow> (\<exists>u \<in> A. s = u @ t)"
  by (simp add: restsOf_def)

lemma repEnds_rests:
  assumes "restsOf f A"
  shows "t \<in> set (repEnds f lo hi s) \<longleftrightarrow> (\<exists>k \<in> {lo..hi}. \<exists>u \<in> lpow A k. s = u @ t)"
proof (induction hi arbitrary: lo s)
  case 0
  show ?case by auto
next
  case (Suc hi)
  have step: "(\<exists>s' \<in> set (f s). t \<in> set (repEnds f (lo - 1) hi s')) \<longleftrightarrow>
      (\<exists>k \<in> {lo - 1..hi}. \<exists>u \<in> lpow A (Suc k). s = u @ t)" (is "?L \<longleftrightarrow> ?R")
  proof
    assume ?L
    then obtain s' k w where s': "s' \<in> set (f s)" and w: "k \<in> {lo - 1..hi}" "w \<in> lpow A k" "s' = w @ t"
      unfolding Suc.IH by blast
    from s' obtain v where "v \<in> A" "s = v @ s'" unfolding restsOfD [OF assms] by blast
    note w this
    then show ?R by (intro bexI [of _ k] bexI [of _ "v @ w"]) (auto simp: conc_def)
  next
    assume ?R
    then obtain k v w where "k \<in> {lo - 1..hi}" "v \<in> A" "w \<in> lpow A k" "s = v @ w @ t"
      by (auto simp: conc_def)
    then have "w @ t \<in> set (f s)" "t \<in> set (repEnds f (lo - 1) hi (w @ t))"
      unfolding Suc.IH restsOfD [OF assms] by blast+
    then show ?L by blast
  qed
  have "?R \<longleftrightarrow> (\<exists>k \<in> {lo..Suc hi}. 0 < k \<and> (\<exists>u \<in> lpow A k. s = u @ t))" (is "_ \<longleftrightarrow> ?R'")
  proof
    assume ?R
    then obtain k u where "k \<in> {lo - 1..hi}" "u \<in> lpow A (Suc k)" "s = u @ t" by blast
    then show ?R' by (intro bexI [of _ "Suc k"]) auto
  next
    assume ?R'
    then obtain k u where "k \<in> {lo..Suc hi}" "0 < k" "u \<in> lpow A k" "s = u @ t" by blast
    then show ?R by (intro bexI [of _ "k - 1"]) auto
  qed
  with step have "t \<in> set (repEnds f lo (Suc hi) s) \<longleftrightarrow> (lo = 0 \<and> t = s) \<or> ?R'"
    by auto
  also have "\<dots> \<longleftrightarrow> (\<exists>k \<in> {lo..Suc hi}. \<exists>u \<in> lpow A k. s = u @ t)"
  proof -
    have "(lo = 0 \<and> t = s) \<longleftrightarrow> (\<exists>k \<in> {lo..Suc hi}. k = 0 \<and> (\<exists>u \<in> lpow A k. s = u @ t))"
      by auto
    then show ?thesis by (metis neq0_conv)
  qed
  finally show ?case .
qed

lemma lpow_short:
  "w \<in> lpow A k \<Longrightarrow> \<exists>j \<le> length w. w \<in> lpow A j"
proof (induction k arbitrary: w)
  case 0
  then show ?case by auto
next
  case (Suc k)
  then obtain u v where w: "w = u @ v" "u \<in> A" "v \<in> lpow A k" by (auto simp: conc_def)
  then obtain j where j: "j \<le> length v" "v \<in> lpow A j" using Suc.IH by blast
  show ?case
  proof (cases "u = []")
    case True
    with w j show ?thesis by auto
  next
    case False
    with w j have "Suc j \<le> length w" by (cases u) auto
    moreover have "w \<in> lpow A (Suc j)" using w j by (auto simp: conc_def)
    ultimately show ?thesis by blast
  qed
qed

lemma ends_lang: "plain r \<Longrightarrow> restsOf (ends r) (lang r)"
proof (induction r)
  case (Seq a b)
  then have ra: "restsOf (ends a) (lang a)" and rb: "restsOf (ends b) (lang b)" by simp_all
  have "t \<in> set (ends (Seq a b) s) \<longleftrightarrow> (\<exists>u \<in> lang a. \<exists>v \<in> lang b. s = u @ v @ t)" for s t
  proof -
    have "t \<in> set (ends (Seq a b) s) \<longleftrightarrow> (\<exists>s'. (\<exists>u \<in> lang a. s = u @ s') \<and> (\<exists>v \<in> lang b. s' = v @ t))"
      using restsOfD [OF ra] restsOfD [OF rb] by auto
    then show ?thesis by metis
  qed
  then show ?case by (simp only: restsOf_def lang.simps conc_rest) simp
next
  case (Rep a lo hi)
  then have "restsOf (ends a) (lang a)" by simp
  from repEnds_rests [OF this] show ?case by (auto simp: restsOf_def)
next
  case (Star a)
  then have r: "restsOf (ends a) (lang a)" by simp
  show ?case
    unfolding restsOf_def
  proof (intro allI)
    fix s t
    have "t \<in> set (ends (Star a) s) \<longleftrightarrow> (\<exists>k \<le> length s. \<exists>u \<in> lpow (lang a) k. s = u @ t)"
      using repEnds_rests [OF r] by auto
    also have "\<dots> \<longleftrightarrow> (\<exists>u \<in> lang (Star a). s = u @ t)"
    proof
      assume "\<exists>u \<in> lang (Star a). s = u @ t"
      then obtain u k where u: "u \<in> lpow (lang a) k" "s = u @ t" by auto
      then obtain j where "j \<le> length u" "u \<in> lpow (lang a) j" using lpow_short by blast
      with u show "\<exists>k \<le> length s. \<exists>u \<in> lpow (lang a) k. s = u @ t"
        by (intro exI [of _ j]) auto
    qed auto
    finally show "t \<in> set (ends (Star a) s) \<longleftrightarrow> (\<exists>u \<in> lang (Star a). s = u @ t)" .
  qed
next
  case (Cls rs)
  have "t \<in> set (ends (Cls rs) s) \<longleftrightarrow> (\<exists>u \<in> lang (Cls rs). s = u @ t)" for s t
    by (cases s) auto
  then show ?case unfolding restsOf_def by blast
next
  case Dot
  have "t \<in> set (ends Dot s) \<longleftrightarrow> (\<exists>u \<in> lang Dot. s = u @ t)" for s t
    by (cases s) auto
  then show ?case unfolding restsOf_def by blast
next
  case (Alt a b)
  then have ra: "restsOf (ends a) (lang a)" and rb: "restsOf (ends b) (lang b)" by simp_all
  show ?case
    by (simp add: restsOf_def restsOfD [OF ra] restsOfD [OF rb] bex_Un)
next
  case Eps
  show ?case by (auto simp: restsOf_def)
next
  case (NotAhead a)
  then show ?case by simp
qed

lemma fullMatch_lang: "plain r \<Longrightarrow> fullMatch r s \<longleftrightarrow> s \<in> lang r"
  by (auto simp: fullMatch_def restsOfD [OF ends_lang])

lemma anchoredMatch_lang:
  "plain r \<Longrightarrow> anchoredMatch r s \<longleftrightarrow> s \<in> lang r \<or> (\<exists>u \<in> lang r. s = u @ [CHR 0x0A])"
  by (auto simp: anchoredMatch_def restsOfD [OF ends_lang])

section \<open>Alphabets\<close>

text \<open>The characters an expression can consume, look-ahead or not: used to show that a validated
  string holds no character outside a small alphabet.\<close>

definition allowsOnly :: "(char \<Rightarrow> bool) \<Rightarrow> (string \<Rightarrow> string list) \<Rightarrow> bool" where
  "allowsOnly P f \<longleftrightarrow> (\<forall>s t. t \<in> set (f s) \<longrightarrow> (\<exists>u. s = u @ t \<and> list_all P u))"

lemma allowsOnlyD: "allowsOnly P f \<Longrightarrow> t \<in> set (f s) \<Longrightarrow> \<exists>u. s = u @ t \<and> list_all P u"
  by (simp add: allowsOnly_def)

lemma allowsOnlyI: "(\<And>s t. t \<in> set (f s) \<Longrightarrow> \<exists>u. s = u @ t \<and> list_all P u) \<Longrightarrow> allowsOnly P f"
  by (simp add: allowsOnly_def)

primrec alphabet :: "(char \<Rightarrow> bool) \<Rightarrow> rexp \<Rightarrow> bool" where
  "alphabet P Eps = True"
| "alphabet P (Cls rs) = (\<forall>c. inRanges rs c \<longrightarrow> P c)"
| "alphabet P Dot = (\<forall>c. \<not> isLF c \<longrightarrow> P c)"
| "alphabet P (Seq a b) = (alphabet P a \<and> alphabet P b)"
| "alphabet P (Alt a b) = (alphabet P a \<and> alphabet P b)"
| "alphabet P (Rep a lo hi) = alphabet P a"
| "alphabet P (Star a) = alphabet P a"
| "alphabet P (NotAhead a) = True"

lemma allowsOnly_repEnds: "allowsOnly P f \<Longrightarrow> allowsOnly P (repEnds f lo hi)"
proof (induction hi arbitrary: lo)
  case 0
  then show ?case by (auto simp: allowsOnly_def)
next
  case (Suc hi)
  show ?case
    unfolding allowsOnly_def
  proof (intro allI impI)
    fix s t
    assume "t \<in> set (repEnds f lo (Suc hi) s)"
    then consider "t = s" | s' where "s' \<in> set (f s)" "t \<in> set (repEnds f (lo - 1) hi s')"
      by (auto split: if_splits)
    then show "\<exists>u. s = u @ t \<and> list_all P u"
    proof cases
      case 1
      then show ?thesis by auto
    next
      case 2
      moreover obtain u where "s = u @ s'" "list_all P u"
        using Suc.prems 2(1) by (auto simp: allowsOnly_def)
      moreover obtain v where "s' = v @ t" "list_all P v"
        using Suc.IH [OF Suc.prems, of "lo - 1"] 2(2) by (auto simp: allowsOnly_def)
      ultimately show ?thesis by (intro exI [of _ "u @ v"]) auto
    qed
  qed
qed

lemma allowsOnly_single:
  assumes "\<And>s t. t \<in> set (f s) \<Longrightarrow> t = s \<or> (\<exists>c. s = c # t \<and> P c)"
  shows "allowsOnly P f"
proof (rule allowsOnlyI)
  fix s t
  assume "t \<in> set (f s)"
  then consider "t = s" | c where "s = c # t" "P c" using assms by blast
  then show "\<exists>u. s = u @ t \<and> list_all P u"
    by cases (auto intro: exI [of _ "[]"] exI [of _ "[c]" for c])
qed

lemma alphabet_ends: "alphabet P r \<Longrightarrow> allowsOnly P (ends r)"
proof (induction r)
  case (Seq a b)
  show ?case
  proof (rule allowsOnlyI)
    fix s t
    assume "t \<in> set (ends (Seq a b) s)"
    then obtain s' where "s' \<in> set (ends a s)" "t \<in> set (ends b s')" by auto
    moreover have "allowsOnly P (ends a)" "allowsOnly P (ends b)" using Seq by simp_all
    ultimately obtain u v where "s = u @ s'" "list_all P u" "s' = v @ t" "list_all P v"
      by (meson allowsOnlyD)
    then show "\<exists>u. s = u @ t \<and> list_all P u" by (intro exI [of _ "u @ v"]) simp
  qed
next
  case (Alt a b)
  then have "allowsOnly P (ends a)" "allowsOnly P (ends b)" by simp_all
  then show ?case by (auto intro!: allowsOnlyI dest: allowsOnlyD)
next
  case (Rep a lo hi)
  then have "allowsOnly P (repEnds (ends a) lo hi)" by (simp add: allowsOnly_repEnds)
  then show ?case by (simp add: allowsOnly_def)
next
  case (Star a)
  then have "allowsOnly P (repEnds (ends a) lo hi)" for lo hi by (simp add: allowsOnly_repEnds)
  then show ?case by (simp add: allowsOnly_def)
next
  case (Cls rs)
  then show ?case by (intro allowsOnly_single) (auto split: list.splits if_splits)
next
  case Dot
  then show ?case by (intro allowsOnly_single) (auto split: list.splits if_splits)
next
  case Eps
  show ?case by (intro allowsOnly_single) simp
next
  case (NotAhead a)
  show ?case by (intro allowsOnly_single) (simp split: if_splits)
qed

lemma fullMatch_alphabet: "alphabet P r \<Longrightarrow> fullMatch r s \<Longrightarrow> list_all P s"
  using allowsOnlyD [OF alphabet_ends, of P r "[]" s] by (simp add: fullMatch_def)

lemma anchoredMatch_alphabet:
  "alphabet P r \<Longrightarrow> anchoredMatch r s \<Longrightarrow>
     list_all P s \<or> (\<exists>u. s = u @ [CHR 0x0A] \<and> list_all P u)"
  using allowsOnlyD [OF alphabet_ends, of P r "[]" s] allowsOnlyD [OF alphabet_ends, of P r _ s]
  unfolding anchoredMatch_def by fastforce

lemma alphabet_seqs: "alphabet P (seqs rs) \<longleftrightarrow> list_all (alphabet P) rs"
  by (induction rs rule: seqs.induct) auto

lemma alphabet_alts: "alphabet P (alts r rs) \<longleftrightarrow> list_all (alphabet P) (r # rs)"
  by (induction r rs rule: alts.induct) auto

lemma plain_seqs: "plain (seqs rs) \<longleftrightarrow> list_all plain rs"
  by (induction rs rule: seqs.induct) auto

lemma plain_alts: "plain (alts r rs) \<longleftrightarrow> list_all plain (r # rs)"
  by (induction r rs rule: alts.induct) auto

end
