(* ===== verification/Net_Formats.thy ===== *)
theory Net_Formats
  imports Regex
begin

text \<open>
  \<^verbatim>\<open>client/core/utils/networkUtilities.cpp\<close>: the address and domain patterns, net masks, and the format
  checks that guard every route and firewall entry. \<^verbatim>\<open>QHostAddress\<close> is outside the sources: the
  question whether it reads a text as an IPv4 address is the parameter \<open>isIPv4\<close> of the checks.
\<close>

unbundle bit_operations_syntax

section \<open>Patterns\<close>

definition digits19 :: rexp where "digits19 = Cls [(CHR ''1'', CHR ''9'')]"
definition digits09 :: rexp where "digits09 = Cls [(CHR ''0'', CHR ''9'')]"

text \<open>\<^verbatim>\<open>25[0-5]|2[0-4][0-9]|1[0-9][0-9]|[1-9][0-9]|[0-9]\<close>\<close>

definition octetRegExp :: rexp where
  "octetRegExp = alts
     (seqs [Chr CHR ''2'', Chr CHR ''5'', Cls [(CHR ''0'', CHR ''5'')]])
     [seqs [Chr CHR ''2'', Cls [(CHR ''0'', CHR ''4'')], digits09],
      seqs [Chr CHR ''1'', digits09, digits09],
      seqs [digits19, digits09],
      digits09]"

definition ipAddressWithSubnetRegExp :: rexp where
  "ipAddressWithSubnetRegExp = seqs
     [Rep (Seq octetRegExp (Chr CHR ''.'')) 3 3,
      octetRegExp,
      Rep (Seq (Chr CHR ''/'')
             (alts digits09
                [seqs [Cls [(CHR ''1'', CHR ''2'')], digits09],
                 seqs [Chr CHR ''3'', Cls [(CHR ''0'', CHR ''2'')]]])) 0 1]"

definition ipNetwork24RegExp :: rexp where
  "ipNetwork24RegExp = seqs [Rep (Seq octetRegExp (Chr CHR ''.'')) 3 3, Chr CHR ''0'']"

definition ipPortRegExp :: rexp where
  "ipPortRegExp = Seq Eps (alts digits19
     [Seq (opt (Cls [(CHR ''1'', CHR ''5'')])) (Rep digits09 2 4),
      seqs [Chr CHR ''6'', Cls [(CHR ''1'', CHR ''4'')], Rep digits09 3 3],
      seqs [Chr CHR ''6'', Chr CHR ''5'', Cls [(CHR ''1'', CHR ''4'')], Rep digits09 2 2],
      seqs [Chr CHR ''6'', Chr CHR ''5'', Chr CHR ''5'', Cls [(CHR ''1'', CHR ''2'')], digits09],
      seqs [Chr CHR ''6'', Chr CHR ''5'', Chr CHR ''5'', Chr CHR ''3'', Cls [(CHR ''1'', CHR ''5'')]]])"

definition azLower :: rexp where "azLower = Cls [(CHR ''a'', CHR ''z'')]"
definition alnum :: rexp where "alnum = Cls [(CHR ''a'', CHR ''z''), (CHR ''0'', CHR ''9'')]"
definition alnumDash :: rexp where
  "alnumDash = Cls [(CHR ''a'', CHR ''z''), (CHR ''0'', CHR ''9''), (CHR ''-'', CHR ''-'')]"
definition alnumDashUnderscore :: rexp where
  "alnumDashUnderscore =
     Cls [(CHR ''a'', CHR ''z''), (CHR ''0'', CHR ''9''), (CHR ''-'', CHR ''-''), (CHR ''_'', CHR ''_'')]"

definition domainRegExp :: rexp where
  "domainRegExp = seqs
     [Star (seqs [NotAhead (Chr CHR ''-''), opt (lit ''xn--''),
                  Rep alnumDashUnderscore 0 61, Rep alnum 1 1, Chr CHR ''.'']),
      opt (lit ''xn--''),
      Alt (Rep alnumDash 1 61) (Rep alnumDash 1 30),
      Chr CHR ''.'',
      Seq (Rep azLower 2 2) (Star azLower)]"

section \<open>Net masks\<close>

definition dotted :: "nat \<Rightarrow> nat \<Rightarrow> nat \<Rightarrow> nat \<Rightarrow> string" where
  "dotted a b c d = joinWith ''.'' [showNat a, showNat b, showNat c, showNat d]"

definition hostMask :: string where
  "hostMask = ''255.255.255.255''"

definition prefixMask :: "nat \<Rightarrow> 32 word" where
  "prefixMask p = (if p = 0 then 0 else push_bit (32 - p) (0xFFFFFFFF :: 32 word))"

definition dottedWord :: "32 word \<Rightarrow> string" where
  "dottedWord w = dotted (unat (drop_bit 24 w)) (unat (drop_bit 16 w AND 0xFF))
     (unat (drop_bit 8 w AND 0xFF)) (unat (w AND 0xFF))"

definition netMaskFromIpWithSubnet :: "string \<Rightarrow> string" where
  "netMaskFromIpWithSubnet ip =
     (if CHR ''/'' \<notin> set ip then hostMask
      else let parts = splitChar CHR ''/'' ip in
        if length parts < 2 then hostMask
        else case toInt (parts ! 1) of
            None \<Rightarrow> hostMask
          | Some pfx \<Rightarrow>
              if pfx < 0 \<or> pfx > 32 then hostMask else dottedWord (prefixMask (nat pfx)))"

definition ipAddressFromIpWithSubnet :: "string \<Rightarrow> string" where
  "ipAddressFromIpWithSubnet ip =
     (if count_list ip CHR ''.'' \<noteq> 3 then [] else hd (splitChar CHR ''/'' ip))"

section \<open>Format checks\<close>

definition checkIPv4Format :: "(string \<Rightarrow> bool) \<Rightarrow> string \<Rightarrow> bool" where
  "checkIPv4Format isIPv4 ip \<longleftrightarrow>
     (if ip = [] then False else if count_list ip CHR ''.'' \<noteq> 3 then False else isIPv4 ip)"

definition checkIpSubnetFormat :: "(string \<Rightarrow> bool) \<Rightarrow> string \<Rightarrow> bool" where
  "checkIpSubnetFormat isIPv4 ip \<longleftrightarrow>
     (if CHR ''/'' \<notin> set ip then checkIPv4Format isIPv4 ip
      else let parts = splitChar CHR ''/'' ip in
        if length parts \<noteq> 2 then False
        else case toInt (parts ! 1) of
            None \<Rightarrow> False
          | Some subnet \<Rightarrow>
              if subnet \<ge> 0 \<and> subnet \<le> 32 then checkIPv4Format isIPv4 (parts ! 0) else False)"

text \<open>\<^verbatim>\<open>QString::indexOf(needle, from)\<close>; \<^const>\<open>None\<close> is \<open>-1\<close>.\<close>

fun indexOfFrom :: "string \<Rightarrow> nat \<Rightarrow> string \<Rightarrow> nat \<Rightarrow> nat option" where
  "indexOfFrom p i [] from = (if from \<le> i \<and> p = [] then Some i else None)"
| "indexOfFrom p i (x # xs) from =
     (if from \<le> i \<and> prefix p (x # xs) then Some i else indexOfFrom p (Suc i) xs from)"

definition getStringBetween :: "string \<Rightarrow> string \<Rightarrow> string \<Rightarrow> string" where
  "getStringBetween s a b =
     (case indexOfFrom a 0 s 0 of
        None \<Rightarrow> []
      | Some ap \<Rightarrow> (case indexOfFrom b 0 s (ap + length a) of
          None \<Rightarrow> []
        | Some bp \<Rightarrow> let ap' = ap + length a in
            if bp \<le> ap' then [] else trimmed (take (bp - ap') (drop ap' s))))"

section \<open>What the patterns accept\<close>

text \<open>The finite languages among them can be enumerated.\<close>

primrec finWords :: "rexp \<Rightarrow> string list" where
  "finWords Eps = [[]]"
| "finWords (Cls rs) = map (\<lambda>c. [c]) (filter (inRanges rs) Enum.enum)"
| "finWords Dot = map (\<lambda>c. [c]) (filter (\<lambda>c. \<not> isLF c) Enum.enum)"
| "finWords (Seq a b) = (let ws = finWords b in [u @ v. u \<leftarrow> finWords a, v \<leftarrow> ws])"
| "finWords (Alt a b) = finWords a @ finWords b"
| "finWords (Rep a lo hi) = []"
| "finWords (Star a) = []"
| "finWords (NotAhead a) = []"

primrec finRegex :: "rexp \<Rightarrow> bool" where
  "finRegex Eps = True"
| "finRegex (Cls rs) = True"
| "finRegex Dot = True"
| "finRegex (Seq a b) = (finRegex a \<and> finRegex b)"
| "finRegex (Alt a b) = (finRegex a \<and> finRegex b)"
| "finRegex (Rep a lo hi) = False"
| "finRegex (Star a) = False"
| "finRegex (NotAhead a) = False"

lemma finWords_lang: "finRegex r \<Longrightarrow> set (finWords r) = lang r"
  by (induction r) (auto simp: conc_def enum_UNIV)

lemma octet_plain [simp]: "plain octetRegExp"
  by (simp add: octetRegExp_def digits09_def digits19_def)

lemma subnet_plain [simp]: "plain ipAddressWithSubnetRegExp"
  by (simp add: ipAddressWithSubnetRegExp_def digits09_def)

lemma octet_words:
  "finWords octetRegExp =
     map showNat ([250..<256] @ [200..<250] @ [100..<200] @ [10..<100] @ [0..<10])"
  by code_simp

lemma lang_octet: "lang octetRegExp = showNat ` {..<256}"
proof -
  have "finRegex octetRegExp"
    by (simp add: octetRegExp_def digits09_def digits19_def)
  then have "lang octetRegExp = set (finWords octetRegExp)" by (simp add: finWords_lang)
  also have "\<dots> = showNat ` ({250..<256} \<union> {200..<250} \<union> {100..<200} \<union> {10..<100} \<union> {0..<10})"
    unfolding octet_words by (simp only: set_map set_append set_upt Un_assoc)
  also have "{250..<256} \<union> {200..<250} \<union> {100..<200} \<union> {10..<100} \<union> {0..<10} = {..<256::nat}"
    by auto
  finally show ?thesis .
qed

definition subnetSuffixRegExp :: rexp where
  "subnetSuffixRegExp = alts digits09
     [seqs [Cls [(CHR ''1'', CHR ''2'')], digits09],
      seqs [Chr CHR ''3'', Cls [(CHR ''0'', CHR ''2'')]]]"

lemma lang_subnetSuffix: "lang subnetSuffixRegExp = showNat ` {..32}"
proof -
  have w: "finWords subnetSuffixRegExp = map showNat ([0..<10] @ [10..<30] @ [30..<33])"
    by code_simp
  have "finRegex subnetSuffixRegExp"
    by (simp add: subnetSuffixRegExp_def digits09_def)
  then have "lang subnetSuffixRegExp = set (finWords subnetSuffixRegExp)" by (simp add: finWords_lang)
  also have "\<dots> = showNat ` ({0..<10} \<union> {10..<30} \<union> {30..<33})"
    unfolding w by (simp only: set_map set_append set_upt Un_assoc)
  also have "{0..<10} \<union> {10..<30} \<union> {30..<33} = {..32::nat}" by auto
  finally show ?thesis .
qed

lemma dotted_eq:
  "dotted a b c d = showNat a @ ''.'' @ showNat b @ ''.'' @ showNat c @ ''.'' @ showNat d"
  by (simp add: dotted_def)

lemma lang_Chr [simp]: "lang (Chr c) = {[c]}"
  by (auto simp: inRanges_def)

lemma conc_single [simp]: "conc A {w} = (\<lambda>u. u @ w) ` A"
  by (auto simp: conc_def)

lemma lpow_3: "lpow A 3 = {u @ v @ w |u v w. u \<in> A \<and> v \<in> A \<and> w \<in> A}"
  by (fastforce simp: numeral_3_eq_3 conc_def)

lemma lang_octetDot: "lang (Seq octetRegExp (Chr CHR ''.'')) = (\<lambda>n. showNat n @ ''.'') ` {..<256}"
  by (simp only: lang.simps(4) lang_Chr conc_single lang_octet image_image)

lemma in_dotted_prefix:
  "s \<in> lpow (lang (Seq octetRegExp (Chr CHR ''.''))) 3 \<longleftrightarrow>
     (\<exists>a b c. a < 256 \<and> b < 256 \<and> c < 256 \<and>
        s = (showNat a @ ''.'') @ (showNat b @ ''.'') @ (showNat c @ ''.''))"
  unfolding lpow_3 lang_octetDot by blast

lemma lang_opt: "lang (opt r) = {[]} \<union> lang r"
  by (auto simp: conc_def atLeast0_atMost_Suc)

lemma ipAddressWithSubnet_lang:
  "lang ipAddressWithSubnetRegExp =
     conc (lpow (lang (Seq octetRegExp (Chr CHR ''.''))) 3)
       (conc (lang octetRegExp) ({[]} \<union> conc {''/''} (lang subnetSuffixRegExp)))"
proof -
  have r3: "lang (Rep r 3 3) = lpow (lang r) 3" for r by simp
  have e: "ipAddressWithSubnetRegExp =
      Seq (Rep (Seq octetRegExp (Chr CHR ''.'')) 3 3)
        (Seq octetRegExp (opt (Seq (Chr CHR ''/'') subnetSuffixRegExp)))"
    by (simp add: ipAddressWithSubnetRegExp_def subnetSuffixRegExp_def)
  show ?thesis unfolding e by (simp only: lang.simps(4) lang_Chr lang_opt r3)
qed

lemma ipAddressWithSubnet_iff:
  "fullMatch ipAddressWithSubnetRegExp s \<longleftrightarrow>
     (\<exists>a b c d. a < 256 \<and> b < 256 \<and> c < 256 \<and> d < 256 \<and>
        (s = dotted a b c d \<or> (\<exists>p \<le> 32. s = dotted a b c d @ ''/'' @ showNat p)))"
  (is "_ \<longleftrightarrow> ?R")
proof
  assume "fullMatch ipAddressWithSubnetRegExp s"
  then have "s \<in> lang ipAddressWithSubnetRegExp" by (simp add: fullMatch_lang)
  then obtain u v w where s: "s = u @ v @ w"
      and u: "u \<in> lpow (lang (Seq octetRegExp (Chr CHR ''.''))) 3"
      and v: "v \<in> lang octetRegExp"
      and w: "w \<in> {[]} \<union> conc {''/''} (lang subnetSuffixRegExp)"
    unfolding ipAddressWithSubnet_lang by (elim concE [of s] concE [of _ "lang octetRegExp"]) auto
  from u obtain a b c where u': "a < 256" "b < 256" "c < 256"
      "u = (showNat a @ ''.'') @ (showNat b @ ''.'') @ (showNat c @ ''.'')"
    unfolding in_dotted_prefix by blast
  from v obtain d where v': "d < 256" "v = showNat d" unfolding lang_octet by blast
  from w consider "w = []" | p where "p \<le> 32" "w = ''/'' @ showNat p"
    unfolding lang_subnetSuffix by (auto elim!: concE)
  then have "w = [] \<or> (\<exists>p \<le> 32. w = ''/'' @ showNat p)" by cases auto
  moreover have "s = dotted a b c d @ w" using s u'(4) v'(2) by (simp add: dotted_eq)
  ultimately have "s = dotted a b c d \<or> (\<exists>p \<le> 32. s = dotted a b c d @ ''/'' @ showNat p)"
    by auto
  with u'(1-3) v'(1) show ?R by blast
next
  assume ?R
  then obtain a b c d w where abcd: "a < 256" "b < 256" "c < 256" "d < 256"
      and s: "s = dotted a b c d @ w" and w: "w = [] \<or> (\<exists>p \<le> 32. w = ''/'' @ showNat p)"
    by (metis append_Nil2)
  have "w \<in> {[]} \<union> conc {''/''} (lang subnetSuffixRegExp)"
    using w unfolding lang_subnetSuffix conc_def by auto
  moreover have "(showNat a @ ''.'') @ (showNat b @ ''.'') @ (showNat c @ ''.'') \<in>
      lpow (lang (Seq octetRegExp (Chr CHR ''.''))) 3"
    unfolding in_dotted_prefix using abcd by blast
  moreover have "showNat d \<in> lang octetRegExp" unfolding lang_octet using abcd by blast
  moreover have "s = ((showNat a @ ''.'') @ (showNat b @ ''.'') @ (showNat c @ ''.'')) @ showNat d @ w"
    using s by (simp add: dotted_eq)
  ultimately have "s \<in> lang ipAddressWithSubnetRegExp"
    unfolding ipAddressWithSubnet_lang by (simp only: concI)
  then show "fullMatch ipAddressWithSubnetRegExp s" by (simp add: fullMatch_lang)
qed

section \<open>Splitting an address with a prefix length\<close>

lemma count_list_append: "count_list (xs @ ys) c = count_list xs c + count_list ys c"
  by (induction xs) auto

lemma showNat_slash [simp]: "CHR ''/'' \<notin> set (showNat n)" "CHR ''.'' \<notin> set (showNat n)"
    "CHR ''*'' \<notin> set (showNat n)"
  by (rule showNat_no_char, simp add: isDigit_of_char)+

lemma dotted_no_slash [simp]: "CHR ''/'' \<notin> set (dotted a b c d)" "CHR ''*'' \<notin> set (dotted a b c d)"
  by (auto simp: dotted_eq)

lemma count_dots_showNat [simp]: "count_list (showNat n) CHR ''.'' = 0"
  by (simp add: count_list_0_iff)

lemma count_dots_dotted [simp]: "count_list (dotted a b c d) CHR ''.'' = 3"
  by (simp add: dotted_eq count_list_append)

lemma dotted_neq_Nil [simp]: "dotted a b c d \<noteq> []"
  by (simp add: dotted_eq)

lemma split_cidr: "splitChar CHR ''/'' (dotted a b c d @ CHR ''/'' # showNat p) = [dotted a b c d, showNat p]"
  by (simp add: splitChar_append_sep splitChar_absent)

lemma prefixMask_unat: "p \<le> 32 \<Longrightarrow> unat (prefixMask p) = 2 ^ 32 - 2 ^ (32 - p)"
proof -
  have "list_all (\<lambda>p. uint (prefixMask p) = 2 ^ 32 - 2 ^ (32 - p)) [0..<33]" by code_simp
  moreover assume p: "p \<le> 32"
  ultimately have "uint (prefixMask p) = int (2 ^ 32) - int (2 ^ (32 - p))"
    by (simp add: list_all_iff)
  moreover have "(2::nat) ^ (32 - p) \<le> 2 ^ 32" by (rule power_increasing) simp_all
  ultimately have "int (unat (prefixMask p)) = int (2 ^ 32 - 2 ^ (32 - p))"
    by (simp only: uint_nat of_nat_diff)
  then show ?thesis by (simp only: of_nat_eq_iff)
qed

lemma netMask_cidr:
  "p \<le> 32 \<Longrightarrow> netMaskFromIpWithSubnet (dotted a b c d @ CHR ''/'' # showNat p) = dottedWord (prefixMask p)"
  by (simp add: netMaskFromIpWithSubnet_def split_cidr toInt_showNat)

lemma netMask_plain: "CHR ''/'' \<notin> set ip \<Longrightarrow> netMaskFromIpWithSubnet ip = hostMask"
  by (simp add: netMaskFromIpWithSubnet_def)

lemma ipAddressFrom_cidr:
  "ipAddressFromIpWithSubnet (dotted a b c d @ CHR ''/'' # showNat p) = dotted a b c d"
  by (simp add: ipAddressFromIpWithSubnet_def split_cidr count_list_append)

lemma ipAddressFrom_plain: "ipAddressFromIpWithSubnet (dotted a b c d) = dotted a b c d"
  by (simp add: ipAddressFromIpWithSubnet_def splitChar_absent)

section \<open>Characters of a domain name\<close>

definition isDomainChar :: "char \<Rightarrow> bool" where
  "isDomainChar c \<longleftrightarrow> (CHR ''a'' \<le> c \<and> c \<le> CHR ''z'') \<or> isDigit c \<or>
     c = CHR ''-'' \<or> c = CHR ''_'' \<or> c = CHR ''.''"

lemma alphabet_domain: "alphabet isDomainChar domainRegExp"
  by (auto simp: domainRegExp_def lit_def alphabet_seqs inRanges_def isDomainChar_def isDigit_def
      alnumDashUnderscore_def alnumDash_def alnum_def azLower_def)

lemma domain_chars: "fullMatch domainRegExp s \<Longrightarrow> list_all isDomainChar s"
  by (rule fullMatch_alphabet [OF alphabet_domain])

definition isCidrChar :: "char \<Rightarrow> bool" where
  "isCidrChar c \<longleftrightarrow> isDigit c \<or> c = CHR ''.'' \<or> c = CHR ''/''"

lemma of_char_dot: "(of_char c :: nat) = 46 \<longleftrightarrow> c = CHR ''.''" "(of_char c :: nat) = 47 \<longleftrightarrow> c = CHR ''/''"
  using of_char_eq_iff [where 'a = nat, of c "CHR ''.''"] of_char_eq_iff [where 'a = nat, of c "CHR ''/''"]
  by simp_all

lemma alphabet_subnet: "alphabet isCidrChar ipAddressWithSubnetRegExp"
  by (auto simp: ipAddressWithSubnetRegExp_def octetRegExp_def alphabet_seqs alphabet_alts inRanges_def
      isCidrChar_def isDigit_of_char less_eq_char_def digits09_def digits19_def simp flip: of_char_dot)

lemma subnet_chars: "fullMatch ipAddressWithSubnetRegExp s \<Longrightarrow> list_all isCidrChar s"
  by (rule fullMatch_alphabet [OF alphabet_subnet])

section \<open>Correctness of the address formats\<close>

text \<open>C40. The address pattern accepts exactly the canonical dotted quads, with an optional prefix
  length of at most 32: every octet in decimal without leading zeros and at most 255.\<close>

theorem address_pattern_exact:
  "fullMatch ipAddressWithSubnetRegExp s \<longleftrightarrow>
     (\<exists>a b c d. a < 256 \<and> b < 256 \<and> c < 256 \<and> d < 256 \<and>
        (s = dotted a b c d \<or> (\<exists>p \<le> 32. s = dotted a b c d @ ''/'' @ showNat p)))"
  by (rule ipAddressWithSubnet_iff)

text \<open>A network in CIDR notation is taken apart without loss: the address is its part before the
  slash, and the mask is the dotted form of the word with the top \<open>p\<close> bits set.\<close>

theorem cidr_parts:
  assumes "p \<le> 32"
  shows "ipAddressFromIpWithSubnet (dotted a b c d @ ''/'' @ showNat p) = dotted a b c d \<and>
    netMaskFromIpWithSubnet (dotted a b c d @ ''/'' @ showNat p) = dottedWord (prefixMask p) \<and>
    unat (prefixMask p) = 2 ^ 32 - 2 ^ (32 - p)"
  using assms by (simp add: ipAddressFrom_cidr netMask_cidr prefixMask_unat)

theorem cidr_parts_witness:
  "netMaskFromIpWithSubnet (dotted 10 1 0 0 @ ''/'' @ showNat 16) = ''255.255.0.0''"
proof -
  have "dottedWord (prefixMask 16) = ''255.255.0.0''" by code_simp
  then show ?thesis using cidr_parts [of 16 10 1 0 0] by simp
qed

end
