(* ===== verification/Split_Rule.thy ===== *)
theory Split_Rule
  imports Net_Formats
begin

text \<open>
  \<^verbatim>\<open>client/core/utils/splitTunnelRule.cpp\<close>: a site rule of the split tunnel. \<open>fromText\<close> normalises the
  user's text and classifies it; \<open>isValid\<close> and \<open>matchesHost\<close> are what every consumer of a rule uses
  (settings, connection, DNS observer, router). \<^verbatim>\<open>normalizeHostText\<close> takes the first element of a list
  that may be empty, which is undefined in C++: \<^const>\<open>None\<close> marks those inputs.
\<close>

datatype ruleType = ExactHost | WildcardHost | IpSubnet

record splitRule =
  rule_type :: ruleType
  rule_value :: string
  normalizedText :: string

definition normalizeHostText :: "string \<Rightarrow> string option" where
  "normalizeHostText text =
     (let t = toLower (trimmed text);
          t = replaceAll ''https://'' [] t;
          t = replaceAll ''http://'' [] t;
          t = replaceAll ''ftp://'' [] t
      in case splitSkipEmpty CHR ''/'' t of [] \<Rightarrow> None | p # _ \<Rightarrow> Some p)"

text \<open>\<^verbatim>\<open>QRegularExpression::escape\<close> quotes every special character, and the quoted star is replaced by
  \<^verbatim>\<open>.*\<close>, so each character of the pattern stands for itself except the star.\<close>

definition wildcardToRegularExpression :: "string \<Rightarrow> rexp" where
  "wildcardToRegularExpression pattern =
     seqs (map (\<lambda>c. if c = CHR ''*'' then Star Dot else Chr c) pattern)"

definition mkRule :: "ruleType \<Rightarrow> string \<Rightarrow> string \<Rightarrow> splitRule" where
  "mkRule ty v n = \<lparr>rule_type = ty, rule_value = v, normalizedText = n\<rparr>"

definition fromText :: "string \<Rightarrow> splitRule option" where
  "fromText text = (case normalizeHostText text of
       None \<Rightarrow> None
     | Some normalized \<Rightarrow>
         if fullMatch ipAddressWithSubnetRegExp normalized
           then Some (mkRule IpSubnet normalized normalized)
         else if CHR ''*'' \<in> set normalized
           then Some (mkRule WildcardHost normalized normalized)
         else Some (mkRule ExactHost normalized normalized))"

text \<open>The regular expression of a wildcard rule is built from escaped characters and is always
  valid, so \<^verbatim>\<open>m_regex.isValid()\<close> does not appear as a condition of its own.\<close>

definition isValid :: "splitRule \<Rightarrow> bool" where
  "isValid r \<longleftrightarrow>
     (if rule_value r = [] then False
      else case rule_type r of
          IpSubnet \<Rightarrow> fullMatch ipAddressWithSubnetRegExp (rule_value r)
        | WildcardHost \<Rightarrow> CHR ''.'' \<in> set (rule_value r) \<and>
            fullMatch domainRegExp (replaceAll ''*'' ''a'' (rule_value r))
        | ExactHost \<Rightarrow> fullMatch domainRegExp (rule_value r))"

definition isDynamicHostRule :: "splitRule \<Rightarrow> bool" where
  "isDynamicHostRule r \<longleftrightarrow> rule_type r = WildcardHost"

definition matchesHost :: "splitRule \<Rightarrow> string \<Rightarrow> bool option" where
  "matchesHost r host = (case normalizeHostText host of
       None \<Rightarrow> None
     | Some normalizedHost \<Rightarrow> Some (case rule_type r of
           ExactHost \<Rightarrow> normalizedHost = rule_value r
         | WildcardHost \<Rightarrow>
             if prefix ''*.'' (rule_value r) \<and> normalizedHost = drop 2 (rule_value r) then True
             else anchoredMatch (wildcardToRegularExpression (rule_value r)) normalizedHost
         | IpSubnet \<Rightarrow> False))"

section \<open>Normalisation\<close>

lemma replaceAll_absent: "c \<in> set b \<Longrightarrow> c \<notin> set s \<Longrightarrow> replaceAll b a s = s"
proof (induction s)
  case (Cons x s)
  then have "\<not> prefix b (x # s)" using set_mono_prefix [of b "x # s"] by auto
  moreover have "b \<noteq> []" using Cons.prems by auto
  ultimately show ?case using Cons by (simp add: replaceAll_Cons)
qed simp

lemma replaceAll_single: "replaceAll [c] [d] s = map (\<lambda>x. if x = c then d else x) s"
  by (induction s) (auto simp: replaceAll_Cons)

lemma normalize_no_slash: "normalizeHostText t = Some n \<Longrightarrow> CHR ''/'' \<notin> set n \<and> n \<noteq> []"
proof -
  assume "normalizeHostText t = Some n"
  then obtain u ps where "splitSkipEmpty CHR ''/'' u = n # ps"
    by (auto simp: normalizeHostText_def Let_def split: list.splits)
  then have "n \<in> set (splitSkipEmpty CHR ''/'' u)" by simp
  then show ?thesis by (auto simp: set_splitSkipEmpty dest: splitChar_no_sep)
qed

text \<open>Text that needs no normalisation.\<close>

definition hostClean :: "string \<Rightarrow> bool" where
  "hostClean s \<longleftrightarrow> s \<noteq> [] \<and> CHR ''/'' \<notin> set s \<and> list_all (\<lambda>c. \<not> qisSpace c \<and> qcharLower c = c) s"

lemma normalize_clean: "hostClean s \<Longrightarrow> normalizeHostText s = Some s"
proof -
  assume s: "hostClean s"
  then have "trimmed s = s"
    by (intro trimmed_id) (auto simp: hostClean_def list_all_iff)
  moreover have "toLower s = s"
    using s by (simp add: hostClean_def toLower_def list_all_iff map_idI)
  moreover have "splitSkipEmpty CHR ''/'' s = [s]"
    using s by (simp add: hostClean_def splitSkipEmpty_def splitChar_absent)
  ultimately show ?thesis
    using s by (simp add: normalizeHostText_def hostClean_def replaceAll_absent [of "CHR ''/''"])
qed

lemma domainChar_clean: "isDomainChar c \<or> isDigit c \<Longrightarrow> \<not> qisSpace c \<and> qcharLower c = c \<and> c \<noteq> CHR ''/''"
  by (auto simp: isDomainChar_def isDigit_of_char qisSpace_def qcharLower_def less_eq_char_def)

lemma star_clean: "\<not> qisSpace CHR ''*'' \<and> qcharLower CHR ''*'' = CHR ''*''"
  by (simp add: qisSpace_def qcharLower_def)

lemma fromText_cases:
  assumes "fromText t = Some r"
  obtains n where "normalizeHostText t = Some n" "rule_value r = n" "normalizedText r = n"
    "rule_type r = (if fullMatch ipAddressWithSubnetRegExp n then IpSubnet
       else if CHR ''*'' \<in> set n then WildcardHost else ExactHost)"
    "r = mkRule (rule_type r) n n"
  using assms by (auto simp: fromText_def mkRule_def split: option.splits if_splits)

lemma fromText_of_normalized:
  assumes "fromText t = Some r" and "normalizeHostText (normalizedText r) = Some (normalizedText r)"
  shows "fromText (normalizedText r) = Some r"
  using assms by (auto simp: fromText_def mkRule_def split: option.splits if_splits)

text \<open>The characters of a valid rule.\<close>

lemma replaceAll_star_domain:
  assumes "list_all isDomainChar (replaceAll ''*'' ''a'' v)"
  shows "list_all (\<lambda>c. isDomainChar c \<or> c = CHR ''*'') v"
  using assms by (auto simp: replaceAll_single list_all_iff split: if_splits)

lemma valid_rule_chars:
  assumes "isValid r"
  shows "list_all (\<lambda>c. isDomainChar c \<or> c = CHR ''*'' \<or> c = CHR ''/'') (rule_value r)"
proof (cases "rule_type r")
  case IpSubnet
  with assms have "list_all isCidrChar (rule_value r)"
    by (auto simp: isValid_def split: if_splits intro: subnet_chars)
  then show ?thesis by (auto simp: list_all_iff isCidrChar_def isDomainChar_def)
next
  case WildcardHost
  with assms have "list_all (\<lambda>c. isDomainChar c \<or> c = CHR ''*'') (rule_value r)"
    by (auto simp: isValid_def split: if_splits intro: replaceAll_star_domain domain_chars)
  then show ?thesis by (auto simp: list_all_iff)
next
  case ExactHost
  with assms have "list_all isDomainChar (rule_value r)"
    by (auto simp: isValid_def split: if_splits intro: domain_chars)
  then show ?thesis by (auto simp: list_all_iff)
qed

lemma valid_rule_clean:
  assumes "fromText t = Some r" and "isValid r"
  shows "hostClean (rule_value r)"
proof -
  obtain n where n: "normalizeHostText t = Some n" "rule_value r = n"
    using assms(1) by (rule fromText_cases)
  then have "CHR ''/'' \<notin> set (rule_value r)" "rule_value r \<noteq> []"
    using normalize_no_slash by auto
  moreover have "\<not> qisSpace c \<and> qcharLower c = c" if "c \<in> set (rule_value r)" for c
  proof -
    have "isDomainChar c \<or> c = CHR ''*''"
      using valid_rule_chars [OF assms(2)] calculation(1) that by (auto simp: list_all_iff)
    then show ?thesis using domainChar_clean [of c] star_clean by auto
  qed
  ultimately show ?thesis by (simp add: hostClean_def list_all_iff)
qed

lemma fromText_idem:
  assumes "fromText t = Some r" and "isValid r"
  shows "fromText (normalizedText r) = Some r"
proof -
  have "normalizedText r = rule_value r" using assms(1) by (rule fromText_cases) simp
  then show ?thesis
    using assms by (metis fromText_of_normalized normalize_clean valid_rule_clean)
qed

lemma fromText_None_iff: "fromText t = None \<longleftrightarrow> normalizeHostText t = None"
  by (auto simp: fromText_def split: option.splits)

text \<open>A slash never survives normalisation, so an address rule is always a single address.\<close>

lemma ip_rule_is_host:
  assumes "fromText t = Some r" and "rule_type r = IpSubnet"
  obtains a b c d where "a < 256" "b < 256" "c < 256" "d < 256" "normalizedText r = dotted a b c d"
proof -
  obtain n where n: "normalizeHostText t = Some n" "normalizedText r = n"
      "fullMatch ipAddressWithSubnetRegExp n"
    using assms by (auto elim!: fromText_cases split: if_splits)
  moreover have "CHR ''/'' \<notin> set n" using n(1) normalize_no_slash by auto
  ultimately show thesis
    using that unfolding ipAddressWithSubnet_iff by auto
qed

section \<open>Wildcard matching\<close>

lemma lang_star_dot: "u \<in> lang (Star Dot) \<longleftrightarrow> list_all (\<lambda>c. \<not> isLF c) u"
proof
  assume "u \<in> lang (Star Dot)"
  then obtain k where "u \<in> lpow (lang Dot) k" by auto
  then show "list_all (\<lambda>c. \<not> isLF c) u"
    by (induction k arbitrary: u) (auto simp: conc_def)
next
  assume "list_all (\<lambda>c. \<not> isLF c) u"
  then have "u \<in> lpow (lang Dot) (length u)"
  proof (induction u)
    case (Cons c u)
    then have "[c] \<in> lang Dot" "u \<in> lpow (lang Dot) (length u)" by simp_all
    then show ?case using concI [of "[c]" _ u] by simp
  qed simp
  then show "u \<in> lang (Star Dot)" by auto
qed

lemma lang_lit: "lang (seqs (map Chr s)) = {s}"
proof (induction s)
  case (Cons c s)
  then have "lang (seqs (map Chr (c # s))) = conc (lang (Chr c)) {s}"
    by (cases s) (simp_all add: image_Collect inRanges_def)
  then show ?case by (simp only: lang_Chr conc_single) simp
qed simp

lemma wildcard_suffix_match:
  assumes "CHR ''*'' \<notin> set w" and "w \<noteq> []"
  shows "anchoredMatch (wildcardToRegularExpression (CHR ''*'' # w)) h \<longleftrightarrow>
     (\<exists>u. list_all (\<lambda>c. \<not> isLF c) u \<and> (h = u @ w \<or> h = u @ w @ [CHR 0x0A]))"
proof -
  have "map (\<lambda>c. if c = CHR ''*'' then Star Dot else Chr c) w = map Chr w"
    using assms(1) by (auto intro!: map_cong)
  moreover have "seqs (r # map Chr w) = Seq r (seqs (map Chr w))" for r
    using assms(2) by (cases w) simp_all
  ultimately have e: "wildcardToRegularExpression (CHR ''*'' # w) = Seq (Star Dot) (seqs (map Chr w))"
    unfolding wildcardToRegularExpression_def by (simp only: list.map if_True simp_thms)
  have p: "plain (Seq (Star Dot) (seqs (map Chr w)))"
    by (simp add: plain_seqs list_all_iff)
  have m: "s \<in> lang (Seq (Star Dot) (seqs (map Chr w))) \<longleftrightarrow> (\<exists>u. list_all (\<lambda>c. \<not> isLF c) u \<and> s = u @ w)" for s
    unfolding lang.simps(4) lang_lit by (auto simp: conc_def lang_star_dot simp del: lang.simps)
  show ?thesis
    unfolding e anchoredMatch_lang [OF p] Bex_def m by auto
qed

section \<open>Correctness of the rules\<close>

text \<open>C39. A valid rule is a fixed point of parsing: its normalised text, which the settings store and
  the service receives, parses back to the same rule.\<close>

theorem valid_rule_roundtrip:
  assumes "fromText t = Some r" and "isValid r"
  shows "fromText (normalizedText r) = Some r"
  using assms by (rule fromText_idem)

definition exampleRule :: splitRule where
  "exampleRule = mkRule WildcardHost ''*.ru'' ''*.ru''"

lemma exampleRule_parsed: "fromText ''*.ru'' = Some exampleRule" "isValid exampleRule"
  by code_simp+

theorem valid_rule_roundtrip_witness: "fromText (normalizedText exampleRule) = Some exampleRule"
  by (rule valid_rule_roundtrip [OF exampleRule_parsed])

text \<open>An address rule never carries a network: whatever was typed, the text that reaches the
  routing table is one canonical address.\<close>

theorem address_rule_single:
  assumes "fromText t = Some r" and "rule_type r = IpSubnet"
  shows "\<exists>a b c d. a < 256 \<and> b < 256 \<and> c < 256 \<and> d < 256 \<and> normalizedText r = dotted a b c d"
  using ip_rule_is_host [OF assms] by metis

theorem address_rule_single_witness:
  "\<exists>a b c d. a < 256 \<and> b < 256 \<and> c < 256 \<and> d < 256 \<and> ''8.8.8.8'' = dotted a b c d"
proof -
  have "fromText ''8.8.8.8/8'' = Some (mkRule IpSubnet ''8.8.8.8'' ''8.8.8.8'')" by code_simp
  from address_rule_single [OF this] show ?thesis by (simp add: mkRule_def)
qed

text \<open>A wildcard rule \<^verbatim>\<open>*w\<close> whose tail has no further star matches exactly the hosts that
  end in \<open>w\<close>, up to one final line feed.\<close>

theorem wildcard_matches_suffix:
  assumes "CHR ''*'' \<notin> set w" and "w \<noteq> []"
  shows "anchoredMatch (wildcardToRegularExpression (CHR ''*'' # w)) h \<longleftrightarrow>
     (\<exists>u. list_all (\<lambda>c. \<not> isLF c) u \<and> (h = u @ w \<or> h = u @ w @ [CHR 0x0A]))"
  using assms by (rule wildcard_suffix_match)

theorem wildcard_matches_suffix_witness:
  "anchoredMatch (wildcardToRegularExpression ''*.ru'') ''ya.ru''"
proof -
  have "\<exists>u. list_all (\<lambda>c. \<not> isLF c) u \<and> (''ya.ru'' = u @ ''.ru'' \<or> ''ya.ru'' = u @ ''.ru'' @ [CHR 0x0A])"
    by (rule exI [of _ "''ya''"]) (simp add: isLF_def)
  then show ?thesis using wildcard_matches_suffix [of "''.ru''" "''ya.ru''"] by simp
qed

end
