(* ===== verification/Tunnel_Daemon.thy ===== *)
theory Tunnel_Daemon
  imports Split_Rule "HOL-Library.AList"
begin

text \<open>
  \<^verbatim>\<open>client/daemon/daemon.cpp\<close> as \<^verbatim>\<open>client/platforms/macos/daemon/macosdaemon.cpp\<close> runs it: the part of the service that
  brings WireGuard tunnels up and down, counts the users of every exclusion route and keeps the routes of split-tunnel
  hosts. What it asks of \<^verbatim>\<open>WireguardUtils\<close>, \<^verbatim>\<open>IPUtils\<close> and \<^verbatim>\<open>DnsUtils\<close> is a log of calls whose outcome is a parameter, as are
  the peers and what Qt makes of the text of an address. On macOS \<^verbatim>\<open>run\<close> always succeeds and \<^verbatim>\<open>prepareActivation\<close> does
  nothing. The configuration is the parsed one, with the members that the daemon itself reads. Qt's hash table of
  exclusion routes and its set of routes of resolved hosts are lists, so that they are traversed in the order in which
  they were filled; nothing below depends on it.

  The locale \<open>dm_invariant\<close> says which elementary steps an invariant has to survive; that every operation keeps it is
  proved there once, and \<open>dm_run_invariant\<close> extends this to runs. They are interpreted on the tracking of exclusion
  routes, on the generations of look-ups and on the announcement of failures.
\<close>

section \<open>Addresses\<close>

datatype protocolKind = IPv4Protocol | IPv6Protocol | UnknownProtocol

record qHostAddress =
  addressText :: string
  hostProtocol :: protocolKind

record ipAddress =
  m_address :: qHostAddress
  m_prefixLength :: int

text \<open>Qt reads texts: \<^verbatim>\<open>QHostAddress(QString)\<close> and \<^verbatim>\<open>QHostAddress::parseSubnet\<close>.\<close>

record qtAddresses =
  readAddress :: "string \<Rightarrow> qHostAddress"
  parseSubnet :: "string \<Rightarrow> qHostAddress \<times> int"

definition ipAddressOfText :: "qtAddresses \<Rightarrow> string \<Rightarrow> ipAddress" where
  "ipAddressOfText qt ip =
     (let (addr, len) = (if CHR ''/'' \<in> set ip then parseSubnet qt ip else (readAddress qt ip, 999999));
          len = (case hostProtocol addr of
                   IPv4Protocol \<Rightarrow> if len \<ge> 32 then 32 else len
                 | IPv6Protocol \<Rightarrow> if len \<ge> 128 then 128 else len
                 | UnknownProtocol \<Rightarrow> len)
      in \<lparr>m_address = addr, m_prefixLength = len\<rparr>)"

definition ipAddressOfHost :: "qHostAddress \<Rightarrow> ipAddress" where
  "ipAddressOfHost addr = \<lparr>m_address = addr, m_prefixLength = (if hostProtocol addr = IPv4Protocol then 32 else 128)\<rparr>"

section \<open>State\<close>

datatype hopType = SingleHop | MultiHopEntry | MultiHopExit

record interfaceConfig =
  m_hopType :: hopType
  m_privateKey :: string
  m_deviceIpv4Address :: string
  m_deviceIpv6Address :: string
  m_serverIpv4Gateway :: string
  m_serverIpv6Gateway :: string
  m_serverPublicKey :: string
  m_primaryDnsServer :: string
  m_secondaryDnsServer :: string
  m_allowedIPAddressRanges :: "ipAddress list"
  m_excludedAddresses :: "string list"
  m_splitTunnelDnsRules :: "string list"
  m_killSwitchEnabled :: bool

datatype dmCall =
    AddInterface interfaceConfig
  | AddInterfaceIPs interfaceConfig
  | SetMTUAndUp interfaceConfig
  | UpdatePeer interfaceConfig
  | DeletePeer interfaceConfig
  | UpdateRoutePrefix ipAddress
  | DeleteRoutePrefix ipAddress
  | AddExclusionRoute ipAddress
  | DeleteExclusionRoute ipAddress
  | DeleteInterface
  | DmUpdateResolvers "qHostAddress list"
  | RestoreResolvers
  | ConfigureSplitTunnelRules "string list"

text \<open>The log: calls with their outcome, signals, ranges given to the kill switch, and look-ups with their generation.\<close>

datatype dmAct =
    DmCall dmCall bool
  | DmConnected string
  | DmDisconnected
  | ActivationFailure
  | DmAllowRange "string list"
  | DmLookup string int

record peerStatus =
  m_pubkey :: string
  m_handshake :: int
  m_txBytes :: int
  m_rxBytes :: int

record dmEnv =
  callOk :: "dmAct list \<Rightarrow> dmCall \<Rightarrow> bool"
  interfaceExists :: "dmAct list \<Rightarrow> bool"
  getPeerStatus :: "dmAct list \<Rightarrow> peerStatus list"
  fromBase64 :: "string \<Rightarrow> nat list"
  qtText :: qtAddresses

text \<open>The date of a connection is invalid (\<^const>\<open>None\<close>) until the handshake. The generation of look-ups and the counts
  of users are of the C++ type \<^verbatim>\<open>int\<close>; they are unbounded here, since they grow by one per deactivation and per
  configured route.\<close>

record dmState =
  m_connections :: "hopType \<Rightarrow> (interfaceConfig \<times> int option) option"
  m_excludedAddrSet :: "(ipAddress \<times> int) list"
  m_handshakeTimer :: bool
  m_splitTunnelDnsResolveHosts :: "string list"
  m_splitTunnelDnsRoutes :: "ipAddress list"
  m_splitTunnelDnsGeneration :: int
  m_splitTunnelDnsKillSwitchEnabled :: bool
  dmLog :: "dmAct list"

definition peerKeysMatch :: "dmEnv \<Rightarrow> string \<Rightarrow> string \<Rightarrow> bool" where
  "peerKeysMatch env lhs rhs \<longleftrightarrow> (let lhsKey = fromBase64 env lhs in length lhsKey = 32 \<and> lhsKey = fromBase64 env rhs)"

definition dmNote :: "dmAct \<Rightarrow> dmState \<Rightarrow> dmState" where
  "dmNote a s = s\<lparr>dmLog := dmLog s @ [a]\<rparr>"

definition wgCall :: "dmEnv \<Rightarrow> dmCall \<Rightarrow> dmState \<Rightarrow> bool \<times> dmState" where
  "wgCall env c s = (let r = callOk env (dmLog s) c in (r, dmNote (DmCall c r) s))"

text \<open>Going on after a success, returning false after a failure.\<close>

definition ifOk :: "bool \<times> dmState \<Rightarrow> (dmState \<Rightarrow> bool \<times> dmState) \<Rightarrow> bool \<times> dmState" where
  "ifOk r f = (if fst r then f (snd r) else (False, snd r))"

section \<open>Exclusion routes\<close>

definition addExclusionRoute :: "dmEnv \<Rightarrow> ipAddress \<Rightarrow> dmState \<Rightarrow> bool \<times> dmState" where
  "addExclusionRoute env route s = (case map_of (m_excludedAddrSet s) route of
       Some n \<Rightarrow> (True, s\<lparr>m_excludedAddrSet := AList.update route (n + 1) (m_excludedAddrSet s)\<rparr>)
     | None \<Rightarrow> ifOk (wgCall env (AddExclusionRoute route) s)
         (\<lambda>s. (True, s\<lparr>m_excludedAddrSet := AList.update route 1 (m_excludedAddrSet s)\<rparr>)))"

text \<open>A missing entry reads as 0 and is then removed.\<close>

definition delExclusionRoute :: "dmEnv \<Rightarrow> ipAddress \<Rightarrow> dmState \<Rightarrow> bool \<times> dmState" where
  "delExclusionRoute env route s =
     (let n = (case map_of (m_excludedAddrSet s) route of Some n \<Rightarrow> n | None \<Rightarrow> 0) in
      if n > 1 then (True, s\<lparr>m_excludedAddrSet := AList.update route (n - 1) (m_excludedAddrSet s)\<rparr>)
      else wgCall env (DeleteExclusionRoute route) (s\<lparr>m_excludedAddrSet := AList.delete route (m_excludedAddrSet s)\<rparr>))"

definition refreshSplitTunnelStaticRoutes :: "dmEnv \<Rightarrow> string list \<Rightarrow> dmState \<Rightarrow> dmState" where
  "refreshSplitTunnelStaticRoutes env addresses s =
     fold (\<lambda>i s. let addr = trimmed i in
       if addr = [] then s else snd (addExclusionRoute env (ipAddressOfText (qtText env) addr) s)) addresses s"

definition clearSplitTunnelDnsRoutes :: "dmEnv \<Rightarrow> dmState \<Rightarrow> dmState" where
  "clearSplitTunnelDnsRoutes env s =
     (fold (\<lambda>route s. if map_of (m_excludedAddrSet s) route \<noteq> None then snd (delExclusionRoute env route s) else s)
        (m_splitTunnelDnsRoutes s) s)\<lparr>m_splitTunnelDnsRoutes := []\<rparr>"

text \<open>The hosts to resolve and the rules for the observer. Undefined where a rule is.\<close>

fun dnsRuleLists :: "string list \<Rightarrow> (string list \<times> string list) option" where
  "dnsRuleLists [] = Some ([], [])"
| "dnsRuleLists (ruleText # texts) = (case (fromText ruleText, dnsRuleLists texts) of
       (Some rule, Some (hosts, rules)) \<Rightarrow>
         if \<not> isValid rule \<or> rule_type rule = IpSubnet then Some (hosts, rules)
         else Some (if rule_type rule = ExactHost then normalizedText rule # hosts else hosts, normalizedText rule # rules)
     | _ \<Rightarrow> None)"

definition configureSplitTunnelDnsRoutes :: "dmEnv \<Rightarrow> interfaceConfig \<Rightarrow> dmState \<Rightarrow> dmState option" where
  "configureSplitTunnelDnsRoutes env config s =
     (let s = clearSplitTunnelDnsRoutes env (s\<lparr>m_splitTunnelDnsGeneration := m_splitTunnelDnsGeneration s + 1,
                m_splitTunnelDnsKillSwitchEnabled := m_killSwitchEnabled config\<rparr>)
      in map_option (\<lambda>(hosts, rules).
           snd (wgCall env (ConfigureSplitTunnelRules (removeDuplicates rules))
             (s\<lparr>m_splitTunnelDnsResolveHosts := removeDuplicates hosts\<rparr>))) (dnsRuleLists (m_splitTunnelDnsRules config)))"

definition refreshSplitTunnelDnsRoutes :: "dmState \<Rightarrow> dmState" where
  "refreshSplitTunnelDnsRoutes s =
     fold (\<lambda>host s. dmNote (DmLookup host (m_splitTunnelDnsGeneration s)) s) (m_splitTunnelDnsResolveHosts s) s"

fun routeResolvedIps :: "dmEnv \<Rightarrow> string list \<Rightarrow> string list \<Rightarrow> dmState \<Rightarrow> string list \<times> dmState" where
  "routeResolvedIps env [] routedIps s = (routedIps, s)"
| "routeResolvedIps env (ip # ips) routedIps s =
     (let route = ipAddressOfText (qtText env) ip in
      if route \<in> set (m_splitTunnelDnsRoutes s) then routeResolvedIps env ips routedIps s
      else let (ok, s) = addExclusionRoute env route s in
           if ok then routeResolvedIps env ips (routedIps @ [ip]) (s\<lparr>m_splitTunnelDnsRoutes := m_splitTunnelDnsRoutes s @ [route]\<rparr>)
           else routeResolvedIps env ips routedIps s)"

definition onSplitTunnelHostResolved :: "dmEnv \<Rightarrow> string list \<Rightarrow> dmState \<Rightarrow> dmState" where
  "onSplitTunnelHostResolved env ips s =
     (let (routedIps, s) = routeResolvedIps env ips [] s in
      if m_splitTunnelDnsKillSwitchEnabled s \<and> routedIps \<noteq> [] then dmNote (DmAllowRange routedIps) s else s)"

text \<open>The answer to a look-up that was started in some generation.\<close>

definition onLookup :: "dmEnv \<Rightarrow> int \<Rightarrow> qHostAddress list \<Rightarrow> dmState \<Rightarrow> dmState" where
  "onLookup env generation addrs s =
     (if generation \<noteq> m_splitTunnelDnsGeneration s then s
      else let ips = removeDuplicates (map addressText (filter (\<lambda>a. hostProtocol a = IPv4Protocol) addrs))
           in if ips \<noteq> [] then onSplitTunnelHostResolved env ips s else s)"

section \<open>Deactivation\<close>

definition hops :: "hopType list" where
  "hops = [SingleHop, MultiHopEntry, MultiHopExit]"

definition connectionList :: "dmState \<Rightarrow> (interfaceConfig \<times> int option) list" where
  "connectionList s = List.map_filter (m_connections s) hops"

definition callAll :: "dmEnv \<Rightarrow> dmCall list \<Rightarrow> dmState \<Rightarrow> dmState" where
  "callAll env cs s = fold (\<lambda>c s. snd (wgCall env c s)) cs s"

definition deactivate :: "dmEnv \<Rightarrow> bool \<Rightarrow> dmState \<Rightarrow> bool \<times> dmState" where
  "deactivate env emitSignals s =
     (let s = (if emitSignals then dmNote DmDisconnected s else s);
          s = s\<lparr>m_splitTunnelDnsKillSwitchEnabled := False, m_splitTunnelDnsGeneration := m_splitTunnelDnsGeneration s + 1\<rparr>;
          s = (clearSplitTunnelDnsRoutes env s)\<lparr>m_splitTunnelDnsResolveHosts := []\<rparr>;
          s = callAll env [ConfigureSplitTunnelRules [], RestoreResolvers] s;
          s = callAll env (concat (map (\<lambda>(config, date). map DeleteRoutePrefix (m_allowedIPAddressRanges config) @ [DeletePeer config])
                (connectionList s))) s;
          s = callAll env (map (DeleteExclusionRoute \<circ> fst) (m_excludedAddrSet s)) s
      in wgCall env DeleteInterface (s\<lparr>m_excludedAddrSet := [], m_connections := (\<lambda>hop. None)\<rparr>))"

section \<open>Activation\<close>

definition maybeUpdateResolvers :: "dmEnv \<Rightarrow> interfaceConfig \<Rightarrow> dmState \<Rightarrow> bool \<times> dmState" where
  "maybeUpdateResolvers env config s =
     (if m_hopType config = MultiHopExit \<or> m_hopType config = SingleHop then
        let read = readAddress (qtText env);
            resolvers = read (m_primaryDnsServer config) #
              (if m_secondaryDnsServer config \<noteq> [] then [read (m_secondaryDnsServer config)] else []) @
              (if m_primaryDnsServer config = m_serverIpv4Gateway config then [read (m_serverIpv6Gateway config)] else [])
        in wgCall env (DmUpdateResolvers resolvers) s
      else (True, s))"

definition supportServerSwitching :: "interfaceConfig \<Rightarrow> dmState \<Rightarrow> bool" where
  "supportServerSwitching config s = (case m_connections s (m_hopType config) of
       None \<Rightarrow> False
     | Some (current, date) \<Rightarrow> m_privateKey current = m_privateKey config \<and>
         m_deviceIpv4Address current = m_deviceIpv4Address config \<and> m_deviceIpv6Address current = m_deviceIpv6Address config \<and>
         m_serverIpv4Gateway current = m_serverIpv4Gateway config \<and> m_serverIpv6Gateway current = m_serverIpv6Gateway config)"

fun updateRoutes :: "dmEnv \<Rightarrow> ipAddress list \<Rightarrow> dmState \<Rightarrow> bool \<times> dmState" where
  "updateRoutes env [] s = (True, s)"
| "updateRoutes env (ip # ips) s = ifOk (wgCall env (UpdateRoutePrefix ip) s) (updateRoutes env ips)"

text \<open>The routes of the new peer are set until one fails; the exclusions of the old one are given up by host address.\<close>

definition switchServer :: "dmEnv \<Rightarrow> interfaceConfig \<Rightarrow> dmState \<Rightarrow> bool \<times> dmState" where
  "switchServer env config s = (case m_connections s (m_hopType config) of
       None \<Rightarrow> (False, s)
     | Some (lastConfig, date) \<Rightarrow>
         let s = refreshSplitTunnelStaticRoutes env (m_excludedAddresses config) s in
         ifOk (wgCall env (UpdatePeer config) s) (\<lambda>s.
           let s = snd (updateRoutes env (m_allowedIPAddressRanges config) s);
               s = fold (\<lambda>i s. let addr = trimmed i in if addr = [] then s
                     else snd (delExclusionRoute env (ipAddressOfHost (readAddress (qtText env) addr)) s))
                   (m_excludedAddresses lastConfig) s;
               s = callAll env (map DeleteRoutePrefix
                     (filter (\<lambda>ip. ip \<notin> set (m_allowedIPAddressRanges config)) (m_allowedIPAddressRanges lastConfig))) s
           in ifOk (if m_serverPublicKey config \<noteq> m_serverPublicKey lastConfig then wgCall env (DeletePeer lastConfig) s else (True, s))
                (\<lambda>s. (True, s\<lparr>m_connections := (m_connections s)(m_hopType config := Some (config, None))\<rparr>))))"

definition connected :: "interfaceConfig \<Rightarrow> dmState \<Rightarrow> bool \<times> dmState" where
  "connected config s =
     (True, s\<lparr>m_connections := (m_connections s)(m_hopType config := Some (config, None)), m_handshakeTimer := True\<rparr>)"

definition activateFresh :: "dmEnv \<Rightarrow> interfaceConfig \<Rightarrow> dmState \<Rightarrow> bool \<times> dmState" where
  "activateFresh env config s =
     ifOk (if interfaceExists env (dmLog s) then (True, s) else wgCall env (AddInterface config) s) (\<lambda>s.
     ifOk (wgCall env (AddInterfaceIPs config) s) (\<lambda>s.
     ifOk (wgCall env (SetMTUAndUp config) s) (\<lambda>s.
     ifOk (wgCall env (UpdatePeer config) s) (\<lambda>s.
     ifOk (maybeUpdateResolvers env config s) (\<lambda>s.
     ifOk (updateRoutes env (m_allowedIPAddressRanges config) s) (connected config))))))"

text \<open>The guard that announces a failure when a call returns false.\<close>

definition failureGuard :: "bool \<times> dmState \<Rightarrow> bool \<times> dmState" where
  "failureGuard r = (if fst r then r else (False, dmNote ActivationFailure (snd r)))"

definition activateSwitch :: "dmEnv \<Rightarrow> interfaceConfig \<Rightarrow> dmState \<Rightarrow> bool \<times> dmState" where
  "activateSwitch env config s =
     ifOk (switchServer env config s) (\<lambda>s.
     ifOk (wgCall env RestoreResolvers s) (\<lambda>s.
     ifOk (maybeUpdateResolvers env config s) (connected config)))"

text \<open>After a successful deactivation no connection is left, so that the inner call of \<^verbatim>\<open>activate\<close> sets up a fresh one.\<close>

definition activate :: "dmEnv \<Rightarrow> interfaceConfig \<Rightarrow> dmState \<Rightarrow> bool \<times> dmState" where
  "activate env config s = failureGuard
     (if m_connections s (m_hopType config) = None then activateFresh env config s
      else if supportServerSwitching config s then activateSwitch env config s
      else ifOk (deactivate env False s) (\<lambda>s. failureGuard (activateFresh env config s)))"

section \<open>The handshake\<close>

text \<open>A connection whose handshake is awaited, against the peers of the interface in their order.\<close>

fun awaitHandshake :: "dmEnv \<Rightarrow> hopType \<Rightarrow> interfaceConfig \<Rightarrow> peerStatus list \<Rightarrow> dmState \<Rightarrow> dmState option" where
  "awaitHandshake env hop config [] s = Some s"
| "awaitHandshake env hop config (status # peers) s =
     (if \<not> peerKeysMatch env (m_serverPublicKey config) (m_pubkey status) \<or> m_handshake status = 0
      then awaitHandshake env hop config peers s
      else let s = s\<lparr>m_connections := (m_connections s)(hop := Some (config, Some (m_handshake status)))\<rparr>;
               s = dmNote (DmConnected (m_pubkey status)) s
           in case configureSplitTunnelDnsRoutes env config s of
                None \<Rightarrow> None
              | Some s \<Rightarrow> awaitHandshake env hop config peers
                  (refreshSplitTunnelDnsRoutes (refreshSplitTunnelStaticRoutes env (m_excludedAddresses config) s)))"

fun checkConnections :: "dmEnv \<Rightarrow> peerStatus list \<Rightarrow> hopType list \<Rightarrow> dmState \<Rightarrow> dmState option" where
  "checkConnections env peers [] s = Some s"
| "checkConnections env peers (hop # hs) s = Option.bind
     (case m_connections s hop of Some (config, None) \<Rightarrow> awaitHandshake env hop config peers s | _ \<Rightarrow> Some s)
     (checkConnections env peers hs)"

definition checkHandshake :: "dmEnv \<Rightarrow> dmState \<Rightarrow> dmState option" where
  "checkHandshake env s = map_option
     (\<lambda>s. if list_ex (\<lambda>(config, date). date = None) (connectionList s) then s\<lparr>m_handshakeTimer := True\<rparr> else s)
     (checkConnections env (getPeerStatus env (dmLog s)) hops s)"

text \<open>The status: none for \<^verbatim>\<open>connected: false\<close>, otherwise the first connection with its date and its peer.\<close>

definition getStatus :: "dmEnv \<Rightarrow> dmState \<Rightarrow> (interfaceConfig \<times> int option \<times> peerStatus) option" where
  "getStatus env s = (case connectionList s of
       [] \<Rightarrow> None
     | (config, date) # rest \<Rightarrow>
         if \<not> interfaceExists env (dmLog s) then None
         else map_option (\<lambda>status. (config, date, status))
           (find (\<lambda>status. peerKeysMatch env (m_pubkey status) (m_serverPublicKey config)) (getPeerStatus env (dmLog s))))"

section \<open>Runs\<close>

text \<open>
  What reaches the daemon: requests of the client, the timer of the handshake, answers to look-ups with the generation they
  were started in, and addresses that the DNS observer learned. Every event comes with the world it meets.
\<close>

datatype dmEvent =
    Activate interfaceConfig
  | Deactivate
  | HandshakePoll
  | HostLookedUp int "qHostAddress list"
  | SplitTunnelHostResolved "string list"

fun dmStep :: "dmEnv \<Rightarrow> dmEvent \<Rightarrow> dmState \<Rightarrow> dmState option" where
  "dmStep env (Activate config) s = Some (snd (activate env config s))"
| "dmStep env Deactivate s = Some (snd (deactivate env True s))"
| "dmStep env HandshakePoll s =
     (if m_handshakeTimer s then checkHandshake env (s\<lparr>m_handshakeTimer := False\<rparr>) else Some s)"
| "dmStep env (HostLookedUp generation addrs) s = Some (onLookup env generation addrs s)"
| "dmStep env (SplitTunnelHostResolved ips) s = Some (onSplitTunnelHostResolved env ips s)"

fun dmRun :: "(dmEnv \<times> dmEvent) list \<Rightarrow> dmState \<Rightarrow> dmState option" where
  "dmRun [] s = Some s"
| "dmRun ((env, e) # es) s = Option.bind (dmStep env e s) (dmRun es)"

definition dmInitial :: dmState where
  "dmInitial = \<lparr>m_connections = (\<lambda>hop. None), m_excludedAddrSet = [], m_handshakeTimer = False,
     m_splitTunnelDnsResolveHosts = [], m_splitTunnelDnsRoutes = [], m_splitTunnelDnsGeneration = 0,
     m_splitTunnelDnsKillSwitchEnabled = False, dmLog = []\<rparr>"

lemma dmRun_append: "dmRun (es @ es') s = Option.bind (dmRun es s) (dmRun es')"
  by (induction es arbitrary: s) (auto split: Option.bind_splits)

section \<open>Invariants of the daemon\<close>

text \<open>The part of the state that the invariants below speak about, and the entries of the log that concern none of them.\<close>

definition dmCore :: "dmState \<Rightarrow> (ipAddress \<times> int) list \<times> int \<times> dmAct list" where
  "dmCore s = (m_excludedAddrSet s, m_splitTunnelDnsGeneration s, dmLog s)"

fun otherCall :: "dmCall \<Rightarrow> bool" where
  "otherCall (AddExclusionRoute r) = False"
| "otherCall (DeleteExclusionRoute r) = False"
| "otherCall _ = True"

fun plainAct :: "dmAct \<Rightarrow> bool" where
  "plainAct (DmCall c ok) = otherCall c"
| "plainAct (DmLookup host g) = False"
| "plainAct ActivationFailure = False"
| "plainAct _ = True"

text \<open>
  An invariant that the elementary steps keep is kept by every operation. The provider shows the elementary steps; the
  operations follow here once for all invariants.
\<close>

locale dm_invariant =
  fixes I :: "dmState \<Rightarrow> bool"
  assumes core: "I s \<Longrightarrow> dmCore s' = dmCore s \<Longrightarrow> I s'"
    and plain: "I s \<Longrightarrow> plainAct a \<Longrightarrow> I (dmNote a s)"
    and lookup: "I s \<Longrightarrow> I (dmNote (DmLookup host (m_splitTunnelDnsGeneration s)) s)"
    and generation: "I s \<Longrightarrow> I (s\<lparr>m_splitTunnelDnsGeneration := m_splitTunnelDnsGeneration s + 1\<rparr>)"
    and add: "I s \<Longrightarrow> I (snd (addExclusionRoute env route s))"
    and del: "I s \<Longrightarrow> I (snd (delExclusionRoute env route s))"
    and delAll: "I s \<Longrightarrow> I ((callAll env (map (DeleteExclusionRoute \<circ> fst) (m_excludedAddrSet s)) s)\<lparr>m_excludedAddrSet := []\<rparr>)"
begin

lemma fields:
  assumes "I s"
  shows "I (s\<lparr>m_connections := c\<rparr>)" "I (s\<lparr>m_handshakeTimer := t\<rparr>)" "I (s\<lparr>m_splitTunnelDnsResolveHosts := hs\<rparr>)"
    "I (s\<lparr>m_splitTunnelDnsRoutes := rs\<rparr>)" "I (s\<lparr>m_splitTunnelDnsKillSwitchEnabled := k\<rparr>)"
  using assms by (auto intro: core [OF assms] simp: dmCore_def)

lemma kept_fold: "I s \<Longrightarrow> (\<And>x s. I s \<Longrightarrow> I (f x s)) \<Longrightarrow> I (fold f xs s)"
  by (induction xs arbitrary: s) auto

lemma kept_call: "I s \<Longrightarrow> otherCall c \<Longrightarrow> I (snd (wgCall env c s))"
  by (simp add: wgCall_def Let_def plain)

lemma kept_callAll: "I s \<Longrightarrow> list_all otherCall cs \<Longrightarrow> I (callAll env cs s)"
  by (induction cs arbitrary: s) (auto simp: callAll_def kept_call)

lemma kept_ifOk: "I (snd r) \<Longrightarrow> (\<And>s. I s \<Longrightarrow> I (snd (f s))) \<Longrightarrow> I (snd (ifOk r f))"
  by (simp add: ifOk_def)

lemma kept_static: "I s \<Longrightarrow> I (refreshSplitTunnelStaticRoutes env as s)"
  unfolding refreshSplitTunnelStaticRoutes_def by (rule kept_fold) (auto simp: Let_def add)

lemma kept_clear: "I s \<Longrightarrow> I (clearSplitTunnelDnsRoutes env s)"
  unfolding clearSplitTunnelDnsRoutes_def by (rule fields, rule kept_fold) (auto simp: del)

lemma kept_configure: "I s \<Longrightarrow> configureSplitTunnelDnsRoutes env config s = Some s' \<Longrightarrow> I s'"
  by (auto simp: configureSplitTunnelDnsRoutes_def Let_def intro!: kept_call kept_clear fields
      dest: generation fields(5) [OF generation])

lemma kept_refresh: "I s \<Longrightarrow> I (refreshSplitTunnelDnsRoutes s)"
  unfolding refreshSplitTunnelDnsRoutes_def by (rule kept_fold) (auto simp: lookup)

lemma kept_routeResolvedIps: "I s \<Longrightarrow> I (snd (routeResolvedIps env ips rs s))"
proof (induction ips arbitrary: rs s)
  case (Cons ip ips)
  have "I (snd (addExclusionRoute env (ipAddressOfText (qtText env) ip) s))"
    by (rule add [OF Cons.prems])
  then show ?case
    using Cons by (auto simp: Let_def split_beta intro!: Cons.IH fields)
qed simp

lemma kept_resolved: "I s \<Longrightarrow> I (onSplitTunnelHostResolved env ips s)"
  using kept_routeResolvedIps [of s env ips "[]"]
  by (auto simp: onSplitTunnelHostResolved_def Let_def split_beta intro!: plain)

lemma kept_onLookup: "I s \<Longrightarrow> I (onLookup env g addrs s)"
  by (simp add: onLookup_def Let_def kept_resolved)

lemma kept_teardown:
  assumes "I s"
  shows "I ((callAll env (map (DeleteExclusionRoute \<circ> fst) (m_excludedAddrSet s)) s)
            \<lparr>m_excludedAddrSet := [], m_connections := c\<rparr>)"
  using fields(1) [OF delAll [OF assms]] .

lemma kept_new_generation:
  "I s \<Longrightarrow> I (s\<lparr>m_splitTunnelDnsKillSwitchEnabled := k, m_splitTunnelDnsGeneration := m_splitTunnelDnsGeneration s + 1\<rparr>)"
  by (rule core [OF generation]) (simp_all add: dmCore_def)

lemma kept_deactivate: "I s \<Longrightarrow> I (snd (deactivate env emit s))"
  unfolding deactivate_def Let_def
  by (rule kept_call kept_teardown kept_callAll fields kept_clear kept_new_generation)+
    (auto simp: list_all_iff split: prod.split intro: plain)

lemma kept_maybeUpdateResolvers: "I s \<Longrightarrow> I (snd (maybeUpdateResolvers env config s))"
  by (simp add: maybeUpdateResolvers_def Let_def kept_call)

lemma kept_updateRoutes: "I s \<Longrightarrow> I (snd (updateRoutes env ips s))"
  by (induction env ips s rule: updateRoutes.induct) (auto simp: ifOk_def kept_call)

lemma kept_switchServer: "I s \<Longrightarrow> I (snd (switchServer env config s))"
  by (auto simp: switchServer_def Let_def list_all_iff split: option.split
      intro!: kept_ifOk kept_call kept_static kept_callAll kept_fold del kept_updateRoutes fields)

lemma kept_connected: "I s \<Longrightarrow> I (snd (connected config s))"
  by (auto simp: connected_def intro!: core [of s] simp: dmCore_def)

lemma kept_activateFresh: "I s \<Longrightarrow> I (snd (activateFresh env config s))"
  unfolding activateFresh_def
  by (intro kept_ifOk) (auto intro!: kept_call kept_maybeUpdateResolvers kept_updateRoutes kept_connected)

lemma kept_shaken:
  assumes "I s" "configureSplitTunnelDnsRoutes env config
    (dmNote (DmConnected key) (s\<lparr>m_connections := (m_connections s)(hop := c)\<rparr>)) = Some s'"
  shows "I (refreshSplitTunnelDnsRoutes (refreshSplitTunnelStaticRoutes env as s'))"
  using assms(2) by (intro kept_refresh kept_static kept_configure [OF _ assms(2)] plain fields assms(1)) simp

lemma kept_activateSwitch: "I s \<Longrightarrow> I (snd (activateSwitch env config s))"
  unfolding activateSwitch_def
  by (intro kept_ifOk) (auto intro: kept_switchServer kept_call kept_maybeUpdateResolvers kept_connected)

lemma kept_awaitHandshake: "I s \<Longrightarrow> awaitHandshake env hop config peers s = Some s' \<Longrightarrow> I s'"
  by (induction peers arbitrary: s) (auto simp: Let_def split: if_splits option.splits dest: kept_shaken)

lemma kept_checkConnections: "I s \<Longrightarrow> checkConnections env peers hs s = Some s' \<Longrightarrow> I s'"
proof (induction hs arbitrary: s)
  case (Cons hop hs)
  then obtain t where "(case m_connections s hop of Some (config, None) \<Rightarrow> awaitHandshake env hop config peers s | _ \<Rightarrow> Some s) = Some t"
    and t: "checkConnections env peers hs t = Some s'"
    by (auto simp: bind_eq_Some_conv)
  then have "I t"
    using Cons.prems(1) by (auto split: option.splits dest: kept_awaitHandshake [rotated])
  then show ?case
    using t by (rule Cons.IH)
qed simp

lemma kept_checkHandshake: "I s \<Longrightarrow> checkHandshake env s = Some s' \<Longrightarrow> I s'"
  by (auto simp: checkHandshake_def split: if_splits dest: kept_checkConnections intro: fields)

end

text \<open>An invariant that also survives the announcement of a failure holds throughout a run.\<close>

locale dm_run_invariant = dm_invariant +
  assumes failure: "I s \<Longrightarrow> I (dmNote ActivationFailure s)"
begin

lemma kept_failureGuard: "I (snd r) \<Longrightarrow> I (snd (failureGuard r))"
  by (simp add: failureGuard_def failure)

lemma kept_activate: "I s \<Longrightarrow> I (snd (activate env config s))"
  unfolding activate_def
  by (intro kept_failureGuard)
    (simp add: kept_activateFresh kept_activateSwitch kept_ifOk kept_deactivate kept_failureGuard)

lemma kept_step: "I s \<Longrightarrow> dmStep env e s = Some s' \<Longrightarrow> I s'"
  by (cases e) (auto simp: kept_activate kept_deactivate kept_onLookup kept_resolved split: if_splits
      intro: kept_checkHandshake [OF fields(2)])

lemma kept_run: "I s \<Longrightarrow> dmRun es s = Some s' \<Longrightarrow> I s'"
proof (induction es arbitrary: s)
  case (Cons e es)
  then obtain env ev t where "dmStep env ev s = Some t" "dmRun es t = Some s'"
    by (cases e) (auto simp: bind_eq_Some_conv)
  then show ?case
    using Cons.IH kept_step [OF Cons.prems(1)] by blast
qed simp

end

section \<open>Exclusion routes are tracked\<close>

text \<open>The exclusion routes that were set and that the daemon has not asked to remove since. The daemon looks at the outcome
  of setting a route, not at that of removing it, so a removal that fails counts as asked for.\<close>

fun owedAfter :: "dmAct \<Rightarrow> ipAddress set \<Rightarrow> ipAddress set" where
  "owedAfter (DmCall (AddExclusionRoute r) ok) R = (if ok then insert r R else R)"
| "owedAfter (DmCall (DeleteExclusionRoute r) ok) R = R - {r}"
| "owedAfter _ R = R"

definition exclusionsOwed :: "dmAct list \<Rightarrow> ipAddress set" where
  "exclusionsOwed log = fold owedAfter log {}"

definition exclusionsTracked :: "dmState \<Rightarrow> bool" where
  "exclusionsTracked s \<longleftrightarrow> exclusionsOwed (dmLog s) = dom (map_of (m_excludedAddrSet s)) \<and>
     distinct (map fst (m_excludedAddrSet s)) \<and> (\<forall>(r, n) \<in> set (m_excludedAddrSet s). 1 \<le> n)"

lemma exclusionsOwed_snoc [simp]: "exclusionsOwed (log @ [a]) = owedAfter a (exclusionsOwed log)"
  by (simp add: exclusionsOwed_def)

lemma plain_owed: "plainAct a \<Longrightarrow> owedAfter a R = R"
  by (induction a R rule: owedAfter.induct) auto

lemma set_update: "set (AList.update k v al) \<subseteq> insert (k, v) (set al)"
  by (induction al) auto

lemma set_delete: "set (AList.delete k al) \<subseteq> set al"
  by (auto simp: AList.delete_eq)

lemma tracked_update:
  "exclusionsTracked s \<Longrightarrow> exclusionsOwed (dmLog s') = insert r (exclusionsOwed (dmLog s)) \<Longrightarrow> 1 \<le> n \<Longrightarrow>
   m_excludedAddrSet s' = AList.update r n (m_excludedAddrSet s) \<Longrightarrow> exclusionsTracked s'"
  using set_update [of r n "m_excludedAddrSet s"]
  by (auto simp: exclusionsTracked_def distinct_update update_conv)

lemma tracked_delete:
  "exclusionsTracked s \<Longrightarrow> exclusionsOwed (dmLog s') = exclusionsOwed (dmLog s) - {r} \<Longrightarrow>
   m_excludedAddrSet s' = AList.delete r (m_excludedAddrSet s) \<Longrightarrow> exclusionsTracked s'"
  using set_delete [of r "m_excludedAddrSet s"]
  by (auto simp: exclusionsTracked_def distinct_delete delete_conv split: if_splits dest: map_of_SomeD)

lemma tracked_same:
  "exclusionsTracked s \<Longrightarrow> exclusionsOwed (dmLog s') = exclusionsOwed (dmLog s) \<Longrightarrow>
   m_excludedAddrSet s' = m_excludedAddrSet s \<Longrightarrow> exclusionsTracked s'"
  by (simp add: exclusionsTracked_def)

lemma tracked_lookup:
  "exclusionsTracked s \<Longrightarrow> map_of (m_excludedAddrSet s) r = Some n \<Longrightarrow>
   insert r (exclusionsOwed (dmLog s)) = exclusionsOwed (dmLog s) \<and> 1 \<le> n"
  by (auto simp: exclusionsTracked_def dest: map_of_SomeD)

lemma tracked_add:
  assumes "exclusionsTracked s"
  shows "exclusionsTracked (snd (addExclusionRoute env route s))"
proof (cases "map_of (m_excludedAddrSet s) route")
  case None
  then show ?thesis
    by (cases "callOk env (dmLog s) (AddExclusionRoute route)")
      (simp_all add: addExclusionRoute_def ifOk_def wgCall_def Let_def dmNote_def
        tracked_update [OF assms, of _ route 1] tracked_same [OF assms])
next
  case (Some n)
  then show ?thesis
    using tracked_lookup [OF assms Some]
    by (simp add: addExclusionRoute_def tracked_update [OF assms, of _ route "n + 1"])
qed

lemma tracked_del:
  assumes "exclusionsTracked s"
  shows "exclusionsTracked (snd (delExclusionRoute env route s))"
proof (cases "\<exists>n > 1. map_of (m_excludedAddrSet s) route = Some n")
  case True
  then obtain n where n: "n > 1" "map_of (m_excludedAddrSet s) route = Some n"
    by blast
  then show ?thesis
    using tracked_lookup [OF assms n(2)]
    by (simp add: delExclusionRoute_def Let_def tracked_update [OF assms, of _ route "n - 1"])
next
  case False
  then show ?thesis
    by (auto simp: delExclusionRoute_def Let_def wgCall_def dmNote_def split: option.split
        intro!: tracked_delete [OF assms, of _ route])
qed

lemma owed_deletes:
  "exclusionsOwed (dmLog (callAll env (map (DeleteExclusionRoute \<circ> f) xs) s)) = exclusionsOwed (dmLog s) - f ` set xs"
  by (induction xs arbitrary: s) (auto simp: callAll_def wgCall_def Let_def dmNote_def)

interpretation tracked: dm_run_invariant exclusionsTracked
  apply unfold_locales
         apply (auto simp: exclusionsTracked_def dmCore_def)[1]
        apply (auto simp: exclusionsTracked_def dmNote_def plain_owed)[1]
       apply (auto simp: exclusionsTracked_def dmNote_def)[1]
      apply (auto simp: exclusionsTracked_def)[1]
     apply (rule tracked_add, assumption)
    apply (rule tracked_del, assumption)
   apply (auto simp: exclusionsTracked_def owed_deletes dom_map_of_conv_image_fst)[1]
  apply (auto simp: exclusionsTracked_def dmNote_def)[1]
  done

section \<open>Generations of look-ups\<close>

text \<open>No look-up in flight is newer than the current generation, and generations only grow.\<close>

definition lookupsBounded :: "dmState \<Rightarrow> bool" where
  "lookupsBounded s \<longleftrightarrow> (\<forall>host g. DmLookup host g \<in> set (dmLog s) \<longrightarrow> g \<le> m_splitTunnelDnsGeneration s)"

definition generationFrom :: "int \<Rightarrow> dmState \<Rightarrow> bool" where
  "generationFrom g s \<longleftrightarrow> g \<le> m_splitTunnelDnsGeneration s"

lemma generation_call [simp]: "m_splitTunnelDnsGeneration (snd (wgCall env c s)) = m_splitTunnelDnsGeneration s"
  by (simp add: wgCall_def Let_def dmNote_def)

lemma generation_callAll [simp]: "m_splitTunnelDnsGeneration (callAll env cs s) = m_splitTunnelDnsGeneration s"
  by (induction cs arbitrary: s) (auto simp: callAll_def)

lemma generation_add [simp]: "m_splitTunnelDnsGeneration (snd (addExclusionRoute env r s)) = m_splitTunnelDnsGeneration s"
  by (simp add: addExclusionRoute_def ifOk_def split: option.split)

lemma generation_del [simp]: "m_splitTunnelDnsGeneration (snd (delExclusionRoute env r s)) = m_splitTunnelDnsGeneration s"
  by (simp add: delExclusionRoute_def Let_def)

lemma log_call: "dmLog (snd (wgCall env c s)) = dmLog s @ [DmCall c (callOk env (dmLog s) c)]"
  by (simp add: wgCall_def Let_def dmNote_def)

lemma log_add: "\<exists>new. dmLog (snd (addExclusionRoute env r s)) = dmLog s @ new \<and> (\<forall>a \<in> set new. \<exists>c ok. a = DmCall c ok)"
  by (auto simp: addExclusionRoute_def ifOk_def log_call split: option.split)

lemma log_del: "\<exists>new. dmLog (snd (delExclusionRoute env r s)) = dmLog s @ new \<and> (\<forall>a \<in> set new. \<exists>c ok. a = DmCall c ok)"
  by (auto simp: delExclusionRoute_def Let_def log_call)

lemma log_callAll_calls: "\<exists>new. dmLog (callAll env cs s) = dmLog s @ new \<and> (\<forall>a \<in> set new. \<exists>c ok. a = DmCall c ok)"
proof (induction cs arbitrary: s)
  case (Cons c cs)
  obtain new where "dmLog (callAll env cs (snd (wgCall env c s))) = dmLog (snd (wgCall env c s)) @ new"
    "\<forall>a \<in> set new. \<exists>c ok. a = DmCall c ok"
    using Cons.IH by blast
  then show ?case
    by (intro exI [of _ "DmCall c (callOk env (dmLog s) c) # new"]) (auto simp: callAll_def log_call)
qed (simp add: callAll_def)

interpretation bounded: dm_run_invariant lookupsBounded
proof unfold_locales
  fix s s' assume "lookupsBounded s" "dmCore s' = dmCore s"
  then show "lookupsBounded s'"
    by (simp add: lookupsBounded_def dmCore_def)
next
  fix s a assume "lookupsBounded s" "plainAct a"
  then show "lookupsBounded (dmNote a s)"
    by (auto simp: lookupsBounded_def dmNote_def)
next
  fix s env r assume "lookupsBounded s"
  then show "lookupsBounded (snd (addExclusionRoute env r s))" "lookupsBounded (snd (delExclusionRoute env r s))"
    using log_add [of env r s] log_del [of env r s] by (fastforce simp: lookupsBounded_def)+
next
  fix s env assume "lookupsBounded s"
  then show "lookupsBounded ((callAll env (map (DeleteExclusionRoute \<circ> fst) (m_excludedAddrSet s)) s)\<lparr>m_excludedAddrSet := []\<rparr>)"
    using log_callAll_calls [of env "map (DeleteExclusionRoute \<circ> fst) (m_excludedAddrSet s)" s]
    by (fastforce simp: lookupsBounded_def)
qed (fastforce simp: lookupsBounded_def dmNote_def)+

interpretation growing: dm_run_invariant "generationFrom g" for g
  by unfold_locales (auto simp: generationFrom_def dmCore_def dmNote_def)

section \<open>Announced failures\<close>

definition quietSince :: "dmAct list \<Rightarrow> dmState \<Rightarrow> bool" where
  "quietSince log s \<longleftrightarrow> (\<exists>new. dmLog s = log @ new \<and> ActivationFailure \<notin> set new)"

lemma quietSince_refl: "quietSince (dmLog s) s"
  by (simp add: quietSince_def)

lemma quietSince_append:
  "quietSince log s \<Longrightarrow> dmLog s' = dmLog s @ new \<Longrightarrow> ActivationFailure \<notin> set new \<Longrightarrow> quietSince log s'"
  by (auto simp: quietSince_def)

interpretation quiet: dm_invariant "quietSince log" for log
proof unfold_locales
  fix s s' assume "quietSince log s" "dmCore s' = dmCore s"
  then show "quietSince log s'"
    by (simp add: quietSince_def dmCore_def)
next
  fix s a assume "quietSince log s" "plainAct a"
  then show "quietSince log (dmNote a s)"
    by (auto simp: dmNote_def intro!: quietSince_append [of log s _ "[a]"])
next
  fix s env r assume "quietSince log s"
  then show "quietSince log (snd (addExclusionRoute env r s))" "quietSince log (snd (delExclusionRoute env r s))"
    using log_add [of env r s] log_del [of env r s] by (fastforce intro: quietSince_append)+
next
  fix s env assume "quietSince log s"
  then show "quietSince log ((callAll env (map (DeleteExclusionRoute \<circ> fst) (m_excludedAddrSet s)) s)\<lparr>m_excludedAddrSet := []\<rparr>)"
    using log_callAll_calls [of env "map (DeleteExclusionRoute \<circ> fst) (m_excludedAddrSet s)" s]
    by (fastforce intro: quietSince_append)
qed (auto simp: quietSince_def dmNote_def)

lemma fst_ifOk [simp]: "fst (ifOk r f) \<longleftrightarrow> fst r \<and> fst (f (snd r))"
  by (simp add: ifOk_def)

lemma snd_ifOk: "snd (ifOk r f) = (if fst r then snd (f (snd r)) else snd r)"
  by (simp add: ifOk_def)

text \<open>A connection that was just set up: its handshake is awaited.\<close>

definition awaited :: "interfaceConfig \<Rightarrow> dmState \<Rightarrow> bool" where
  "awaited config s \<longleftrightarrow> m_connections s (m_hopType config) = Some (config, None) \<and> m_handshakeTimer s"

lemma connected_awaited: "awaited config (snd (connected config s))"
  by (simp add: awaited_def connected_def)

lemma fresh_awaited: "fst (activateFresh env config s) \<Longrightarrow> awaited config (snd (activateFresh env config s))"
  by (simp add: activateFresh_def snd_ifOk connected_awaited)

lemma switch_awaited: "fst (activateSwitch env config s) \<Longrightarrow> awaited config (snd (activateSwitch env config s))"
  by (simp add: activateSwitch_def snd_ifOk connected_awaited)

text \<open>What an attempt promises: success is quiet and leaves an awaited connection, and a failure of the guarded whole is announced.\<close>

definition attempted :: "dmAct list \<Rightarrow> interfaceConfig \<Rightarrow> bool \<times> dmState \<Rightarrow> bool" where
  "attempted log config r \<longleftrightarrow> (\<exists>new. dmLog (snd r) = log @ new) \<and>
     (fst r \<longrightarrow> quietSince log (snd r) \<and> awaited config (snd r))"

lemma attempted_guard:
  "attempted log config r \<Longrightarrow> attempted log config (failureGuard r) \<and>
     (\<not> fst (failureGuard r) \<longrightarrow> (\<exists>new. dmLog (snd (failureGuard r)) = log @ new @ [ActivationFailure]))"
  by (auto simp: attempted_def failureGuard_def dmNote_def)

lemma attempted_fresh: "quietSince log s \<Longrightarrow> attempted log config (activateFresh env config s)"
  using quiet.kept_activateFresh [of log s env config] fresh_awaited [of env config s]
  by (auto simp: attempted_def quietSince_def)

lemma attempted_switch: "quietSince log s \<Longrightarrow> attempted log config (activateSwitch env config s)"
  using quiet.kept_activateSwitch [of log s env config] switch_awaited [of env config s]
  by (auto simp: attempted_def quietSince_def)

lemma attempted_restart:
  assumes "quietSince log s"
  shows "attempted log config (ifOk (deactivate env False s) (\<lambda>s. failureGuard (activateFresh env config s)))"
proof -
  have d: "quietSince log (snd (deactivate env False s))"
    by (rule quiet.kept_deactivate [OF assms])
  then show ?thesis
    using attempted_guard [OF attempted_fresh [OF d, of config env]] d
    by (auto simp: ifOk_def) (auto simp: attempted_def quietSince_def)
qed

lemma callAll_fields [simp]:
  "m_splitTunnelDnsRoutes (callAll env cs s) = m_splitTunnelDnsRoutes s"
  "m_connections (callAll env cs s) = m_connections s"
  by (induction cs arbitrary: s) (auto simp: callAll_def wgCall_def Let_def dmNote_def)

lemma deactivate_result:
  "m_excludedAddrSet (snd (deactivate env emit s)) = []"
  "m_connections (snd (deactivate env emit s)) = (\<lambda>hop. None)"
  "m_splitTunnelDnsRoutes (snd (deactivate env emit s)) = []"
  by (simp_all add: deactivate_def Let_def wgCall_def dmNote_def clearSplitTunnelDnsRoutes_def)

lemma generation_clear [simp]:
  "m_splitTunnelDnsGeneration (clearSplitTunnelDnsRoutes env s) = m_splitTunnelDnsGeneration s"
proof -
  have "m_splitTunnelDnsGeneration (fold (\<lambda>route s. if map_of (m_excludedAddrSet s) route \<noteq> None
      then snd (delExclusionRoute env route s) else s) rs s) = m_splitTunnelDnsGeneration s" for rs s
    by (induction rs arbitrary: s) auto
  then show ?thesis
    by (simp add: clearSplitTunnelDnsRoutes_def)
qed

lemma generation_deactivate:
  "m_splitTunnelDnsGeneration (snd (deactivate env emit s)) = m_splitTunnelDnsGeneration s + 1"
  by (simp add: deactivate_def Let_def dmNote_def)

lemma reachable_tracked: "dmRun es dmInitial = Some s \<Longrightarrow> exclusionsTracked s"
  by (rule tracked.kept_run) (simp_all add: exclusionsTracked_def exclusionsOwed_def dmInitial_def)

lemma reachable_bounded: "dmRun es dmInitial = Some s \<Longrightarrow> lookupsBounded s"
  by (rule bounded.kept_run) (simp_all add: lookupsBounded_def dmInitial_def)

lemma tracked_owed:
  "exclusionsTracked s \<Longrightarrow> exclusionsOwed (dmLog s) = {route. \<exists>n \<ge> 1. map_of (m_excludedAddrSet s) route = Some n}"
  by (force simp: exclusionsTracked_def dest: map_of_SomeD)

section \<open>Properties\<close>

text \<open>C18. The result of a request to activate is what the client is told: a request that succeeds announces no failure and
  leaves its configuration as a connection whose handshake is awaited by the running timer; a request that fails has the
  announcement of the failure as its last action.\<close>

theorem activation_reported:
  assumes "activate env config s = (ok, s')"
  shows "\<exists>new. dmLog s' = dmLog s @ new \<and>
    (if ok then ActivationFailure \<notin> set new \<and> m_connections s' (m_hopType config) = Some (config, None) \<and> m_handshakeTimer s'
     else new \<noteq> [] \<and> last new = ActivationFailure)"
proof -
  have "attempted (dmLog s) config (if m_connections s (m_hopType config) = None then activateFresh env config s
      else if supportServerSwitching config s then activateSwitch env config s
      else ifOk (deactivate env False s) (\<lambda>s. failureGuard (activateFresh env config s)))"
    using quietSince_refl [of s] by (simp add: attempted_fresh attempted_switch attempted_restart)
  from attempted_guard [OF this] show ?thesis
    using assms by (auto simp: activate_def [symmetric] attempted_def quietSince_def awaited_def)
qed

text \<open>C17. In every run the exclusion routes that are set are those with a positive number of users, and deactivating asks for
  the removal of every one of them, those of resolved hosts included, and forgets all connections, so that
  the status is that nothing is connected.\<close>

theorem exclusions_removed:
  assumes "dmRun es dmInitial = Some s"
  shows "exclusionsOwed (dmLog s) = {route. \<exists>n \<ge> 1. map_of (m_excludedAddrSet s) route = Some n} \<and>
    exclusionsOwed (dmLog (snd (deactivate env emit s))) = {} \<and>
    m_connections (snd (deactivate env emit s)) = (\<lambda>hop. None) \<and>
    m_splitTunnelDnsRoutes (snd (deactivate env emit s)) = [] \<and> getStatus env' (snd (deactivate env emit s)) = None"
  using reachable_tracked [OF assms] tracked.kept_deactivate [OF reachable_tracked [OF assms], of env emit]
  by (auto simp: tracked_owed deactivate_result getStatus_def connectionList_def map_filter_def)

text \<open>C19. The answer to a look-up that was started before a deactivation changes nothing, whatever happened since.\<close>

theorem late_lookup_ignored:
  assumes "dmRun es dmInitial = Some s" "DmLookup host g \<in> set (dmLog s)"
    and "dmRun ((env, Deactivate) # es') s = Some s'"
  shows "onLookup env' g addrs s' = s'"
proof -
  have "g \<le> m_splitTunnelDnsGeneration s"
    using reachable_bounded [OF assms(1)] assms(2) by (auto simp: lookupsBounded_def)
  then have "generationFrom (g + 1) (snd (deactivate env True s))"
    by (simp add: generationFrom_def generation_deactivate)
  then have "generationFrom (g + 1) s'"
    using assms(3) by (auto intro: growing.kept_run)
  then show ?thesis
    by (simp add: onLookup_def generationFrom_def)
qed

section \<open>Examples\<close>

text \<open>A world in which every call succeeds and the peer of the server has shaken hands.\<close>

definition sampleEnv :: dmEnv where
  "sampleEnv = \<lparr>callOk = (\<lambda>log c. True), interfaceExists = (\<lambda>log. False),
     getPeerStatus = (\<lambda>log. [\<lparr>m_pubkey = ''k'', m_handshake = 5, m_txBytes = 0, m_rxBytes = 0\<rparr>]),
     fromBase64 = (\<lambda>key. replicate 32 1),
     qtText = \<lparr>readAddress = (\<lambda>t. \<lparr>addressText = t, hostProtocol = IPv4Protocol\<rparr>),
               parseSubnet = (\<lambda>t. (\<lparr>addressText = t, hostProtocol = IPv4Protocol\<rparr>, 8))\<rparr>\<rparr>"

definition sampleConfig :: "string list \<Rightarrow> string list \<Rightarrow> interfaceConfig" where
  "sampleConfig excluded rules = \<lparr>m_hopType = SingleHop, m_privateKey = ''p'', m_deviceIpv4Address = ''10.8.0.2'', m_deviceIpv6Address = [],
     m_serverIpv4Gateway = [], m_serverIpv6Gateway = [], m_serverPublicKey = ''k'', m_primaryDnsServer = ''1.1.1.1'',
     m_secondaryDnsServer = [], m_allowedIPAddressRanges = [], m_excludedAddresses = excluded,
     m_splitTunnelDnsRules = rules, m_killSwitchEnabled = True\<rparr>"

definition sampleRun :: "(dmEnv \<times> dmEvent) list" where
  "sampleRun = map (Pair sampleEnv)
     [Activate (sampleConfig [''1.2.3.4''] []), HandshakePoll, Activate (sampleConfig [''1.2.3.4''] []), HandshakePoll,
      Activate (sampleConfig [] []), HandshakePoll]"

definition sampleRoute :: ipAddress where
  "sampleRoute = ipAddressOfText (qtText sampleEnv) ''1.2.3.4''"

lemmas sample_eval =
  sampleEnv_def sampleConfig_def sampleRoute_def dmInitial_def Let_def activate_def activateFresh_def activateSwitch_def
  failureGuard_def ifOk_def wgCall_def dmNote_def connected_def maybeUpdateResolvers_def checkHandshake_def hops_def
  connectionList_def map_filter_def peerKeysMatch_def configureSplitTunnelDnsRoutes_def clearSplitTunnelDnsRoutes_def
  refreshSplitTunnelStaticRoutes_def refreshSplitTunnelDnsRoutes_def addExclusionRoute_def delExclusionRoute_def
  ipAddressOfText_def ipAddressOfHost_def supportServerSwitching_def switchServer_def callAll_def trimmed_def qisSpace_def
  removeDuplicates_def exclusionsOwed_def

lemma sample_run:
  "\<exists>s. dmRun sampleRun dmInitial = Some s \<and> connectionList s = [(sampleConfig [] [], Some 5)] \<and>
     sampleRoute \<in> exclusionsOwed (dmLog s)"
  by (simp add: sampleRun_def sample_eval)

theorem activation_reported_witness:
  "fst (activate sampleEnv (sampleConfig [] []) dmInitial) \<and>
   m_connections (snd (activate sampleEnv (sampleConfig [] []) dmInitial)) SingleHop = Some (sampleConfig [] [], None)"
proof -
  have ok: "fst (activate sampleEnv (sampleConfig [] []) dmInitial)"
    by (simp add: sample_eval)
  moreover have "m_hopType (sampleConfig [] []) = SingleHop"
    by (simp add: sampleConfig_def)
  ultimately show ?thesis
    using activation_reported [OF prod.collapse [symmetric], of sampleEnv "sampleConfig [] []" dmInitial] by auto
qed

theorem exclusions_removed_witness:
  "\<exists>s. dmRun sampleRun dmInitial = Some s \<and> sampleRoute \<in> exclusionsOwed (dmLog s) \<and>
     exclusionsOwed (dmLog (snd (deactivate sampleEnv True s))) = {}"
  using sample_run exclusions_removed [of sampleRun _ sampleEnv True] by blast

lemma sample_rule:
  "fromText ''ya.ru'' = Some (mkRule ExactHost ''ya.ru'' ''ya.ru'')"
  "isValid (mkRule ExactHost ''ya.ru'' ''ya.ru'')"
  by code_simp+

lemma sample_lookup:
  "\<exists>s. dmRun [(sampleEnv, Activate (sampleConfig [] [''ya.ru''])), (sampleEnv, HandshakePoll)] dmInitial = Some s \<and>
     DmLookup ''ya.ru'' 1 \<in> set (dmLog s)"
  by (simp add: sample_eval sample_rule) (simp add: mkRule_def)

theorem late_lookup_ignored_witness:
  "\<exists>s. DmLookup ''ya.ru'' 1 \<in> set (dmLog s) \<and>
     onLookup sampleEnv 1 [\<lparr>addressText = ''1.2.3.4'', hostProtocol = IPv4Protocol\<rparr>] (snd (deactivate sampleEnv True s)) =
       snd (deactivate sampleEnv True s)"
  using sample_lookup
    late_lookup_ignored [of "[(sampleEnv, Activate (sampleConfig [] [''ya.ru''])), (sampleEnv, HandshakePoll)]" _ "''ya.ru''" 1
      sampleEnv "[]" _ sampleEnv]
  by fastforce

text \<open>An exclusion route can outlive every configuration that asked for it: when a server with an excluded address is
  switched to one with the same address and then to one without, each followed by its handshake, the address is still
  routed past the tunnel although the only connection excludes nothing. The handshake counts a user of the address that
  the switch counted already.\<close>

theorem exclusion_outlives_switch:
  "\<exists>s. dmRun sampleRun dmInitial = Some s \<and> connectionList s = [(sampleConfig [] [], Some 5)] \<and>
     m_excludedAddresses (sampleConfig [] []) = [] \<and> sampleRoute \<in> exclusionsOwed (dmLog s)"
  using sample_run by (simp add: sampleConfig_def)

end
