(* ===== verification/Mac_Firewall.thy ===== *)
theory Mac_Firewall
  imports Prelude
begin

text \<open>
  \<^verbatim>\<open>client/platforms/macos/daemon/macosfirewall.cpp\<close> and the packet-filter rule files under
  \<^verbatim>\<open>deploy/data/macos/pf/\<close>.

  Every function of the class runs shell commands. A \<open>pfCmd\<close> value names the command, \<open>tableCommand\<close>
  gives the shell text of those that carry run-time data, and \<open>execute\<close> applies the effect on the
  filter. Which commands
  fail is a parameter (\<open>cmdFails\<close>) that may depend on every earlier command, so every theorem over an arbitrary
  environment holds whatever \<^verbatim>\<open>pfctl\<close> refuses; a command that fails has no effect. \<open>flushRecurses\<close> is the other parameter: whether flushing an anchor also clears its
  children. Translation (NAT) rules and other programs' rules are outside the model.
\<close>

section \<open>Commands and the filter state\<close>

datatype pfCmd =
    RemoveLegacyAnchor
  | FlushRoot
  | ReleaseToken
  | ReloadSystemRules
  | InsertNatAnchors
  | InsertFilterAnchor
  | AcquireToken
  | CheckEnabled
  | CheckRootLoaded
  | EnsureRootPriority
  | EnableAnchor string
  | DisableAnchor string
  | CheckAnchor string
  | ReplaceTable string string "string list"
  | KillTable string string

record pfEnv =
  cmdFails :: "pfCmd list \<Rightarrow> pfCmd \<Rightarrow> bool"   \<comment> \<open>given the commands before it\<close>
  flushRecurses :: bool
  serviceName :: string

record pfState =
  pfToken :: bool       \<comment> \<open>our token is stored and pf references it\<close>
  rootRef :: bool       \<comment> \<open>the main ruleset refers to the root anchor\<close>
  rootRules :: bool     \<comment> \<open>the root anchor holds its sub-anchors\<close>
  loaded :: "string set"
  tables :: "string \<times> string \<Rightarrow> string list option"
  issued :: "pfCmd list"   \<comment> \<open>every command given to the shell, oldest first\<close>

section \<open>The rule files\<close>

datatype action = Pass | Block
datatype proto = Tcp | Udp | OtherProto
datatype target = AnyDst | Net string | Table string

record pfRule =
  act :: action
  quick :: bool
  ifaces :: "string list"       \<comment> \<open>empty: every interface\<close>
  family6 :: "bool option"      \<comment> \<open>\<open>inet6\<close>, \<open>inet\<close> or neither\<close>
  protos :: "proto list"        \<comment> \<open>empty: every protocol\<close>
  fromPort :: "nat option"
  target :: target
  toPort :: "nat option"

definition rule0 :: pfRule where
  "rule0 = \<lparr>act = Pass, quick = False, ifaces = [], family6 = None, protos = [], fromPort = None,
     target = AnyDst, toPort = None\<rparr>"

definition utunInterfaces :: "string list" where
  "utunInterfaces = map (\<lambda>n. ''utun'' @ showNat n) [0..<31]"

definition lanips :: "string list" where
  "lanips = [''10.0.0.0/8'', ''169.254.0.0/16'', ''172.16.0.0/12'', ''192.168.0.0/16'', ''224.0.0.0/4'',
     ''255.255.255.255/32'', ''fc00::/7'', ''fe80::/10'', ''ff00::/8'']"

definition allowLoopbackConf :: "pfRule list" where
  "allowLoopbackConf = [rule0\<lparr>quick := True, ifaces := [''lo0'']\<rparr>]"

definition blockAllConf :: "pfRule list" where
  "blockAllConf = [rule0\<lparr>act := Block\<rparr>]"

definition allowNetsConf :: "pfRule list" where
  "allowNetsConf = [rule0\<lparr>target := Table ''allownets''\<rparr>]"

definition blockNetsConf :: "pfRule list" where
  "blockNetsConf = [rule0\<lparr>act := Block, target := Table ''blocknets''\<rparr>]"

definition allowVPNConf :: "pfRule list" where
  "allowVPNConf = [rule0\<lparr>ifaces := utunInterfaces\<rparr>]"

definition blockIPv6Conf :: "pfRule list" where
  "blockIPv6Conf = [rule0\<lparr>act := Block, family6 := Some True\<rparr>]"

definition allowDHCPConf :: "pfRule list" where
  "allowDHCPConf =
     [rule0\<lparr>family6 := Some False, protos := [Udp], fromPort := Some 68,
        target := Net ''255.255.255.255'', toPort := Some 67\<rparr>,
      rule0\<lparr>family6 := Some True, protos := [Udp], fromPort := Some 546,
        target := Net ''ff00::/8'', toPort := Some 547\<rparr>]"

definition allowLANConf :: "pfRule list" where
  "allowLANConf = [rule0\<lparr>target := Table ''lanips''\<rparr>]"

definition blockDNSConf :: "pfRule list" where
  "blockDNSConf =
     [rule0\<lparr>act := Block, protos := [Tcp, Udp], toPort := Some 53\<rparr>,
      rule0\<lparr>protos := [Tcp, Udp], target := Table ''dnsaddr'', toPort := Some 53\<rparr>]"

text \<open>The anchors of \<^verbatim>\<open>amn.conf\<close>, in order, and the file each is loaded from with the tables it
  declares. \<^verbatim>\<open>400.allowPIA\<close> has no file, \<^verbatim>\<open>150.allowExcludedApps\<close> has no rules, and nothing in the
  sources loads \<^verbatim>\<open>350.allowHnsd\<close>.\<close>

definition rootAnchors :: "string list" where
  "rootAnchors = [''000.allowLoopback'', ''100.blockAll'', ''110.allowNets'', ''120.blockNets'',
     ''150.allowExcludedApps'', ''200.allowVPN'', ''250.blockIPv6'', ''290.allowDHCP'', ''300.allowLAN'',
     ''310.blockDNS'', ''350.allowHnsd'', ''400.allowPIA'']"

definition ruleFile :: "string \<Rightarrow> (pfRule list \<times> (string \<times> string list) list) option" where
  "ruleFile a =
     (if a = ''000.allowLoopback'' then Some (allowLoopbackConf, [])
      else if a = ''100.blockAll'' then Some (blockAllConf, [])
      else if a = ''110.allowNets'' then Some (allowNetsConf, [(''allownets'', [])])
      else if a = ''120.blockNets'' then Some (blockNetsConf, [(''blocknets'', [])])
      else if a = ''200.allowVPN'' then Some (allowVPNConf, [])
      else if a = ''250.blockIPv6'' then Some (blockIPv6Conf, [])
      else if a = ''290.allowDHCP'' then Some (allowDHCPConf, [])
      else if a = ''300.allowLAN'' then Some (allowLANConf, [(''lanips'', lanips)])
      else if a = ''310.blockDNS'' then Some (blockDNSConf, [(''dnsaddr'', [])])
      else None)"

section \<open>Shell commands\<close>

definition kRootAnchor :: "pfEnv \<Rightarrow> string" where
  "kRootAnchor env = (if serviceName env = ''AmneziaVPN-service'' then ''amn'' else ''alzheimervpn'')"

definition isDefaultApplication :: "pfEnv \<Rightarrow> bool" where
  "isDefaultApplication env \<longleftrightarrow> serviceName env = ''AmneziaVPN-service''"

definition quoted :: "string \<Rightarrow> string" where
  "quoted s = CHR 0x27 # s @ [CHR 0x27]"

definition anchorArg :: "pfEnv \<Rightarrow> string \<Rightarrow> string" where
  "anchorArg env a = ''pfctl -q -a '' @ quoted (kRootAnchor env @ ''/'' @ a)"

text \<open>The text of the commands whose arguments vary at run time; the others are constants of the
  program once the service name is fixed.\<close>

fun tableCommand :: "pfEnv \<Rightarrow> pfCmd \<Rightarrow> string" where
  "tableCommand env (ReplaceTable a t xs) =
     anchorArg env a @ '' -t '' @ quoted t @ '' -T replace '' @ joinWith '' '' xs"
| "tableCommand env (KillTable a t) = anchorArg env a @ '' -t '' @ quoted t @ '' -T kill''"
| "tableCommand env _ = []"

definition loadAnchor :: "string \<Rightarrow> pfState \<Rightarrow> pfState" where
  "loadAnchor a st =
     (if a \<in> loaded st then st
      else case ruleFile a of
          None \<Rightarrow> st
        | Some (rs, ts) \<Rightarrow>
            if rs = [] then st
            else st\<lparr>loaded := insert a (loaded st),
                   tables := (\<lambda>(b, t). if b = a then map_of ts t else tables st (b, t))\<rparr>)"

definition unloadAnchor :: "string \<Rightarrow> pfState \<Rightarrow> pfState" where
  "unloadAnchor a st =
     (if a \<notin> loaded st then st
      else st\<lparr>loaded := loaded st - {a}, tables := (\<lambda>(b, t). if b = a then None else tables st (b, t))\<rparr>)"

fun effect :: "pfEnv \<Rightarrow> pfCmd \<Rightarrow> pfState \<Rightarrow> pfState" where
  "effect env FlushRoot st =
     (if flushRecurses env then st\<lparr>rootRules := False, loaded := {}, tables := (\<lambda>_. None)\<rparr>
      else st\<lparr>rootRules := False\<rparr>)"
| "effect env ReleaseToken st = st\<lparr>pfToken := False\<rparr>"
| "effect env ReloadSystemRules st = st\<lparr>rootRef := False\<rparr>"
| "effect env InsertFilterAnchor st = st\<lparr>rootRef := True, rootRules := True\<rparr>"
| "effect env AcquireToken st = st\<lparr>pfToken := True\<rparr>"
| "effect env EnsureRootPriority st = st\<lparr>rootRef := True\<rparr>"
| "effect env (EnableAnchor a) st = loadAnchor a st"
| "effect env (DisableAnchor a) st = unloadAnchor a st"
| "effect env (ReplaceTable a t xs) st = st\<lparr>tables := (tables st)((a, t) := Some xs)\<rparr>"
| "effect env (KillTable a t) st = st\<lparr>tables := (tables st)((a, t) := None)\<rparr>"
| "effect env _ st = st"

text \<open>The answer of the commands that ask; \<open>True\<close> is exit code 0.\<close>

fun query :: "pfCmd \<Rightarrow> pfState \<Rightarrow> bool" where
  "query CheckEnabled st \<longleftrightarrow> pfToken st"
| "query CheckRootLoaded st \<longleftrightarrow> rootRef st \<and> rootRules st"
| "query (CheckAnchor a) st \<longleftrightarrow> a \<in> loaded st"
| "query _ st \<longleftrightarrow> True"

definition execute :: "pfEnv \<Rightarrow> pfCmd \<Rightarrow> pfState \<Rightarrow> bool \<times> pfState" where
  "execute env c st =
     (let st1 = st\<lparr>issued := issued st @ [c]\<rparr> in
      if cmdFails env (issued st) c then (False, st1) else (query c st, effect env c st1))"

definition run :: "pfEnv \<Rightarrow> pfCmd \<Rightarrow> pfState \<Rightarrow> pfState" where
  "run env c st = snd (execute env c st)"

section \<open>The operations of the class\<close>

definition installRootAnchors :: "pfEnv \<Rightarrow> pfState \<Rightarrow> pfState" where
  "installRootAnchors env st = run env InsertFilterAnchor (run env InsertNatAnchors st)"

definition uninstall :: "pfEnv \<Rightarrow> pfState \<Rightarrow> pfState" where
  "uninstall env st =
     (let st = run env FlushRoot st; st = run env ReleaseToken st in
      if isDefaultApplication env then run env ReloadSystemRules st else st)"

definition install :: "pfEnv \<Rightarrow> pfState \<Rightarrow> pfState" where
  "install env st =
     (let st = run env RemoveLegacyAnchor st; st = uninstall env st; st = installRootAnchors env st
      in run env AcquireToken st)"

definition isPFEnabled :: "pfEnv \<Rightarrow> pfState \<Rightarrow> bool \<times> pfState" where
  "isPFEnabled env st = execute env CheckEnabled st"

definition isRootAnchorLoaded :: "pfEnv \<Rightarrow> pfState \<Rightarrow> bool \<times> pfState" where
  "isRootAnchorLoaded env st = execute env CheckRootLoaded st"

definition isInstalled :: "pfEnv \<Rightarrow> pfState \<Rightarrow> bool \<times> pfState" where
  "isInstalled env st =
     (case isPFEnabled env st of (on, st) \<Rightarrow> if on then isRootAnchorLoaded env st else (False, st))"

definition ensureRootAnchorPriority :: "pfEnv \<Rightarrow> pfState \<Rightarrow> pfState" where
  "ensureRootAnchorPriority env st = run env EnsureRootPriority st"

definition enableAnchor :: "pfEnv \<Rightarrow> string \<Rightarrow> pfState \<Rightarrow> pfState" where
  "enableAnchor env a st = run env (EnableAnchor a) st"

definition disableAnchor :: "pfEnv \<Rightarrow> string \<Rightarrow> pfState \<Rightarrow> pfState" where
  "disableAnchor env a st = run env (DisableAnchor a) st"

definition isAnchorEnabled :: "pfEnv \<Rightarrow> string \<Rightarrow> pfState \<Rightarrow> bool \<times> pfState" where
  "isAnchorEnabled env a st = execute env (CheckAnchor a) st"

definition setAnchorEnabled :: "pfEnv \<Rightarrow> string \<Rightarrow> bool \<Rightarrow> pfState \<Rightarrow> pfState" where
  "setAnchorEnabled env a enabled st = (if enabled then enableAnchor env a st else disableAnchor env a st)"

definition setAnchorTable :: "pfEnv \<Rightarrow> string \<Rightarrow> bool \<Rightarrow> string \<Rightarrow> string list \<Rightarrow> pfState \<Rightarrow> pfState" where
  "setAnchorTable env a enabled t items st =
     (if enabled then run env (ReplaceTable a t items) st else run env (KillTable a t) st)"

section \<open>Filtering of outgoing packets\<close>

record 'addr packet =
  pkIface :: string
  pkV6 :: bool
  pkProto :: proto
  pkSrcPort :: nat
  pkDst :: 'addr
  pkDstPort :: nat

text \<open>\<open>inNet\<close> is how pf reads an address or network written in a rule or a table: whether it covers
  the given address.\<close>

definition inTable :: "(string \<Rightarrow> 'addr \<Rightarrow> bool) \<Rightarrow> pfState \<Rightarrow> string \<Rightarrow> string \<Rightarrow> 'addr \<Rightarrow> bool" where
  "inTable inNet st a t d \<longleftrightarrow>
     (case tables st (a, t) of None \<Rightarrow> False | Some es \<Rightarrow> list_ex (\<lambda>e. inNet e d) es)"

definition ruleMatches :: "(string \<Rightarrow> 'addr \<Rightarrow> bool) \<Rightarrow> pfState \<Rightarrow> string \<Rightarrow> pfRule \<Rightarrow> 'addr packet \<Rightarrow> bool" where
  "ruleMatches inNet st a r p \<longleftrightarrow>
     (ifaces r = [] \<or> pkIface p \<in> set (ifaces r)) \<and>
     (case family6 r of None \<Rightarrow> True | Some b \<Rightarrow> pkV6 p = b) \<and>
     (protos r = [] \<or> pkProto p \<in> set (protos r)) \<and>
     (case fromPort r of None \<Rightarrow> True | Some n \<Rightarrow> pkSrcPort p = n) \<and>
     (case target r of AnyDst \<Rightarrow> True | Net s \<Rightarrow> inNet s (pkDst p) | Table t \<Rightarrow> inTable inNet st a t (pkDst p)) \<and>
     (case toPort r of None \<Rightarrow> True | Some n \<Rightarrow> pkDstPort p = n)"

definition anchorRules :: "pfState \<Rightarrow> string \<Rightarrow> (string \<times> pfRule) list" where
  "anchorRules st a =
     (if a \<in> loaded st then map (Pair a) (case ruleFile a of None \<Rightarrow> [] | Some (rs, _) \<Rightarrow> rs) else [])"

definition activeRules :: "pfState \<Rightarrow> (string \<times> pfRule) list" where
  "activeRules st = concat (map (anchorRules st) rootAnchors)"

text \<open>The last matching rule decides, unless a matching rule is quick.\<close>

fun evalRules :: "(string \<times> pfRule \<Rightarrow> bool) \<Rightarrow> (string \<times> pfRule) list \<Rightarrow> action \<Rightarrow> action" where
  "evalRules m [] acc = acc"
| "evalRules m (ar # ars) acc =
     (if m ar then (if quick (snd ar) then act (snd ar) else evalRules m ars (act (snd ar)))
      else evalRules m ars acc)"

definition filterOn :: "pfState \<Rightarrow> bool" where
  "filterOn st \<longleftrightarrow> pfToken st \<and> rootRef st \<and> rootRules st"

definition verdict :: "(string \<Rightarrow> 'addr \<Rightarrow> bool) \<Rightarrow> pfState \<Rightarrow> 'addr packet \<Rightarrow> action" where
  "verdict inNet st p =
     (if filterOn st then evalRules (\<lambda>(a, r). ruleMatches inNet st a r p) (activeRules st) Pass else Pass)"

section \<open>What the commands do to the filter\<close>

lemma ruleFile_nonempty: "ruleFile a = Some (rs, ts) \<Longrightarrow> rs \<noteq> []"
  by (auto simp: ruleFile_def allowLoopbackConf_def blockAllConf_def allowNetsConf_def blockNetsConf_def
      allowVPNConf_def blockIPv6Conf_def allowDHCPConf_def allowLANConf_def blockDNSConf_def
      split: if_splits)

lemma issued_effect [simp]: "issued (effect env c st) = issued st"
  by (cases c) (auto simp: loadAnchor_def unloadAnchor_def split: option.splits)

lemma issued_run [simp]: "issued (run env c st) = issued st @ [c]"
  by (simp add: run_def execute_def Let_def)

lemma issued_execute: "issued (snd (execute env c st)) = issued st @ [c]"
  using issued_run [of env c st] by (simp add: run_def)

lemma execute_check [simp]:
  "execute env (CheckAnchor a) st = (\<not> cmdFails env (issued st) (CheckAnchor a) \<and> a \<in> loaded st, st\<lparr>issued := issued st @ [CheckAnchor a]\<rparr>)"
  "execute env CheckEnabled st = (\<not> cmdFails env (issued st) CheckEnabled \<and> pfToken st, st\<lparr>issued := issued st @ [CheckEnabled]\<rparr>)"
  "execute env CheckRootLoaded st =
     (\<not> cmdFails env (issued st) CheckRootLoaded \<and> rootRef st \<and> rootRules st, st\<lparr>issued := issued st @ [CheckRootLoaded]\<rparr>)"
  by (auto simp: execute_def Let_def)

lemma loaded_setAnchorEnabled [simp]:
  "loaded (setAnchorEnabled env a e st) =
     (if e then (if cmdFails env (issued st) (EnableAnchor a) \<or> ruleFile a = None then loaded st else insert a (loaded st))
      else (if cmdFails env (issued st) (DisableAnchor a) then loaded st else loaded st - {a}))"
  by (auto simp: setAnchorEnabled_def enableAnchor_def disableAnchor_def run_def execute_def Let_def
      loadAnchor_def unloadAnchor_def dest: ruleFile_nonempty split: option.splits)

lemma loaded_setAnchorTable [simp]: "loaded (setAnchorTable env a e t xs st) = loaded st"
  by (simp add: setAnchorTable_def run_def execute_def Let_def)

lemma tables_setAnchorEnabled [simp]:
  "tables (setAnchorEnabled env a e st) (b, t) =
     (if b \<noteq> a then tables st (b, t)
      else if e then
        (if cmdFails env (issued st) (EnableAnchor a) \<or> a \<in> loaded st then tables st (a, t)
         else case ruleFile a of None \<Rightarrow> tables st (a, t) | Some (_, ts) \<Rightarrow> map_of ts t)
      else if cmdFails env (issued st) (DisableAnchor a) \<or> a \<notin> loaded st then tables st (a, t) else None)"
  by (auto simp: setAnchorEnabled_def enableAnchor_def disableAnchor_def run_def execute_def Let_def
      loadAnchor_def unloadAnchor_def dest: ruleFile_nonempty split: option.splits)

lemma tables_setAnchorTable [simp]:
  "tables (setAnchorTable env a e t xs st) =
     (if e then if cmdFails env (issued st) (ReplaceTable a t xs) then tables st else (tables st)((a, t) := Some xs)
      else if cmdFails env (issued st) (KillTable a t) then tables st else (tables st)((a, t) := None))"
  by (simp add: setAnchorTable_def run_def execute_def Let_def)

lemma root_setAnchor [simp]:
  "filterOn (setAnchorEnabled env a e st) = filterOn st"
  "filterOn (setAnchorTable env a e t xs st) = filterOn st"
  by (auto simp: filterOn_def setAnchorEnabled_def setAnchorTable_def enableAnchor_def disableAnchor_def
      run_def execute_def Let_def loadAnchor_def unloadAnchor_def split: option.splits)

lemma issued_setAnchor [simp]:
  "issued (setAnchorEnabled env a e st) = issued st @ [if e then EnableAnchor a else DisableAnchor a]"
  "issued (setAnchorTable env a e t xs st) = issued st @ [if e then ReplaceTable a t xs else KillTable a t]"
  by (auto simp: setAnchorEnabled_def setAnchorTable_def enableAnchor_def disableAnchor_def)

lemma filterOn_issued [simp]: "filterOn (st\<lparr>issued := xs\<rparr>) = filterOn st"
  by (simp add: filterOn_def)

lemma isInstalled_sound: "fst (isInstalled env st) \<Longrightarrow> filterOn st"
  by (auto simp: isInstalled_def isPFEnabled_def isRootAnchorLoaded_def filterOn_def split: if_splits)

lemma isInstalled_state: "snd (isInstalled env st) = st\<lparr>issued := issued (snd (isInstalled env st))\<rparr>"
  by (simp add: isInstalled_def isPFEnabled_def isRootAnchorLoaded_def)

text \<open>An environment in which no command fails.\<close>

definition works :: "pfEnv \<Rightarrow> bool" where
  "works env \<longleftrightarrow> cmdFails env = (\<lambda>_ _. False)"

lemma isInstalled_works: "works env \<Longrightarrow> fst (isInstalled env st) = filterOn st"
  by (auto simp: works_def isInstalled_def isPFEnabled_def isRootAnchorLoaded_def filterOn_def)

lemma filterOn_install: "works env \<Longrightarrow> filterOn (install env st)"
  by (simp add: works_def install_def installRootAnchors_def uninstall_def run_def execute_def Let_def
      filterOn_def)

text \<open>The static table of the LAN anchor is there whenever the anchor is, and never holds anything else.\<close>

definition pfWf :: "pfState \<Rightarrow> bool" where
  "pfWf st \<longleftrightarrow> tables st (''300.allowLAN'', ''lanips'') \<in> {None, Some lanips} \<and>
     (''300.allowLAN'' \<in> loaded st \<longrightarrow> tables st (''300.allowLAN'', ''lanips'') = Some lanips)"

lemma pfWf_effect:
  assumes "pfWf st" and "\<And>t xs. c \<noteq> ReplaceTable ''300.allowLAN'' t xs" and "\<And>t. c \<noteq> KillTable ''300.allowLAN'' t"
  shows "pfWf (effect env c st)"
  using assms
  by (cases c) (auto simp: pfWf_def loadAnchor_def unloadAnchor_def ruleFile_def split: if_splits)

lemma pfWf_issued [simp]: "pfWf (st\<lparr>issued := xs\<rparr>) = pfWf st"
  by (simp add: pfWf_def)

lemma pfWf_run [wf_intros]:
  assumes "pfWf st" and "\<And>t xs. c \<noteq> ReplaceTable ''300.allowLAN'' t xs" and "\<And>t. c \<noteq> KillTable ''300.allowLAN'' t"
  shows "pfWf (run env c st)"
  using assms by (simp add: run_def execute_def Let_def pfWf_effect)

section \<open>Verdicts\<close>

lemma evalRules_block:
  assumes "\<And>ar. ar \<in> set ars \<Longrightarrow> m ar \<Longrightarrow> act (snd ar) = Block"
    and "acc = Block \<or> (\<exists>ar \<in> set ars. m ar)"
  shows "evalRules m ars acc = Block"
  using assms by (induction ars arbitrary: acc) auto

lemma evalRules_pass:
  assumes "\<And>ar. ar \<in> set ars \<Longrightarrow> m ar \<Longrightarrow> act (snd ar) = Pass" and "acc = Pass"
  shows "evalRules m ars acc = Pass"
  using assms by (induction ars arbitrary: acc) auto

lemma evalRules_append:
  assumes "\<And>ar. ar \<in> set xs \<Longrightarrow> m ar \<Longrightarrow> \<not> quick (snd ar)"
  shows "evalRules m (xs @ ys) acc = evalRules m ys (evalRules m xs acc)"
  using assms by (induction xs arbitrary: acc) auto

lemmas confs = allowLoopbackConf_def blockAllConf_def allowNetsConf_def blockNetsConf_def allowVPNConf_def
  blockIPv6Conf_def allowDHCPConf_def allowLANConf_def blockDNSConf_def

text \<open>The packets an anchor other than \<^verbatim>\<open>110.allowNets\<close> can exempt from a block.\<close>

definition isDns :: "'a packet \<Rightarrow> bool" where
  "isDns p \<longleftrightarrow> pkProto p \<in> {Tcp, Udp} \<and> pkDstPort p = 53"

definition isDhcp :: "(string \<Rightarrow> 'a \<Rightarrow> bool) \<Rightarrow> 'a packet \<Rightarrow> bool" where
  "isDhcp inNet p \<longleftrightarrow> pkProto p = Udp \<and>
     (\<not> pkV6 p \<and> pkSrcPort p = 68 \<and> pkDstPort p = 67 \<and> inNet ''255.255.255.255'' (pkDst p) \<or>
      pkV6 p \<and> pkSrcPort p = 546 \<and> pkDstPort p = 547 \<and> inNet ''ff00::/8'' (pkDst p))"

definition covers :: "(string \<Rightarrow> 'a \<Rightarrow> bool) \<Rightarrow> string list \<Rightarrow> 'a \<Rightarrow> bool" where
  "covers inNet nets d \<longleftrightarrow> list_ex (\<lambda>n. inNet n d) nets"

lemma anchorRules_iff:
  "(a, r) \<in> set (anchorRules st b) \<longleftrightarrow>
     a = b \<and> a \<in> loaded st \<and> (\<exists>rs ts. ruleFile a = Some (rs, ts) \<and> r \<in> set rs)"
  unfolding anchorRules_def by (cases "ruleFile b") auto

lemma activeRules_iff:
  "(a, r) \<in> set (activeRules st) \<longleftrightarrow>
     a \<in> set rootAnchors \<and> a \<in> loaded st \<and> (\<exists>rs ts. ruleFile a = Some (rs, ts) \<and> r \<in> set rs)"
  unfolding activeRules_def by (simp add: anchorRules_iff)

lemma ruleFile_cases:
  assumes "ruleFile a = Some (rs, ts)"
  obtains "rs = allowLoopbackConf" | "rs = blockAllConf" | "a = ''110.allowNets''" "rs = allowNetsConf"
    | "rs = blockNetsConf" | "rs = allowVPNConf" | "rs = blockIPv6Conf" | "rs = allowDHCPConf"
    | "a = ''300.allowLAN''" "rs = allowLANConf" | "a = ''310.blockDNS''" "rs = blockDNSConf"
  using assms unfolding ruleFile_def by (simp split: if_splits)

text \<open>Whatever anchors are loaded, a packet that passes a block was exempted for one of these
  reasons.\<close>

definition exempt :: "(string \<Rightarrow> 'a \<Rightarrow> bool) \<Rightarrow> pfState \<Rightarrow> 'a packet \<Rightarrow> bool" where
  "exempt inNet st p \<longleftrightarrow> pkIface p = ''lo0'' \<or> pkIface p \<in> set utunInterfaces \<or> isDhcp inNet p \<or>
     inTable inNet st ''110.allowNets'' ''allownets'' (pkDst p) \<or>
     inTable inNet st ''300.allowLAN'' ''lanips'' (pkDst p) \<or>
     isDns p \<and> inTable inNet st ''310.blockDNS'' ''dnsaddr'' (pkDst p)"

lemma utun_nonempty [simp]: "utunInterfaces \<noteq> []"
  by (simp add: utunInterfaces_def)

definition passExempt :: "(string \<Rightarrow> 'a \<Rightarrow> bool) \<Rightarrow> pfState \<Rightarrow> 'a packet \<Rightarrow> string \<Rightarrow> pfRule list \<Rightarrow> bool" where
  "passExempt inNet st p a rs \<longleftrightarrow>
     list_all (\<lambda>r. ruleMatches inNet st a r p \<longrightarrow> act r = Pass \<longrightarrow> exempt inNet st p) rs"

lemma confs_passExempt:
  "passExempt inNet st p a allowLoopbackConf" "passExempt inNet st p a blockAllConf"
  "passExempt inNet st p ''110.allowNets'' allowNetsConf" "passExempt inNet st p a blockNetsConf"
  "passExempt inNet st p a allowVPNConf" "passExempt inNet st p a blockIPv6Conf"
  "passExempt inNet st p a allowDHCPConf" "passExempt inNet st p ''300.allowLAN'' allowLANConf"
  "passExempt inNet st p ''310.blockDNS'' blockDNSConf"
  unfolding passExempt_def exempt_def confs
  by (simp_all add: rule0_def ruleMatches_def isDns_def isDhcp_def)

lemma active_rule_exempt:
  assumes "(a, r) \<in> set (activeRules st)" and "ruleMatches inNet st a r p" and "\<not> exempt inNet st p"
  shows "act r = Block"
proof -
  obtain rs ts where rs: "ruleFile a = Some (rs, ts)" "r \<in> set rs"
    using assms(1) by (auto simp: activeRules_iff)
  from rs(1) have "passExempt inNet st p a rs"
    by (cases rule: ruleFile_cases) (simp_all add: confs_passExempt)
  then have "act r \<noteq> Pass" using rs(2) assms(2,3) by (auto simp: passExempt_def list_all_iff)
  then show ?thesis by (cases "act r") auto
qed

lemma verdict_block:
  assumes "filterOn st" and "''100.blockAll'' \<in> loaded st" and "\<not> exempt inNet st p"
  shows "verdict inNet st p = Block"
proof -
  have "(''100.blockAll'', rule0\<lparr>act := Block\<rparr>) \<in> set (activeRules st)"
    using assms(2) by (auto simp: activeRules_iff rootAnchors_def ruleFile_def blockAllConf_def)
  moreover have "ruleMatches inNet st ''100.blockAll'' (rule0\<lparr>act := Block\<rparr>) p"
    by (simp add: ruleMatches_def rule0_def)
  ultimately show ?thesis
    using assms(1) active_rule_exempt [OF _ _ assms(3)]
    unfolding verdict_def by (auto intro!: evalRules_block)
qed

text \<open>The verdict as a decision table over the loaded anchors.\<close>

definition decide :: "(string \<Rightarrow> 'a \<Rightarrow> bool) \<Rightarrow> pfState \<Rightarrow> 'a packet \<Rightarrow> action" where
  "decide inNet st p =
     (let on = (\<lambda>a. a \<in> loaded st) in
      if on ''000.allowLoopback'' \<and> pkIface p = ''lo0'' then Pass
      else if on ''310.blockDNS'' \<and> isDns p then
        (if inTable inNet st ''310.blockDNS'' ''dnsaddr'' (pkDst p) then Pass else Block)
      else if on ''300.allowLAN'' \<and> inTable inNet st ''300.allowLAN'' ''lanips'' (pkDst p) then Pass
      else if on ''290.allowDHCP'' \<and> isDhcp inNet p then Pass
      else if on ''250.blockIPv6'' \<and> pkV6 p then Block
      else if on ''200.allowVPN'' \<and> pkIface p \<in> set utunInterfaces then Pass
      else if on ''120.blockNets'' \<and> inTable inNet st ''120.blockNets'' ''blocknets'' (pkDst p) then Block
      else if on ''110.allowNets'' \<and> inTable inNet st ''110.allowNets'' ''allownets'' (pkDst p) then Pass
      else if on ''100.blockAll'' then Block else Pass)"

lemma anchorRules_simps:
  "anchorRules st ''000.allowLoopback'' = (if ''000.allowLoopback'' \<in> loaded st then map (Pair ''000.allowLoopback'') allowLoopbackConf else [])"
  "anchorRules st ''100.blockAll'' = (if ''100.blockAll'' \<in> loaded st then map (Pair ''100.blockAll'') blockAllConf else [])"
  "anchorRules st ''110.allowNets'' = (if ''110.allowNets'' \<in> loaded st then map (Pair ''110.allowNets'') allowNetsConf else [])"
  "anchorRules st ''120.blockNets'' = (if ''120.blockNets'' \<in> loaded st then map (Pair ''120.blockNets'') blockNetsConf else [])"
  "anchorRules st ''200.allowVPN'' = (if ''200.allowVPN'' \<in> loaded st then map (Pair ''200.allowVPN'') allowVPNConf else [])"
  "anchorRules st ''250.blockIPv6'' = (if ''250.blockIPv6'' \<in> loaded st then map (Pair ''250.blockIPv6'') blockIPv6Conf else [])"
  "anchorRules st ''290.allowDHCP'' = (if ''290.allowDHCP'' \<in> loaded st then map (Pair ''290.allowDHCP'') allowDHCPConf else [])"
  "anchorRules st ''300.allowLAN'' = (if ''300.allowLAN'' \<in> loaded st then map (Pair ''300.allowLAN'') allowLANConf else [])"
  "anchorRules st ''310.blockDNS'' = (if ''310.blockDNS'' \<in> loaded st then map (Pair ''310.blockDNS'') blockDNSConf else [])"
  "anchorRules st ''150.allowExcludedApps'' = []" "anchorRules st ''350.allowHnsd'' = []"
  "anchorRules st ''400.allowPIA'' = []"
  by (simp_all add: anchorRules_def ruleFile_def)

lemma eval_confs:
  fixes st :: pfState and p :: "'a packet" and inNet :: "string \<Rightarrow> 'a \<Rightarrow> bool"
  defines "m \<equiv> \<lambda>(a, r). ruleMatches inNet st a r p"
  shows "evalRules m (map (Pair a) allowLoopbackConf @ ars) acc = (if pkIface p = ''lo0'' then Pass else evalRules m ars acc)"
    and "evalRules m (map (Pair a) blockAllConf @ ars) acc = evalRules m ars Block"
    and "evalRules m (map (Pair a) allowNetsConf @ ars) acc =
      evalRules m ars (if inTable inNet st a ''allownets'' (pkDst p) then Pass else acc)"
    and "evalRules m (map (Pair a) blockNetsConf @ ars) acc =
      evalRules m ars (if inTable inNet st a ''blocknets'' (pkDst p) then Block else acc)"
    and "evalRules m (map (Pair a) allowVPNConf @ ars) acc =
      evalRules m ars (if pkIface p \<in> set utunInterfaces then Pass else acc)"
    and "evalRules m (map (Pair a) blockIPv6Conf @ ars) acc = evalRules m ars (if pkV6 p then Block else acc)"
    and "evalRules m (map (Pair a) allowLANConf @ ars) acc =
      evalRules m ars (if inTable inNet st a ''lanips'' (pkDst p) then Pass else acc)"
  unfolding m_def confs by (simp_all add: rule0_def ruleMatches_def)

lemma eval_two_rules:
  fixes st :: pfState and p :: "'a packet" and inNet :: "string \<Rightarrow> 'a \<Rightarrow> bool"
  defines "m \<equiv> \<lambda>(a, r). ruleMatches inNet st a r p"
  shows "evalRules m (map (Pair a) allowDHCPConf @ ars) acc = evalRules m ars (if isDhcp inNet p then Pass else acc)"
    and "evalRules m (map (Pair a) blockDNSConf @ ars) acc =
      evalRules m ars (if isDns p then (if inTable inNet st a ''dnsaddr'' (pkDst p) then Pass else Block) else acc)"
proof -
  have "evalRules m (map (Pair a) allowDHCPConf @ ars) acc =
      (if ruleMatches inNet st a (allowDHCPConf ! 0) p \<or> ruleMatches inNet st a (allowDHCPConf ! 1) p
       then evalRules m ars Pass else evalRules m ars acc)"
    by (simp add: m_def allowDHCPConf_def rule0_def)
  moreover have "ruleMatches inNet st a (allowDHCPConf ! 0) p \<or> ruleMatches inNet st a (allowDHCPConf ! 1) p \<longleftrightarrow> isDhcp inNet p"
    by (auto simp: allowDHCPConf_def rule0_def ruleMatches_def isDhcp_def)
  ultimately show "evalRules m (map (Pair a) allowDHCPConf @ ars) acc = evalRules m ars (if isDhcp inNet p then Pass else acc)"
    by simp
  show "evalRules m (map (Pair a) blockDNSConf @ ars) acc =
      evalRules m ars (if isDns p then (if inTable inNet st a ''dnsaddr'' (pkDst p) then Pass else Block) else acc)"
    unfolding m_def confs isDns_def by (simp add: rule0_def ruleMatches_def)
qed

lemma eval_anchor:
  fixes st :: pfState and p :: "'a packet" and inNet :: "string \<Rightarrow> 'a \<Rightarrow> bool"
  defines "m \<equiv> \<lambda>(a, r). ruleMatches inNet st a r p"
  shows "evalRules m (anchorRules st ''000.allowLoopback'' @ ars) acc =
      (if ''000.allowLoopback'' \<in> loaded st \<and> pkIface p = ''lo0'' then Pass else evalRules m ars acc)"
    and "evalRules m (anchorRules st ''100.blockAll'' @ ars) acc =
      evalRules m ars (if ''100.blockAll'' \<in> loaded st then Block else acc)"
    and "evalRules m (anchorRules st ''110.allowNets'' @ ars) acc =
      evalRules m ars (if ''110.allowNets'' \<in> loaded st \<and> inTable inNet st ''110.allowNets'' ''allownets'' (pkDst p)
        then Pass else acc)"
    and "evalRules m (anchorRules st ''120.blockNets'' @ ars) acc =
      evalRules m ars (if ''120.blockNets'' \<in> loaded st \<and> inTable inNet st ''120.blockNets'' ''blocknets'' (pkDst p)
        then Block else acc)"
    and "evalRules m (anchorRules st ''200.allowVPN'' @ ars) acc =
      evalRules m ars (if ''200.allowVPN'' \<in> loaded st \<and> pkIface p \<in> set utunInterfaces then Pass else acc)"
    and "evalRules m (anchorRules st ''250.blockIPv6'' @ ars) acc =
      evalRules m ars (if ''250.blockIPv6'' \<in> loaded st \<and> pkV6 p then Block else acc)"
    and "evalRules m (anchorRules st ''290.allowDHCP'' @ ars) acc =
      evalRules m ars (if ''290.allowDHCP'' \<in> loaded st \<and> isDhcp inNet p then Pass else acc)"
    and "evalRules m (anchorRules st ''300.allowLAN'' @ ars) acc =
      evalRules m ars (if ''300.allowLAN'' \<in> loaded st \<and> inTable inNet st ''300.allowLAN'' ''lanips'' (pkDst p)
        then Pass else acc)"
    and "evalRules m (anchorRules st ''310.blockDNS'' @ ars) acc =
      evalRules m ars (if ''310.blockDNS'' \<in> loaded st \<and> isDns p
        then (if inTable inNet st ''310.blockDNS'' ''dnsaddr'' (pkDst p) then Pass else Block) else acc)"
  unfolding m_def anchorRules_simps by (simp_all add: eval_confs eval_two_rules)

lemma verdict_decide: "filterOn st \<Longrightarrow> verdict inNet st p = decide inNet st p"
  unfolding verdict_def activeRules_def rootAnchors_def decide_def Let_def list.map concat.simps
    eval_anchor eval_anchor(9) [where ars = "[]", unfolded append_Nil2] anchorRules_simps(10-12)
    append_Nil append_Nil2 evalRules.simps(1)
  by (simp only: if_True)

end
