(* ===== verification/Json.thy ===== *)
theory Json
  imports Prelude
begin

text \<open>
  Values of \<^verbatim>\<open>QJsonValue\<close> and the accessors the sources use. Numbers are integers: the sources under
  study store no fractions. An object is a \<^verbatim>\<open>QMap\<close>-like association list sorted by key. The accessors
  return Qt's default when the value has another kind or is missing.
\<close>

datatype json = JNull | JBool bool | JNum int | JStr string | JArr "json list" | JObj "(string \<times> json) list"

type_synonym jobj = "json qmap"

text \<open>\<^verbatim>\<open>QJsonObject::value\<close>: the undefined value of a missing key behaves like \<^const>\<open>JNull\<close> in every
  conversion.\<close>

definition jvalue :: "jobj \<Rightarrow> string \<Rightarrow> json" where
  "jvalue ob k = (case qvalue ob k of None \<Rightarrow> JNull | Some v \<Rightarrow> v)"

fun jToString :: "json \<Rightarrow> string" where
  "jToString (JStr s) = s"
| "jToString _ = []"

definition jIsString :: "json \<Rightarrow> bool" where
  "jIsString v \<longleftrightarrow> (case v of JStr _ \<Rightarrow> True | _ \<Rightarrow> False)"

text \<open>\<^verbatim>\<open>QJsonValue::toInt()\<close>: the default \<open>0\<close> unless the number fits an \<^verbatim>\<open>int\<close>.\<close>

fun jToInt :: "json \<Rightarrow> int" where
  "jToInt (JNum n) = (if - (2 ^ 31) \<le> n \<and> n < 2 ^ 31 then n else 0)"
| "jToInt _ = 0"

fun jToBool :: "json \<Rightarrow> bool" where
  "jToBool (JBool b) = b"
| "jToBool _ = False"

fun jToArray :: "json \<Rightarrow> json list" where
  "jToArray (JArr xs) = xs"
| "jToArray _ = []"

fun jToObject :: "json \<Rightarrow> jobj" where
  "jToObject (JObj ob) = ob"
| "jToObject _ = []"

lemma jvalue_qinsert [simp]: "jvalue (qinsert k v ob) k' = (if k' = k then v else jvalue ob k')"
  by (simp add: jvalue_def)

lemma jvalue_qremove [simp]: "jvalue (qremove k ob) k' = (if k' = k then JNull else jvalue ob k')"
  by (simp add: jvalue_def)

lemma jvalue_Nil [simp]: "jvalue [] k = JNull"
  by (simp add: jvalue_def)

end
