(* ===== verification/Kill_Switch.thy ===== *)
theory Kill_Switch
  imports Mac_Firewall Net_Formats Json
begin

text \<open>
  \<^verbatim>\<open>service/server/killswitch.cpp\<close> on macOS: the kill switch of the privileged service. Its state is the
  two range lists, the connection-protection flag, the persistent strict setting and the packet
  filter of \<^verbatim>\<open>Mac_Firewall\<close>. Every operation returns the code's boolean and the new state.
\<close>

section \<open>State and input checks\<close>

record ksState =
  m_allowedRanges :: "string list"
  m_alwaysBlockedSites :: "string list"
  m_connectionProtection :: bool
  strictSetting :: bool      \<comment> \<open>\<^verbatim>\<open>Conf/strictKillSwitchEnabled\<close>, default false\<close>
  pf :: pfState

text \<open>\<^verbatim>\<open>^(\d{1,3}\.){3}\d{1,3}(/\d{1,2})?$\<close>\<close>

definition ipOrCidrRegExp :: rexp where
  "ipOrCidrRegExp = seqs
     [Rep (Seq (Rep digits09 1 3) (Chr CHR ''.'')) 3 3, Rep digits09 1 3,
      opt (Seq (Chr CHR ''/'') (Rep digits09 1 2))]"

definition intIn :: "string \<Rightarrow> int \<Rightarrow> bool" where
  "intIn s hi \<longleftrightarrow> (case toInt s of None \<Rightarrow> False | Some n \<Rightarrow> \<not> (n < 0 \<or> n > hi))"

definition isValidIpOrCidr :: "string \<Rightarrow> bool" where
  "isValidIpOrCidr value \<longleftrightarrow>
     (if \<not> anchoredMatch ipOrCidrRegExp value then False
      else let ipParts = splitChar CHR ''.'' (splitChar CHR ''/'' value ! 0) in
        if \<not> list_all (\<lambda>part. intIn part 255) ipParts then False
        else if CHR ''/'' \<in> set value then intIn (splitChar CHR ''/'' value ! 1) 32
        else True)"

section \<open>Operations\<close>

definition isStrictKillSwitchEnabled :: "ksState \<Rightarrow> bool" where
  "isStrictKillSwitchEnabled ks = strictSetting ks"

definition ensureInstalled :: "pfEnv \<Rightarrow> pfState \<Rightarrow> pfState" where
  "ensureInstalled env st = (case isInstalled env st of (on, st) \<Rightarrow> if on then st else install env st)"

definition applyAlwaysBlockedSites :: "pfEnv \<Rightarrow> ksState \<Rightarrow> ksState" where
  "applyAlwaysBlockedSites env ks =
     (let st = ensureInstalled env (pf ks);
          st = ensureRootAnchorPriority env st;
          st = setAnchorEnabled env ''000.allowLoopback'' True st;
          st = setAnchorEnabled env ''100.blockAll'' False st;
          st = setAnchorEnabled env ''110.allowNets'' False st;
          st = setAnchorEnabled env ''120.blockNets'' True st;
          st = setAnchorTable env ''120.blockNets'' True ''blocknets'' (m_alwaysBlockedSites ks) st;
          st = setAnchorEnabled env ''200.allowVPN'' True st;
          st = setAnchorEnabled env ''250.blockIPv6'' False st;
          st = setAnchorEnabled env ''290.allowDHCP'' False st;
          st = setAnchorEnabled env ''300.allowLAN'' False st;
          st = setAnchorEnabled env ''310.blockDNS'' False st;
          st = setAnchorEnabled env ''400.allowPIA'' False st
      in ks\<lparr>pf := st, m_allowedRanges := []\<rparr>)"

definition strictAnchors :: "pfEnv \<Rightarrow> pfState \<Rightarrow> pfState" where
  "strictAnchors env st =
     (let st = setAnchorEnabled env ''000.allowLoopback'' True st;
          st = setAnchorEnabled env ''100.blockAll'' True st;
          st = setAnchorEnabled env ''110.allowNets'' False st;
          st = setAnchorEnabled env ''120.blockNets'' False st;
          st = setAnchorEnabled env ''200.allowVPN'' False st;
          st = setAnchorEnabled env ''250.blockIPv6'' True st;
          st = setAnchorEnabled env ''290.allowDHCP'' False st;
          st = setAnchorEnabled env ''300.allowLAN'' False st;
          st = setAnchorEnabled env ''310.blockDNS'' False st
      in setAnchorEnabled env ''400.allowPIA'' False st)"

definition disableKillSwitch :: "pfEnv \<Rightarrow> ksState \<Rightarrow> bool \<times> ksState" where
  "disableKillSwitch env ks =
     (if m_connectionProtection ks then (True, ks)
      else let ks =
          (if isStrictKillSwitchEnabled ks then ks\<lparr>pf := strictAnchors env (pf ks)\<rparr>
           else if m_alwaysBlockedSites ks \<noteq> [] then applyAlwaysBlockedSites env ks
           else ks\<lparr>pf := uninstall env (pf ks)\<rparr>)
        in (True, ks\<lparr>m_allowedRanges := []\<rparr>))"

definition disableAllTraffic :: "pfEnv \<Rightarrow> ksState \<Rightarrow> bool \<times> ksState" where
  "disableAllTraffic env ks =
     (let st = ensureInstalled env (pf ks);
          st = ensureRootAnchorPriority env st;
          st = setAnchorEnabled env ''100.blockAll'' True st;
          st = setAnchorEnabled env ''000.allowLoopback'' True st;
          st = setAnchorEnabled env ''250.blockIPv6'' True st
      in (True, ks\<lparr>pf := st, m_allowedRanges := []\<rparr>))"

definition ksInit :: "pfEnv \<Rightarrow> ksState \<Rightarrow> bool \<times> ksState" where
  "ksInit env ks = (if isStrictKillSwitchEnabled ks then disableAllTraffic env ks else (True, ks))"

definition refresh :: "pfEnv \<Rightarrow> bool \<Rightarrow> ksState \<Rightarrow> bool \<times> ksState" where
  "refresh env enabled ks =
     (let ks = ks\<lparr>strictSetting := enabled\<rparr> in
      if isStrictKillSwitchEnabled ks then disableAllTraffic env ks else disableKillSwitch env ks)"

text \<open>\<^verbatim>\<open>unchanged && (ranges.isEmpty() || isAnchorEnabled("120.blockNets"))\<close>, asking the filter only when
  the code does.\<close>

definition sitesInForce :: "pfEnv \<Rightarrow> string list \<Rightarrow> ksState \<Rightarrow> bool \<times> pfState" where
  "sitesInForce env ranges ks =
     (if ranges \<noteq> m_alwaysBlockedSites ks then (False, pf ks)
      else if ranges = [] then (True, pf ks)
      else isAnchorEnabled env ''120.blockNets'' (pf ks))"

definition setAlwaysBlockedSites :: "pfEnv \<Rightarrow> string list \<Rightarrow> ksState \<Rightarrow> bool \<times> ksState" where
  "setAlwaysBlockedSites env ranges ks =
     (if \<not> list_all isValidIpOrCidr ranges then (False, ks)
      else let ks' = ks\<lparr>m_alwaysBlockedSites := ranges\<rparr> in
        if isStrictKillSwitchEnabled ks' then (True, ks')
        else case sitesInForce env ranges ks of (skip, st) \<Rightarrow>
          let ks' = ks'\<lparr>pf := st\<rparr> in
          if skip then (True, ks')
          else if m_connectionProtection ks' then (True, ks') else disableKillSwitch env ks')"

definition resetAllowedRange :: "pfEnv \<Rightarrow> string list \<Rightarrow> ksState \<Rightarrow> bool \<times> ksState" where
  "resetAllowedRange env ranges ks =
     (if \<not> list_all isValidIpOrCidr ranges then (False, ks)
      else let st = setAnchorEnabled env ''110.allowNets'' True (pf ks);
               st = setAnchorTable env ''110.allowNets'' True ''allownets'' ranges st
           in (True, ks\<lparr>m_allowedRanges := ranges, pf := st\<rparr>))"

definition addAllowedRange :: "pfEnv \<Rightarrow> string list \<Rightarrow> ksState \<Rightarrow> bool \<times> ksState" where
  "addAllowedRange env ranges ks =
     (if \<not> list_all isValidIpOrCidr ranges then (False, ks)
      else let ranges' = fold (\<lambda>r acc. if r \<noteq> [] \<and> r \<notin> set acc then acc @ [r] else acc) ranges (m_allowedRanges ks)
           in resetAllowedRange env ranges' (ks\<lparr>m_allowedRanges := ranges'\<rparr>))"

definition removeAllowedRange :: "pfEnv \<Rightarrow> string list \<Rightarrow> ksState \<Rightarrow> bool \<times> ksState" where
  "removeAllowedRange env ranges ks =
     (let ranges' = fold removeAll ranges (m_allowedRanges ks)
      in resetAllowedRange env ranges' (ks\<lparr>m_allowedRanges := ranges'\<rparr>))"

text \<open>On macOS \<^verbatim>\<open>enablePeerTraffic\<close> does nothing.\<close>

definition enablePeerTraffic :: "jobj \<Rightarrow> ksState \<Rightarrow> bool \<times> ksState" where
  "enablePeerTraffic configStr ks = (True, ks)"

section \<open>Enabling the kill switch\<close>

definition amneziaDnsIp :: string where
  "amneziaDnsIp = ''172.29.172.254''"

definition dnsAddresses :: "jobj \<Rightarrow> string \<times> string" where
  "dnsAddresses cfg = (let dns1 = jToString (jvalue cfg ''dns1'') in
     (dns1, if containsStr dns1 amneziaDnsIp then [] else jToString (jvalue cfg ''dns2'')))"

definition allowedDnsServersOf :: "jobj \<Rightarrow> string list" where
  "allowedDnsServersOf cfg =
     filter isValidIpOrCidr (map jToString (takeWhile jIsString (jToArray (jvalue cfg ''allowedDnsServers''))))"

record ksPlan =
  blockAll :: bool
  allowNets :: bool
  blockNets :: bool
  allownets :: "string list"
  blocknets :: "string list"

definition ksPlanOf :: "(string \<Rightarrow> bool) \<Rightarrow> jobj \<Rightarrow> ksPlan" where
  "ksPlanOf isIPv4 cfg =
     (let splitTunnelType = jToInt (jvalue cfg ''splitTunnelType'');
          sites = filter (checkIpSubnetFormat isIPv4) (map jToString (jToArray (jvalue cfg ''splitTunnelSites'')));
          server = jToString (jvalue cfg ''vpnServer'')
      in if splitTunnelType = 0 then
           \<lparr>blockAll = True, allowNets = True, blockNets = False, allownets = [server], blocknets = []\<rparr>
         else if splitTunnelType = 1 then
           \<lparr>blockAll = False, allowNets = False, blockNets = True, allownets = [], blocknets = sites\<rparr>
         else if splitTunnelType = 2 then
           \<lparr>blockAll = True, allowNets = True, blockNets = False, allownets = server # sites, blocknets = []\<rparr>
         else \<lparr>blockAll = False, allowNets = False, blockNets = False, allownets = [], blocknets = []\<rparr>)"

definition applyPlan :: "pfEnv \<Rightarrow> ksPlan \<Rightarrow> string list \<Rightarrow> pfState \<Rightarrow> pfState" where
  "applyPlan env pl dnsServers st =
     (let st = ensureInstalled env st;
          st = ensureRootAnchorPriority env st;
          st = setAnchorEnabled env ''000.allowLoopback'' True st;
          st = setAnchorEnabled env ''100.blockAll'' (blockAll pl) st;
          st = setAnchorEnabled env ''110.allowNets'' (allowNets pl) st;
          st = setAnchorTable env ''110.allowNets'' (allowNets pl) ''allownets'' (allownets pl) st;
          st = setAnchorEnabled env ''120.blockNets'' (blockNets pl) st;
          st = setAnchorTable env ''120.blockNets'' (blockNets pl) ''blocknets'' (blocknets pl) st;
          st = setAnchorEnabled env ''200.allowVPN'' True st;
          st = setAnchorEnabled env ''250.blockIPv6'' True st;
          st = setAnchorEnabled env ''290.allowDHCP'' True st;
          st = setAnchorEnabled env ''300.allowLAN'' True st;
          st = setAnchorEnabled env ''310.blockDNS'' True st;
          st = setAnchorTable env ''310.blockDNS'' True ''dnsaddr'' dnsServers st
      in setAnchorEnabled env ''400.allowPIA'' True st)"

definition dnsServersOf :: "jobj \<Rightarrow> string list" where
  "dnsServersOf cfg = (let (dns1, dns2) = dnsAddresses cfg in
     (if dns1 \<noteq> [] then [dns1] else []) @ (if dns2 \<noteq> [] then [dns2] else []) @ allowedDnsServersOf cfg)"

definition enableKillSwitch :: "(string \<Rightarrow> bool) \<Rightarrow> pfEnv \<Rightarrow> jobj \<Rightarrow> int \<Rightarrow> ksState \<Rightarrow> bool \<times> ksState" where
  "enableKillSwitch isIPv4 env configStr vpnAdapterIndex ks =
     (let (dns1, dns2) = dnsAddresses configStr in
      if (dns1 \<noteq> [] \<and> \<not> isValidIpOrCidr dns1) \<or> (dns2 \<noteq> [] \<and> \<not> isValidIpOrCidr dns2) then (False, ks)
      else let pl = ksPlanOf isIPv4 configStr in
        if \<not> list_all isValidIpOrCidr (allownets pl) \<or> \<not> list_all isValidIpOrCidr (blocknets pl) then (False, ks)
        else (True, ks\<lparr>m_allowedRanges := allownets pl,
                       pf := applyPlan env pl (dnsServersOf configStr) (pf ks)\<rparr>))"

definition setConnectionProtection :: "(string \<Rightarrow> bool) \<Rightarrow> pfEnv \<Rightarrow> bool \<Rightarrow> jobj \<Rightarrow> ksState \<Rightarrow> bool \<times> ksState" where
  "setConnectionProtection isIPv4 env enabled config ks =
     (if \<not> enabled then disableKillSwitch env (ks\<lparr>m_connectionProtection := False\<rparr>)
      else case enableKillSwitch isIPv4 env config 0 ks of
          (False, ks) \<Rightarrow> (False, ks)
        | (True, ks) \<Rightarrow>
            let ks = ks\<lparr>m_connectionProtection := True\<rparr>;
                (installed, st) = isInstalled env (pf ks);
                (v6, st) = (if installed then isAnchorEnabled env ''250.blockIPv6'' st else (False, st));
                anchor = (if jToInt (jvalue config ''splitTunnelType'') = 1 then ''120.blockNets'' else ''100.blockAll'');
                (main, st) = (if v6 then isAnchorEnabled env anchor st else (False, st))
            in (main, ks\<lparr>pf := st\<rparr>))"

section \<open>Accepted ranges\<close>

text \<open>The characters of an accepted range: digits, dots, slashes, and the line feed that \<^verbatim>\<open>$\<close> lets
  through at the end.\<close>

definition rangeText :: "string \<Rightarrow> bool" where
  "rangeText s \<longleftrightarrow> list_all isCidrChar s \<or> (\<exists>u. s = u @ [CHR 0x0A] \<and> list_all isCidrChar u)"

lemma alphabet_ipOrCidr: "alphabet isCidrChar ipOrCidrRegExp"
  by (auto simp: ipOrCidrRegExp_def alphabet_seqs inRanges_def
      isCidrChar_def isDigit_of_char less_eq_char_def digits09_def simp flip: of_char_dot)

lemma valid_matches: "isValidIpOrCidr s \<Longrightarrow> anchoredMatch ipOrCidrRegExp s"
  unfolding isValidIpOrCidr_def by argo

lemma valid_rangeText: "isValidIpOrCidr s \<Longrightarrow> rangeText s"
  using anchoredMatch_alphabet [OF alphabet_ipOrCidr valid_matches] unfolding rangeText_def .

text \<open>Conversely every canonical address and network is accepted.\<close>

lemma lang_digits09: "lang digits09 = {[c] |c. isDigit c}"
  by (simp add: digits09_def inRanges_def isDigit_def)

lemma conc_digit: "s \<in> conc (lang digits09) B \<longleftrightarrow> (\<exists>c t. s = c # t \<and> isDigit c \<and> t \<in> B)"
proof
  assume "s \<in> conc (lang digits09) B"
  then show "\<exists>c t. s = c # t \<and> isDigit c \<and> t \<in> B" by (rule concE) (auto simp: lang_digits09)
next
  assume "\<exists>c t. s = c # t \<and> isDigit c \<and> t \<in> B"
  then obtain c t where "s = [c] @ t" "isDigit c" "t \<in> B" by auto
  then show "s \<in> conc (lang digits09) B" by (auto simp only: lang_digits09 intro!: concI)
qed

lemma lpow_digits: "s \<in> lpow (lang digits09) k \<longleftrightarrow> list_all isDigit s \<and> length s = k"
proof (induction k arbitrary: s)
  case (Suc k)
  then show ?case by (cases s) (auto simp: conc_digit)
qed auto

lemma showNat_length: "n < 1000 \<Longrightarrow> length (showNat n) \<le> 3"
  by (simp add: showNat.simps [of n] showNat.simps [of "n div 10"] showNat.simps [of "n div 10 div 10"])

lemma showNat_length2: "n < 100 \<Longrightarrow> length (showNat n) \<le> 2"
  by (auto simp: showNat.simps [of n] showNat.simps [of "n div 10"] div_less_iff_less_mult)

lemma showNat_digits3: "n < 1000 \<Longrightarrow> showNat n \<in> lang (Rep digits09 1 3)"
  using showNat_length [of n] showNat_digits [of n] by (auto simp: lpow_digits Suc_le_eq)

lemma plain_ipOrCidr: "plain ipOrCidrRegExp"
  by (simp add: ipOrCidrRegExp_def plain_seqs digits09_def)

lemma octetDots_lang:
  assumes "a < 1000" "b < 1000" "c < 1000"
  shows "showNat a @ ''.'' @ showNat b @ ''.'' @ showNat c @ ''.'' \<in> lang (Rep (Seq (Rep digits09 1 3) (Chr CHR ''.'')) 3 3)"
proof -
  have "showNat n @ ''.'' \<in> lang (Seq (Rep digits09 1 3) (Chr CHR ''.''))" if "n < 1000" for n
    unfolding lang.simps(4) lang_Chr using showNat_digits3 [OF that] by (intro concI) simp_all
  moreover have "u @ v @ w \<in> lang (Rep r 3 3)" if "u \<in> lang r" "v \<in> lang r" "w \<in> lang r" for u v w r
    using that by (auto simp: lpow_3)
  ultimately have "(showNat a @ ''.'') @ (showNat b @ ''.'') @ (showNat c @ ''.'') \<in> lang (Rep (Seq (Rep digits09 1 3) (Chr CHR ''.'')) 3 3)"
    using assms by blast
  then show ?thesis by (simp only: append_assoc)
qed

lemma dotted_eq_dots: "dotted a b c d = (showNat a @ ''.'' @ showNat b @ ''.'' @ showNat c @ ''.'') @ showNat d"
  by (simp add: dotted_def)

lemma matches_dotted:
  assumes "a < 256" "b < 256" "c < 256" "d < 256" and suffix: "w \<in> lang (opt (Seq (Chr CHR ''/'') (Rep digits09 1 2)))"
  shows "anchoredMatch ipOrCidrRegExp (dotted a b c d @ w)"
proof -
  have "(showNat a @ ''.'' @ showNat b @ ''.'' @ showNat c @ ''.'') @ showNat d @ w \<in> lang ipOrCidrRegExp"
    unfolding ipOrCidrRegExp_def seqs.simps lang.simps(4)
    using assms octetDots_lang [of a b c] showNat_digits3 [of d] by (intro concI) simp_all
  then show ?thesis by (simp add: anchoredMatch_lang [OF plain_ipOrCidr] dotted_eq_dots)
qed

lemma intIn_showNat: "n < 2 ^ 31 \<Longrightarrow> intIn (showNat n) hi \<longleftrightarrow> int n \<le> hi"
  by (auto simp: intIn_def toInt_showNat)

lemma split_dotted: "splitChar CHR ''.'' (dotted a b c d) = [showNat a, showNat b, showNat c, showNat d]"
  by (simp add: dotted_def splitChar_append_sep splitChar_absent)

lemma valid_dotted:
  assumes "a < 256" "b < 256" "c < 256" "d < 256"
  shows "isValidIpOrCidr (dotted a b c d)"
proof -
  have "[] \<in> lang (opt r)" for r unfolding lang_opt by simp
  from matches_dotted [OF assms this] assms show ?thesis
    by (simp add: isValidIpOrCidr_def splitChar_absent split_dotted intIn_showNat)
qed

lemma valid_cidr:
  assumes "a < 256" "b < 256" "c < 256" "d < 256" "p \<le> 32"
  shows "isValidIpOrCidr (dotted a b c d @ CHR ''/'' # showNat p)"
proof -
  have "CHR ''/'' # showNat p \<in> lang (opt (Seq (Chr CHR ''/'') (Rep digits09 1 2)))"
  proof -
    have "showNat p \<in> lang (Rep digits09 1 2)"
      using showNat_length2 [of p] showNat_digits [of p] assms(5) by (auto simp: lpow_digits Suc_le_eq)
    then have "[CHR ''/''] @ showNat p \<in> lang (Seq (Chr CHR ''/'') (Rep digits09 1 2))"
      unfolding lang.simps(4) lang_Chr by (intro concI) simp_all
    then show ?thesis unfolding lang_opt by simp
  qed
  from matches_dotted [OF assms(1-4) this] assms show ?thesis
    by (simp add: isValidIpOrCidr_def split_cidr split_dotted intIn_showNat)
qed

section \<open>Invariant\<close>

text \<open>Every range the switch stores or hands to the shell passed the check, and the filter's static
  tables are intact.\<close>

fun safeCmd :: "pfCmd \<Rightarrow> bool" where
  "safeCmd (ReplaceTable a t xs) \<longleftrightarrow> list_all isValidIpOrCidr xs"
| "safeCmd _ \<longleftrightarrow> True"

definition pfInv :: "pfState \<Rightarrow> bool" where
  "pfInv st \<longleftrightarrow> pfWf st \<and> list_all safeCmd (issued st)"

definition ksInv :: "ksState \<Rightarrow> bool" where
  "ksInv ks \<longleftrightarrow> list_all isValidIpOrCidr (m_allowedRanges ks) \<and>
     list_all isValidIpOrCidr (m_alwaysBlockedSites ks) \<and> pfInv (pf ks)"

fun lanTableCmd :: "pfCmd \<Rightarrow> bool" where
  "lanTableCmd (ReplaceTable a t xs) \<longleftrightarrow> a = ''300.allowLAN''"
| "lanTableCmd (KillTable a t) \<longleftrightarrow> a = ''300.allowLAN''"
| "lanTableCmd _ \<longleftrightarrow> False"

lemma pfInv_run: "pfInv st \<Longrightarrow> safeCmd c \<Longrightarrow> \<not> lanTableCmd c \<Longrightarrow> pfInv (run env c st)"
  unfolding pfInv_def by (auto intro!: pfWf_run)

lemma pfInv_setAnchorEnabled [inv_intros]: "pfInv st \<Longrightarrow> pfInv (setAnchorEnabled env a e st)"
  by (simp add: setAnchorEnabled_def enableAnchor_def disableAnchor_def pfInv_run)

lemma pfInv_setAnchorTable [inv_intros]:
  "pfInv st \<Longrightarrow> e \<Longrightarrow> list_all isValidIpOrCidr xs \<Longrightarrow> a \<noteq> ''300.allowLAN'' \<Longrightarrow>
     pfInv (setAnchorTable env a e t xs st)"
  "pfInv st \<Longrightarrow> \<not> e \<Longrightarrow> a \<noteq> ''300.allowLAN'' \<Longrightarrow> pfInv (setAnchorTable env a e t xs st)"
  by (simp_all add: setAnchorTable_def pfInv_run)

lemma pfInv_table:
  "pfInv st \<Longrightarrow> list_all isValidIpOrCidr xs \<Longrightarrow> a \<noteq> ''300.allowLAN'' \<Longrightarrow>
     pfInv (setAnchorTable env a e t xs st)"
  by (cases e) (simp_all add: pfInv_setAnchorTable)

lemma pfInv_uninstall [inv_intros]: "pfInv st \<Longrightarrow> pfInv (uninstall env st)"
  by (simp add: uninstall_def Let_def pfInv_run)

lemma pfInv_install [inv_intros]: "pfInv st \<Longrightarrow> pfInv (install env st)"
  by (simp add: install_def installRootAnchors_def Let_def pfInv_run pfInv_uninstall)

lemma pfInv_execute: "pfInv st \<Longrightarrow> safeCmd c \<Longrightarrow> \<not> lanTableCmd c \<Longrightarrow> pfInv (snd (execute env c st))"
  using pfInv_run by (simp add: run_def)

lemma pfInv_isInstalled: "pfInv st \<Longrightarrow> pfInv (snd (isInstalled env st))"
  using pfInv_execute [of st CheckEnabled env] pfInv_execute [of "snd (execute env CheckEnabled st)" CheckRootLoaded env]
  by (auto simp: isInstalled_def isPFEnabled_def isRootAnchorLoaded_def simp del: execute_check split: prod.splits)

lemma pfInv_ensure [inv_intros]:
  "pfInv st \<Longrightarrow> pfInv (ensureInstalled env st)"
  "pfInv st \<Longrightarrow> pfInv (ensureRootAnchorPriority env st)"
  using pfInv_isInstalled [of st env]
  by (auto simp: ensureInstalled_def ensureRootAnchorPriority_def pfInv_run pfInv_install split: prod.splits)

lemma pfInv_issued: "list_all safeCmd cs \<Longrightarrow> pfInv (st\<lparr>issued := issued st @ cs\<rparr>) = pfInv st"
  by (simp add: pfInv_def)

lemma ksInv_update [simp]:
  "ksInv (ks\<lparr>m_connectionProtection := b\<rparr>) = ksInv ks" "ksInv (ks\<lparr>strictSetting := b\<rparr>) = ksInv ks"
  by (simp_all add: ksInv_def)

lemma ksInv_disableKillSwitch [inv_intros]: "ksInv ks \<Longrightarrow> ksInv (snd (disableKillSwitch env ks))"
  by (simp add: disableKillSwitch_def applyAlwaysBlockedSites_def strictAnchors_def ksInv_def Let_def
      pfInv_ensure pfInv_setAnchorEnabled pfInv_table pfInv_uninstall)

lemma ksInv_disableAllTraffic [inv_intros]: "ksInv ks \<Longrightarrow> ksInv (snd (disableAllTraffic env ks))"
  by (simp add: disableAllTraffic_def ksInv_def Let_def pfInv_ensure pfInv_setAnchorEnabled)

lemma ksInv_resetAllowedRange [inv_intros]: "ksInv ks \<Longrightarrow> ksInv (snd (resetAllowedRange env ranges ks))"
  by (simp add: resetAllowedRange_def ksInv_def Let_def pfInv_table pfInv_setAnchorEnabled)

lemma valid_addFold:
  "list_all P acc \<Longrightarrow> list_all P rs \<Longrightarrow>
     list_all P (fold (\<lambda>r acc. if r \<noteq> [] \<and> r \<notin> set acc then acc @ [r] else acc) rs acc)"
  by (induction rs arbitrary: acc) auto

lemma fold_removeAll: "fold removeAll rs xs = filter (\<lambda>x. x \<notin> set rs) xs"
  by (induction rs arbitrary: xs) (auto simp: removeAll_filter_not_eq intro: filter_cong)

lemma ksInv_addAllowedRange [inv_intros]: "ksInv ks \<Longrightarrow> ksInv (snd (addAllowedRange env ranges ks))"
  unfolding addAllowedRange_def Let_def
  by (auto intro!: ksInv_resetAllowedRange) (simp add: ksInv_def valid_addFold)

lemma ksInv_removeAllowedRange [inv_intros]: "ksInv ks \<Longrightarrow> ksInv (snd (removeAllowedRange env ranges ks))"
  unfolding removeAllowedRange_def Let_def fold_removeAll
  by (rule ksInv_resetAllowedRange) (auto simp: ksInv_def list_all_iff)

lemma pfInv_sitesInForce: "pfInv (pf ks) \<Longrightarrow> pfInv (snd (sitesInForce env ranges ks))"
  by (simp add: sitesInForce_def isAnchorEnabled_def pfInv_issued)

lemma ksInv_setAlwaysBlockedSites [inv_intros]:
  assumes "ksInv ks"
  shows "ksInv (snd (setAlwaysBlockedSites env ranges ks))"
proof (cases "list_all isValidIpOrCidr ranges")
  case True
  obtain skip st where st: "sitesInForce env ranges ks = (skip, st)" by (meson surj_pair)
  with assms pfInv_sitesInForce [of ks env ranges] have "pfInv st" by (simp add: ksInv_def)
  with assms True have "ksInv (ks\<lparr>m_alwaysBlockedSites := ranges\<rparr>)" "ksInv (ks\<lparr>m_alwaysBlockedSites := ranges, pf := st\<rparr>)"
    by (simp_all add: ksInv_def)
  with True st show ?thesis
    by (simp add: setAlwaysBlockedSites_def Let_def ksInv_disableKillSwitch)
qed (simp add: setAlwaysBlockedSites_def assms)

lemma ksInv_enableKillSwitch [inv_intros]:
  assumes "ksInv ks"
  shows "ksInv (snd (enableKillSwitch isIPv4 env cfg n ks))"
proof -
  have "list_all isValidIpOrCidr (allowedDnsServersOf cfg)"
    by (auto simp: allowedDnsServersOf_def list_all_iff)
  with assms show ?thesis
    by (auto simp: enableKillSwitch_def dnsServersOf_def ksInv_def Let_def applyPlan_def split: prod.splits
        intro!: pfInv_ensure pfInv_setAnchorEnabled pfInv_table)
qed

lemma ksInv_setConnectionProtection [inv_intros]:
  assumes "ksInv ks"
  shows "ksInv (snd (setConnectionProtection isIPv4 env e cfg ks))"
proof -
  define ks' where "ks' = snd (enableKillSwitch isIPv4 env cfg 0 ks)"
  have inv: "ksInv ks'" unfolding ks'_def by (rule ksInv_enableKillSwitch [OF assms])
  from inv pfInv_isInstalled [of "pf ks'" env] have "pfInv (snd (isInstalled env (pf ks')))"
    by (simp add: ksInv_def)
  with inv assms show ?thesis
    unfolding setConnectionProtection_def
    by (auto simp: ks'_def isAnchorEnabled_def Let_def pfInv_issued ksInv_disableKillSwitch
          ksInv_def [of "ksState.pf_update _ _"]
        split: prod.splits bool.splits if_splits) (simp_all add: ksInv_def pfInv_issued)
qed

section \<open>The filter the kill switch sets up\<close>

lemma filterOn_ensureInstalled:
  assumes "works env"
  shows "filterOn (ensureInstalled env st)"
proof (cases "fst (isInstalled env st)")
  case True
  then have "filterOn st" by (rule isInstalled_sound)
  then have "filterOn (snd (isInstalled env st))" by (subst isInstalled_state) simp
  with True show ?thesis by (auto simp: ensureInstalled_def split: prod.splits)
qed (auto simp: ensureInstalled_def filterOn_install [OF assms] split: prod.splits)

lemma filterOn_priority: "filterOn st \<Longrightarrow> filterOn (ensureRootAnchorPriority env st)"
  by (auto simp: ensureRootAnchorPriority_def run_def execute_def Let_def filterOn_def)

lemma pfWf_setAnchorEnabled [wf_intros]: "pfWf st \<Longrightarrow> pfWf (setAnchorEnabled env a e st)"
  by (simp add: setAnchorEnabled_def enableAnchor_def disableAnchor_def pfWf_run)

lemma pfWf_setAnchorTable [wf_intros]:
  "pfWf st \<Longrightarrow> a \<noteq> ''300.allowLAN'' \<Longrightarrow> pfWf (setAnchorTable env a e t xs st)"
  by (simp add: setAnchorTable_def pfWf_run)

lemma pfWf_ensure [wf_intros]:
  "pfWf st \<Longrightarrow> pfWf (ensureInstalled env st)" "pfWf st \<Longrightarrow> pfWf (ensureRootAnchorPriority env st)"
proof -
  assume wf: "pfWf st"
  then have "pfWf (snd (isInstalled env st))" by (subst isInstalled_state) simp
  then show "pfWf (ensureInstalled env st)"
    by (auto simp: ensureInstalled_def install_def uninstall_def installRootAnchors_def Let_def pfWf_run
        split: prod.splits)
  from wf show "pfWf (ensureRootAnchorPriority env st)"
    by (simp add: ensureRootAnchorPriority_def pfWf_run)
qed

text \<open>The policy a plan stands for, as a decision table.\<close>

definition planVerdict :: "(string \<Rightarrow> 'a \<Rightarrow> bool) \<Rightarrow> ksPlan \<Rightarrow> string list \<Rightarrow> 'a packet \<Rightarrow> action" where
  "planVerdict inNet pl dnsServers p =
     (if pkIface p = ''lo0'' then Pass
      else if isDns p then (if covers inNet dnsServers (pkDst p) then Pass else Block)
      else if covers inNet lanips (pkDst p) then Pass
      else if isDhcp inNet p then Pass
      else if pkV6 p then Block
      else if pkIface p \<in> set utunInterfaces then Pass
      else if blockNets pl \<and> covers inNet (blocknets pl) (pkDst p) then Block
      else if allowNets pl \<and> covers inNet (allownets pl) (pkDst p) then Pass
      else if blockAll pl then Block else Pass)"

lemma inTable_Some: "tables st (a, t) = Some es \<Longrightarrow> inTable inNet st a t d = covers inNet es d"
  by (simp add: inTable_def covers_def)

lemma known_anchors [simp]:
  "ruleFile ''000.allowLoopback'' \<noteq> None" "ruleFile ''100.blockAll'' \<noteq> None" "ruleFile ''110.allowNets'' \<noteq> None"
  "ruleFile ''120.blockNets'' \<noteq> None" "ruleFile ''200.allowVPN'' \<noteq> None" "ruleFile ''250.blockIPv6'' \<noteq> None"
  "ruleFile ''290.allowDHCP'' \<noteq> None" "ruleFile ''300.allowLAN'' \<noteq> None" "ruleFile ''310.blockDNS'' \<noteq> None"
  "ruleFile ''400.allowPIA'' = None"
  by (simp_all add: ruleFile_def)

lemma applyPlan_state:
  assumes "works env" and "pfWf st"
  shows "filterOn (applyPlan env pl dns st)" and "pfWf (applyPlan env pl dns st)"
    and "''100.blockAll'' \<in> loaded (applyPlan env pl dns st) \<longleftrightarrow> blockAll pl"
    and "''110.allowNets'' \<in> loaded (applyPlan env pl dns st) \<longleftrightarrow> allowNets pl"
    and "''120.blockNets'' \<in> loaded (applyPlan env pl dns st) \<longleftrightarrow> blockNets pl"
    and "{''000.allowLoopback'', ''200.allowVPN'', ''250.blockIPv6'', ''290.allowDHCP'', ''300.allowLAN'', ''310.blockDNS''}
           \<subseteq> loaded (applyPlan env pl dns st)"
    and "tables (applyPlan env pl dns st) (''110.allowNets'', ''allownets'') = (if allowNets pl then Some (allownets pl) else None)"
    and "tables (applyPlan env pl dns st) (''120.blockNets'', ''blocknets'') = (if blockNets pl then Some (blocknets pl) else None)"
    and "tables (applyPlan env pl dns st) (''310.blockDNS'', ''dnsaddr'') = Some dns"
  using assms unfolding applyPlan_def Let_def
  by (simp_all add: works_def filterOn_ensureInstalled filterOn_priority wf_intros)

lemma applyPlan_verdict:
  assumes "works env" and "pfWf st"
  shows "verdict inNet (applyPlan env pl dns st) p = planVerdict inNet pl dns p"
proof -
  note state = applyPlan_state [OF assms, of pl dns]
  define st' where "st' = applyPlan env pl dns st"
  have on: "''000.allowLoopback'' \<in> loaded st'" "''200.allowVPN'' \<in> loaded st'" "''250.blockIPv6'' \<in> loaded st'"
      "''290.allowDHCP'' \<in> loaded st'" "''300.allowLAN'' \<in> loaded st'" "''310.blockDNS'' \<in> loaded st'"
    using state(6) unfolding st'_def by simp_all
  have lan: "inTable inNet st' ''300.allowLAN'' ''lanips'' (pkDst p) = covers inNet lanips (pkDst p)"
    using state(2) on(5) by (simp add: inTable_Some pfWf_def st'_def)
  have dns: "inTable inNet st' ''310.blockDNS'' ''dnsaddr'' (pkDst p) = covers inNet dns (pkDst p)"
    using state(9) by (simp add: inTable_Some st'_def)
  have nets: "''110.allowNets'' \<in> loaded st' \<and> inTable inNet st' ''110.allowNets'' ''allownets'' (pkDst p) \<longleftrightarrow>
        allowNets pl \<and> covers inNet (allownets pl) (pkDst p)"
      "''120.blockNets'' \<in> loaded st' \<and> inTable inNet st' ''120.blockNets'' ''blocknets'' (pkDst p) \<longleftrightarrow>
        blockNets pl \<and> covers inNet (blocknets pl) (pkDst p)"
    using state(4,5,7,8) by (auto simp: inTable_Some st'_def)
  have "verdict inNet st' p = decide inNet st' p"
    using state(1) by (simp add: verdict_decide st'_def)
  also have "\<dots> = planVerdict inNet pl dns p"
    unfolding decide_def planVerdict_def Let_def nets lan dns
    by (simp only: on state(3) [folded st'_def] simp_thms)
  finally show ?thesis by (simp add: st'_def)
qed

text \<open>When the code reports that a connection is protected, the filter really is in force.\<close>

lemma protection_confirmed:
  assumes "setConnectionProtection isIPv4 env True cfg ks = (True, ks')"
  shows "filterOn (pf ks') \<and> m_connectionProtection ks' \<and> ''250.blockIPv6'' \<in> loaded (pf ks') \<and>
    (if jToInt (jvalue cfg ''splitTunnelType'') = 1 then ''120.blockNets'' else ''100.blockAll'') \<in> loaded (pf ks')"
proof -
  obtain ok ks1 where en: "enableKillSwitch isIPv4 env cfg 0 ks = (ok, ks1)" by (meson surj_pair)
  obtain inst st where inst: "isInstalled env (pf ks1) = (inst, st)" by (meson surj_pair)
  have st: "st = (pf ks1)\<lparr>issued := issued st\<rparr>" using isInstalled_state [of env "pf ks1"] inst by simp
  have "filterOn (pf ks1)" if inst using isInstalled_sound [of env "pf ks1"] inst that by simp
  then have on: "filterOn st" if inst using that st by (metis filterOn_issued)
  show ?thesis
    using assms en inst on
    by (auto simp: setConnectionProtection_def isAnchorEnabled_def Let_def split: bool.splits if_splits)
qed

text \<open>Conversely a valid configuration is confirmed when the commands work.\<close>

lemma enable_success:
  assumes "fst (enableKillSwitch isIPv4 env cfg n ks)"
  shows "snd (enableKillSwitch isIPv4 env cfg n ks) =
    ks\<lparr>m_allowedRanges := allownets (ksPlanOf isIPv4 cfg),
       pf := applyPlan env (ksPlanOf isIPv4 cfg) (dnsServersOf cfg) (pf ks)\<rparr>"
  using assms unfolding enableKillSwitch_def Let_def by (auto split: prod.splits if_splits)

lemma isInstalled_loaded: "loaded (snd (isInstalled env st)) = loaded st"
  by (subst isInstalled_state) simp

lemma protection_reported:
  assumes "works env" and "ksInv ks" and "fst (enableKillSwitch isIPv4 env cfg 0 ks)"
    and "jToInt (jvalue cfg ''splitTunnelType'') \<in> {0, 1, 2}"
  shows "fst (setConnectionProtection isIPv4 env True cfg ks)"
proof -
  define pl where "pl = ksPlanOf isIPv4 cfg"
  define st where "st = applyPlan env pl (dnsServersOf cfg) (pf ks)"
  have "pfWf (pf ks)" using assms(2) by (simp add: ksInv_def pfInv_def)
  note state = applyPlan_state [OF assms(1) this, of pl "dnsServersOf cfg", folded st_def]
  have enable: "enableKillSwitch isIPv4 env cfg 0 ks = (True, ks\<lparr>m_allowedRanges := allownets pl, pf := st\<rparr>)"
    using assms(3) enable_success [OF assms(3)] by (simp add: prod_eq_iff pl_def st_def)
  obtain st' where inst: "isInstalled env st = (True, st')" and st': "loaded st' = loaded st"
    using isInstalled_works [OF assms(1), of st] isInstalled_loaded [of env st] state(1)
    by (metis prod.collapse)
  have "(if jToInt (jvalue cfg ''splitTunnelType'') = 1 then ''120.blockNets'' else ''100.blockAll'') \<in> loaded st"
    using assms(4) state(3,5) by (auto simp: pl_def ksPlanOf_def Let_def)
  moreover have "''250.blockIPv6'' \<in> loaded st" using state(6) by simp
  ultimately show ?thesis
    using assms(1) by (simp add: setConnectionProtection_def enable Let_def isAnchorEnabled_def inst st' works_def)
qed

text \<open>The list of allowed ranges after additions and removals.\<close>

lemma set_addFold:
  "set (fold (\<lambda>r acc. if r \<noteq> [] \<and> r \<notin> set acc then acc @ [r] else acc) rs acc) = set acc \<union> (set rs - {[]})"
  by (induction rs arbitrary: acc) auto

lemma addAllowedRange_ranges:
  assumes "list_all isValidIpOrCidr rs" and "ksInv ks"
  shows "set (m_allowedRanges (snd (addAllowedRange env rs ks))) = set (m_allowedRanges ks) \<union> (set rs - {[]})"
proof -
  let ?rs = "fold (\<lambda>r acc. if r \<noteq> [] \<and> r \<notin> set acc then acc @ [r] else acc) rs (m_allowedRanges ks)"
  have "list_all isValidIpOrCidr ?rs" using assms by (simp add: valid_addFold ksInv_def)
  with assms(1) show ?thesis
    by (simp add: addAllowedRange_def resetAllowedRange_def Let_def set_addFold)
qed

lemma valid_nonempty: "isValidIpOrCidr x \<Longrightarrow> x \<noteq> []"
proof
  assume "isValidIpOrCidr x" and "x = []"
  moreover have "\<not> anchoredMatch ipOrCidrRegExp []" by code_simp
  ultimately show False using valid_matches by blast
qed

lemma addAllowedRange_set:
  assumes "list_all isValidIpOrCidr rs" and "ksInv ks"
  shows "set rs \<subseteq> set (m_allowedRanges (snd (addAllowedRange env rs ks)))"
  using addAllowedRange_ranges [OF assms, of env] assms(1) valid_nonempty by (auto simp: list_all_iff)

lemma removeAllowedRange_ranges:
  assumes "ksInv ks"
  shows "m_allowedRanges (snd (removeAllowedRange env rs ks)) = filter (\<lambda>r. r \<notin> set rs) (m_allowedRanges ks)"
proof -
  have "list_all isValidIpOrCidr (filter (\<lambda>r. r \<notin> set rs) (m_allowedRanges ks))"
    using assms by (auto simp: ksInv_def list_all_iff)
  then show ?thesis by (simp add: removeAllowedRange_def resetAllowedRange_def Let_def fold_removeAll)
qed

section \<open>Requests from the client\<close>

text \<open>The requests of \<^verbatim>\<open>IpcServer\<close> that reach the kill switch, and \<^verbatim>\<open>removeAllowedRange\<close>, which the router
  calls. Each request runs in an environment of its own: what fails may differ from call to call.\<close>

datatype ksOp =
    Refresh bool
  | DisableAllTraffic
  | DisableKillSwitch
  | EnableKillSwitch jobj int
  | SetConnectionProtection bool jobj
  | SetAlwaysBlockedSites "string list"
  | ResetAllowedRange "string list"
  | AddAllowedRange "string list"
  | RemoveAllowedRange "string list"
  | EnablePeerTraffic jobj

fun ksStep :: "(string \<Rightarrow> bool) \<Rightarrow> pfEnv \<Rightarrow> ksOp \<Rightarrow> ksState \<Rightarrow> bool \<times> ksState" where
  "ksStep isIPv4 env (Refresh e) ks = refresh env e ks"
| "ksStep isIPv4 env DisableAllTraffic ks = disableAllTraffic env ks"
| "ksStep isIPv4 env DisableKillSwitch ks = disableKillSwitch env ks"
| "ksStep isIPv4 env (EnableKillSwitch cfg n) ks = enableKillSwitch isIPv4 env cfg n ks"
| "ksStep isIPv4 env (SetConnectionProtection e cfg) ks = setConnectionProtection isIPv4 env e cfg ks"
| "ksStep isIPv4 env (SetAlwaysBlockedSites rs) ks = setAlwaysBlockedSites env rs ks"
| "ksStep isIPv4 env (ResetAllowedRange rs) ks = resetAllowedRange env rs ks"
| "ksStep isIPv4 env (AddAllowedRange rs) ks = addAllowedRange env rs ks"
| "ksStep isIPv4 env (RemoveAllowedRange rs) ks = removeAllowedRange env rs ks"
| "ksStep isIPv4 env (EnablePeerTraffic cfg) ks = enablePeerTraffic cfg ks"

definition pfState0 :: pfState where
  "pfState0 = \<lparr>pfToken = False, rootRef = False, rootRules = False, loaded = {}, tables = (\<lambda>_. None), issued = []\<rparr>"

definition ksState0 :: "bool \<Rightarrow> ksState" where
  "ksState0 strict = \<lparr>m_allowedRanges = [], m_alwaysBlockedSites = [], m_connectionProtection = False,
     strictSetting = strict, pf = pfState0\<rparr>"

inductive ksReach :: "(string \<Rightarrow> bool) \<Rightarrow> ksState \<Rightarrow> bool" for isIPv4 where
  start: "ksReach isIPv4 (snd (ksInit env (ksState0 strict)))"
| request: "ksReach isIPv4 ks \<Longrightarrow> ksReach isIPv4 (snd (ksStep isIPv4 env op ks))"

fun ksRun :: "(string \<Rightarrow> bool) \<Rightarrow> (pfEnv \<times> ksOp) list \<Rightarrow> ksState \<Rightarrow> ksState" where
  "ksRun isIPv4 [] ks = ks"
| "ksRun isIPv4 ((env, op) # ops) ks = ksRun isIPv4 ops (snd (ksStep isIPv4 env op ks))"

lemma ksInv_step: "ksInv ks \<Longrightarrow> ksInv (snd (ksStep isIPv4 env op ks))"
  by (cases op) (simp_all add: inv_intros refresh_def Let_def enablePeerTraffic_def)

lemma ksReach_inv: "ksReach isIPv4 ks \<Longrightarrow> ksInv ks"
proof (induction rule: ksReach.induct)
  case (start env strict)
  have "ksInv (ksState0 strict)" by (simp add: ksInv_def ksState0_def pfState0_def pfInv_def pfWf_def)
  then show ?case by (simp add: ksInit_def ksInv_disableAllTraffic)
qed (rule ksInv_step)

lemma ksReach_run: "ksReach isIPv4 ks \<Longrightarrow> ksReach isIPv4 (ksRun isIPv4 ops ks)"
  by (induction isIPv4 ops ks rule: ksRun.induct) (auto intro: ksReach.request)

text \<open>The requests that leave a protected connection protected. Most do whatever the shell does. \<^verbatim>\<open>refresh\<close> to the
  strict mode, \<^verbatim>\<open>disableAllTraffic\<close> and a new plan touch the root anchors, so their commands have to work, and the new
  plan has to block everything it does not allow. \<^verbatim>\<open>setConnectionProtection(false)\<close> is the request that releases.\<close>

fun keepsProtection :: "(string \<Rightarrow> bool) \<Rightarrow> pfEnv \<times> ksOp \<Rightarrow> bool" where
  "keepsProtection isIPv4 (env, Refresh e) \<longleftrightarrow> \<not> e \<or> works env"
| "keepsProtection isIPv4 (env, DisableAllTraffic) \<longleftrightarrow> works env"
| "keepsProtection isIPv4 (env, EnableKillSwitch cfg n) \<longleftrightarrow> works env \<and> blockAll (ksPlanOf isIPv4 cfg)"
| "keepsProtection isIPv4 (env, SetConnectionProtection e cfg) \<longleftrightarrow> e \<and> works env \<and> blockAll (ksPlanOf isIPv4 cfg)"
| "keepsProtection isIPv4 (env, op) \<longleftrightarrow> True"

text \<open>The ranges and the DNS servers a request asks to open, and those that are open in a state.\<close>

fun namedRanges :: "(string \<Rightarrow> bool) \<Rightarrow> pfEnv \<times> ksOp \<Rightarrow> string set" where
  "namedRanges isIPv4 (env, EnableKillSwitch cfg n) = set (allownets (ksPlanOf isIPv4 cfg))"
| "namedRanges isIPv4 (env, SetConnectionProtection e cfg) = set (allownets (ksPlanOf isIPv4 cfg))"
| "namedRanges isIPv4 (env, ResetAllowedRange rs) = set rs"
| "namedRanges isIPv4 (env, AddAllowedRange rs) = set rs"
| "namedRanges isIPv4 (env, op) = {}"

fun namedDns :: "pfEnv \<times> ksOp \<Rightarrow> string set" where
  "namedDns (env, EnableKillSwitch cfg n) = set (dnsServersOf cfg)"
| "namedDns (env, SetConnectionProtection e cfg) = set (dnsServersOf cfg)"
| "namedDns (env, op) = {}"

definition entries :: "string \<Rightarrow> string \<Rightarrow> pfState \<Rightarrow> string set" where
  "entries a t st = (case tables st (a, t) of None \<Rightarrow> {} | Some es \<Rightarrow> set es)"

definition openRanges :: "ksState \<Rightarrow> string set" where
  "openRanges ks = set (m_allowedRanges ks) \<union> entries ''110.allowNets'' ''allownets'' (pf ks)"

definition openDns :: "ksState \<Rightarrow> string set" where
  "openDns ks = entries ''310.blockDNS'' ''dnsaddr'' (pf ks)"

text \<open>The traffic a closed filter may let out: loopback, tunnel interfaces, DHCP, the local network, the given ranges
  and DNS to the given servers.\<close>

definition openTraffic :: "(string \<Rightarrow> 'a \<Rightarrow> bool) \<Rightarrow> string set \<Rightarrow> string set \<Rightarrow> 'a packet \<Rightarrow> bool" where
  "openTraffic inNet nets dns p \<longleftrightarrow> pkIface p = ''lo0'' \<or> pkIface p \<in> set utunInterfaces \<or> isDhcp inNet p \<or>
     covers inNet lanips (pkDst p) \<or> (\<exists>n \<in> nets. inNet n (pkDst p)) \<or> isDns p \<and> (\<exists>d \<in> dns. inNet d (pkDst p))"

lemma inTable_entries: "inTable inNet st a t d \<longleftrightarrow> (\<exists>e \<in> entries a t st. inNet e d)"
  by (simp add: inTable_def entries_def list_ex_iff split: option.splits)

lemma exempt_open:
  assumes "pfWf (pf ks)" and "exempt inNet (pf ks) p"
  shows "openTraffic inNet (openRanges ks) (openDns ks) p"
proof -
  have "entries ''300.allowLAN'' ''lanips'' (pf ks) \<subseteq> set lanips"
    using assms(1) by (auto simp: entries_def pfWf_def)
  with assms(2) show ?thesis
    by (auto simp: exempt_def openTraffic_def inTable_entries openRanges_def openDns_def covers_def list_ex_iff)
qed

lemma openTraffic_mono:
  "openTraffic inNet nets dns p \<Longrightarrow> nets \<subseteq> nets' \<Longrightarrow> dns \<subseteq> dns' \<Longrightarrow> openTraffic inNet nets' dns' p"
  by (auto simp: openTraffic_def)

text \<open>A guarded state is protected by a closed filter, open to at most the given ranges and DNS servers.\<close>

definition guarded :: "string set \<Rightarrow> string set \<Rightarrow> ksState \<Rightarrow> bool" where
  "guarded nets dns ks \<longleftrightarrow> m_connectionProtection ks \<and> filterOn (pf ks) \<and> ''100.blockAll'' \<in> loaded (pf ks) \<and>
     openRanges ks \<subseteq> nets \<and> openDns ks \<subseteq> dns"

lemma entries_issued [simp]: "entries a t (st\<lparr>issued := xs\<rparr>) = entries a t st"
  by (simp add: entries_def)

lemma entries_setAnchorEnabled:
  "entries b t (setAnchorEnabled env a e st) \<subseteq> entries b t st \<union>
     (if b = a then (case ruleFile a of None \<Rightarrow> {} | Some (rs, ts) \<Rightarrow> (case map_of ts t of None \<Rightarrow> {} | Some es \<Rightarrow> set es)) else {})"
  by (auto simp: entries_def split: option.splits prod.splits if_splits)

lemma entries_fresh [simp]:
  "entries ''110.allowNets'' ''allownets'' (setAnchorEnabled env a e st) \<subseteq> entries ''110.allowNets'' ''allownets'' st"
  "entries ''310.blockDNS'' ''dnsaddr'' (setAnchorEnabled env a e st) \<subseteq> entries ''310.blockDNS'' ''dnsaddr'' st"
  using entries_setAnchorEnabled [of "''110.allowNets''" "''allownets''" env a e st]
    entries_setAnchorEnabled [of "''310.blockDNS''" "''dnsaddr''" env a e st]
  by (auto simp: ruleFile_def split: if_splits)

lemma entries_setAnchorTable:
  "entries b s (setAnchorTable env a True t xs st) \<subseteq> entries b s st \<union> (if (b, s) = (a, t) then set xs else {})"
  by (auto simp: entries_def split: if_splits option.splits)

lemma guarded_reset:
  assumes "guarded nets dns ks" and "set rs \<subseteq> nets"
  shows "guarded nets dns (snd (resetAllowedRange env rs ks))"
proof (cases "list_all isValidIpOrCidr rs")
  case True
  let ?st = "setAnchorEnabled env ''110.allowNets'' True (pf ks)"
  let ?st' = "setAnchorTable env ''110.allowNets'' True ''allownets'' rs ?st"
  have "entries ''110.allowNets'' ''allownets'' ?st' \<subseteq> entries ''110.allowNets'' ''allownets'' (pf ks) \<union> set rs"
    "entries ''310.blockDNS'' ''dnsaddr'' ?st' \<subseteq> entries ''310.blockDNS'' ''dnsaddr'' (pf ks)"
    using entries_setAnchorTable [of _ _ env "''110.allowNets''" "''allownets''" rs ?st] entries_fresh [of env "''110.allowNets''" True "pf ks"]
    by fastforce+
  then show ?thesis
    using assms True by (auto simp: guarded_def resetAllowedRange_def openRanges_def openDns_def Let_def)
qed (simp add: resetAllowedRange_def assms)

lemma guarded_fields:
  "guarded nets dns (ks\<lparr>strictSetting := b\<rparr>) = guarded nets dns ks"
  "guarded nets dns (ks\<lparr>m_alwaysBlockedSites := rs\<rparr>) = guarded nets dns ks"
  "guarded nets dns ks \<Longrightarrow> set rs \<subseteq> nets \<Longrightarrow> guarded nets dns (ks\<lparr>m_allowedRanges := rs\<rparr>)"
  by (auto simp: guarded_def openRanges_def openDns_def)

lemma ensureInstalled_on:
  assumes "works env" and "filterOn st"
  shows "\<exists>xs. ensureInstalled env st = st\<lparr>issued := xs\<rparr>"
  using isInstalled_works [OF assms(1), of st] isInstalled_state [of env st] assms(2)
  by (auto simp: ensureInstalled_def case_prod_beta)

lemma priority_state:
  "loaded (ensureRootAnchorPriority env st) = loaded st" "tables (ensureRootAnchorPriority env st) = tables st"
  by (simp_all add: ensureRootAnchorPriority_def run_def execute_def Let_def)

lemma guarded_disableAllTraffic:
  assumes "works env" and "guarded nets dns ks"
  shows "guarded nets dns (snd (disableAllTraffic env ks))"
proof -
  obtain xs where xs: "ensureInstalled env (pf ks) = (pf ks)\<lparr>issued := xs\<rparr>"
    using ensureInstalled_on [OF assms(1), of "pf ks"] assms(2) by (auto simp: guarded_def)
  have same: "entries a t (ensureRootAnchorPriority env st) = entries a t st" for a t st
    by (simp add: entries_def priority_state)
  show ?thesis
    using assms(2) entries_fresh [THEN subsetD]
    by (auto simp: guarded_def disableAllTraffic_def Let_def xs filterOn_priority priority_state openRanges_def openDns_def
        dest!: entries_fresh [THEN subsetD]) (auto simp: same)
qed

lemma guarded_applyPlan:
  assumes "works env" and "pfWf (pf ks)" and "blockAll pl" and "set (allownets pl) \<subseteq> nets" and "set servers \<subseteq> dns"
    and "m_connectionProtection ks"
  shows "guarded nets dns (ks\<lparr>m_allowedRanges := allownets pl, pf := (applyPlan env pl servers (pf ks))\<lparr>issued := xs\<rparr>\<rparr>)"
    and "guarded nets dns (ks\<lparr>m_allowedRanges := allownets pl, pf := applyPlan env pl servers (pf ks)\<rparr>)"
  using assms applyPlan_state [OF assms(1,2), of pl servers]
  by (auto simp: guarded_def openRanges_def openDns_def entries_def)

lemma protection_state:
  assumes "fst (enableKillSwitch isIPv4 env cfg 0 ks)"
  shows "\<exists>xs. snd (setConnectionProtection isIPv4 env True cfg ks) =
    ks\<lparr>m_allowedRanges := allownets (ksPlanOf isIPv4 cfg), m_connectionProtection := True,
       pf := (applyPlan env (ksPlanOf isIPv4 cfg) (dnsServersOf cfg) (pf ks))\<lparr>issued := xs\<rparr>\<rparr>"
proof -
  have enable: "enableKillSwitch isIPv4 env cfg 0 ks = (True, snd (enableKillSwitch isIPv4 env cfg 0 ks))"
    using assms by (simp add: prod_eq_iff)
  show ?thesis
    unfolding setConnectionProtection_def
    by (subst enable, unfold enable_success [OF assms])
      (auto simp: Let_def isAnchorEnabled_def isInstalled_def isPFEnabled_def isRootAnchorLoaded_def)
qed

lemma enable_failure:
  "\<not> fst (enableKillSwitch isIPv4 env cfg n ks) \<Longrightarrow> snd (enableKillSwitch isIPv4 env cfg n ks) = ks"
  unfolding enableKillSwitch_def Let_def by (auto split: prod.splits if_splits)

lemma guarded_enable:
  assumes "guarded nets dns ks" and "ksInv ks" and "works env" and "blockAll (ksPlanOf isIPv4 cfg)"
    and "set (allownets (ksPlanOf isIPv4 cfg)) \<subseteq> nets" and "set (dnsServersOf cfg) \<subseteq> dns"
  shows "guarded nets dns (snd (enableKillSwitch isIPv4 env cfg n ks))"
    and "guarded nets dns (snd (setConnectionProtection isIPv4 env True cfg ks))"
proof -
  have wf: "pfWf (pf ks)" "m_connectionProtection ks" using assms(1,2) by (simp_all add: ksInv_def pfInv_def guarded_def)
  note plan = guarded_applyPlan [OF assms(3) wf(1) assms(4,5,6) wf(2)]
  show "guarded nets dns (snd (enableKillSwitch isIPv4 env cfg n ks))"
    using plan(2) assms(1) enable_success [of isIPv4 env cfg n ks] enable_failure [of isIPv4 env cfg n ks]
    by (cases "fst (enableKillSwitch isIPv4 env cfg n ks)") simp_all
  have protected: "ks\<lparr>m_allowedRanges := rs, m_connectionProtection := True, pf := st\<rparr> = ks\<lparr>m_allowedRanges := rs, pf := st\<rparr>" for rs st
    using wf(2) by (cases ks) simp
  show "guarded nets dns (snd (setConnectionProtection isIPv4 env True cfg ks))"
  proof (cases "fst (enableKillSwitch isIPv4 env cfg 0 ks)")
    case True
    then show ?thesis using protection_state [OF True] plan(1) by (auto simp: protected)
  next
    case False
    then have "enableKillSwitch isIPv4 env cfg 0 ks = (False, ks)" using enable_failure by (metis prod.collapse)
    then show ?thesis using assms(1) by (simp add: setConnectionProtection_def)
  qed
qed

lemma guarded_blockedSites:
  "guarded nets dns ks \<Longrightarrow> guarded nets dns (snd (setAlwaysBlockedSites env rs ks))"
  by (auto simp: setAlwaysBlockedSites_def Let_def sitesInForce_def isAnchorEnabled_def guarded_def openRanges_def openDns_def)

lemma guarded_step:
  assumes "guarded nets dns ks" and "ksInv ks" and "keepsProtection isIPv4 (env, op)"
    and "namedRanges isIPv4 (env, op) \<subseteq> nets" and "namedDns (env, op) \<subseteq> dns"
  shows "guarded nets dns (snd (ksStep isIPv4 env op ks))"
proof (cases op)
  case (AddAllowedRange rs)
  have "set (fold (\<lambda>r acc. if r \<noteq> [] \<and> r \<notin> set acc then acc @ [r] else acc) rs (m_allowedRanges ks)) \<subseteq> nets"
    using assms(1,4) by (auto simp: set_addFold guarded_def openRanges_def AddAllowedRange)
  then show ?thesis
    using assms(1) by (simp add: AddAllowedRange addAllowedRange_def Let_def guarded_reset guarded_fields(3))
next
  case (RemoveAllowedRange rs)
  have "set (fold removeAll rs (m_allowedRanges ks)) \<subseteq> nets"
    using assms(1) by (auto simp: fold_removeAll guarded_def openRanges_def)
  then show ?thesis
    using assms(1) by (simp add: RemoveAllowedRange removeAllowedRange_def Let_def guarded_reset guarded_fields(3))
next
  case (Refresh e)
  have "disableKillSwitch env (ks\<lparr>strictSetting := b\<rparr>) = (True, ks\<lparr>strictSetting := b\<rparr>)" for b
    using assms(1) by (simp add: disableKillSwitch_def guarded_def)
  with Refresh assms(1,3) show ?thesis
    by (auto simp: refresh_def Let_def isStrictKillSwitchEnabled_def guarded_fields intro!: guarded_disableAllTraffic)
next
  case DisableKillSwitch
  with assms(1) show ?thesis by (simp add: disableKillSwitch_def guarded_def)
qed (use assms in \<open>simp_all add: guarded_disableAllTraffic guarded_enable guarded_reset guarded_blockedSites enablePeerTraffic_def\<close>)

lemma guarded_run:
  assumes "guarded nets dns ks" and "ksInv ks" and "list_all (keepsProtection isIPv4) ops"
    and "\<Union> (namedRanges isIPv4 ` set ops) \<subseteq> nets" and "\<Union> (namedDns ` set ops) \<subseteq> dns"
  shows "guarded nets dns (ksRun isIPv4 ops ks)"
  using assms
proof (induction isIPv4 ops ks rule: ksRun.induct)
  case (2 isIPv4 env op ops ks)
  have "guarded nets dns (snd (ksStep isIPv4 env op ks))"
    by (rule guarded_step) (use 2 in auto)
  then show ?case using 2 by (auto simp: ksInv_step)
qed simp

text \<open>In the strict mode the filter is on, as long as no command fails.\<close>

definition strictInv :: "ksState \<Rightarrow> bool" where
  "strictInv ks \<longleftrightarrow> (strictSetting ks \<longrightarrow> filterOn (pf ks))"

lemma filterOn_works:
  assumes "works env"
  shows "filterOn (pf (snd (disableAllTraffic env ks)))" and "filterOn (applyPlan env pl dns st)"
    and "strictInv ks \<Longrightarrow> strictInv (snd (disableKillSwitch env ks))"
  using assms
  by (auto simp: disableAllTraffic_def applyPlan_def disableKillSwitch_def strictInv_def strictAnchors_def Let_def
      filterOn_ensureInstalled filterOn_priority isStrictKillSwitchEnabled_def applyAlwaysBlockedSites_def)

lemma strictInv_reset [simp]: "strictInv (snd (resetAllowedRange env rs ks)) = strictInv ks"
  by (simp add: resetAllowedRange_def strictInv_def Let_def)

lemma strictInv_fields [simp]:
  "strictInv (ks\<lparr>m_allowedRanges := rs\<rparr>) = strictInv ks" "strictInv (ks\<lparr>m_alwaysBlockedSites := rs\<rparr>) = strictInv ks"
  "strictInv (ks\<lparr>m_connectionProtection := b\<rparr>) = strictInv ks"
  by (simp_all add: strictInv_def)

lemma strictInv_enable:
  assumes "works env" and "strictInv ks"
  shows "strictInv (snd (enableKillSwitch isIPv4 env cfg n ks))"
    and "strictInv (snd (setConnectionProtection isIPv4 env True cfg ks))"
proof -
  show enable: "strictInv (snd (enableKillSwitch isIPv4 env cfg n ks))" for n
    using assms filterOn_works(2) enable_success [of isIPv4 env cfg n ks] enable_failure [of isIPv4 env cfg n ks]
    by (cases "fst (enableKillSwitch isIPv4 env cfg n ks)") (simp_all add: strictInv_def)
  show "strictInv (snd (setConnectionProtection isIPv4 env True cfg ks))"
  proof (cases "fst (enableKillSwitch isIPv4 env cfg 0 ks)")
    case True
    then show ?thesis using protection_state [OF True] filterOn_works(2) [OF assms(1)] by (auto simp: strictInv_def)
  next
    case False
    then have "enableKillSwitch isIPv4 env cfg 0 ks = (False, ks)" using enable_failure by (metis prod.collapse)
    then show ?thesis using assms(2) by (simp add: setConnectionProtection_def)
  qed
qed

lemma strictInv_step:
  assumes "works env" and "strictInv ks"
  shows "strictInv (snd (ksStep isIPv4 env op ks))"
proof (cases op)
  case (SetAlwaysBlockedSites rs)
  have "strictInv (ks\<lparr>m_alwaysBlockedSites := rs, pf := (pf ks)\<lparr>issued := xs\<rparr>\<rparr>)" for xs
    using assms(2) by (simp add: strictInv_def)
  then show ?thesis
    using assms filterOn_works(3) [OF assms(1)]
    by (auto simp: SetAlwaysBlockedSites setAlwaysBlockedSites_def Let_def sitesInForce_def isAnchorEnabled_def)
next
  case (SetConnectionProtection e cfg)
  show ?thesis
  proof (cases e)
    case True
    with SetConnectionProtection assms show ?thesis by (simp add: strictInv_enable)
  next
    case False
    with SetConnectionProtection assms show ?thesis by (simp add: setConnectionProtection_def filterOn_works(3))
  qed
next
  case (Refresh e)
  have "strictInv (ks\<lparr>strictSetting := False\<rparr>)" by (simp add: strictInv_def)
  with Refresh filterOn_works [OF assms(1)] show ?thesis
    by (simp add: refresh_def Let_def isStrictKillSwitchEnabled_def strictInv_def [of "snd (disableAllTraffic _ _)"])
qed (use assms in \<open>simp_all add: filterOn_works strictInv_enable addAllowedRange_def removeAllowedRange_def Let_def
       enablePeerTraffic_def strictInv_def [of "snd (disableAllTraffic _ _)"]\<close>)

lemma strictInv_requests:
  "strictInv ks \<Longrightarrow> list_all (works \<circ> fst) ops \<Longrightarrow> strictInv (ksRun isIPv4 ops ks)"
  by (induction isIPv4 ops ks rule: ksRun.induct) (auto simp: strictInv_step)

lemma strictInv_init: "works env \<Longrightarrow> strictInv (snd (ksInit env (ksState0 strict)))"
  using filterOn_works(1) [of env] by (auto simp: ksInit_def strictInv_def isStrictKillSwitchEnabled_def ksState0_def)

section \<open>Correctness of the kill switch\<close>

definition exampleEnv :: pfEnv where
  "exampleEnv = \<lparr>cmdFails = (\<lambda>_ _. False), flushRecurses = False, serviceName = ''AlzheimerVPN-service''\<rparr>"

definition exampleConfig :: jobj where
  "exampleConfig = [(''dns1'', JStr ''9.9.9.9''), (''splitTunnelType'', JNum 0), (''vpnServer'', JStr ''203.0.113.7'')]"

definition examplePacket :: "string packet" where
  "examplePacket = \<lparr>pkIface = ''en0'', pkV6 = False, pkProto = Tcp, pkSrcPort = 50000, pkDst = ''198.51.100.1'', pkDstPort = 443\<rparr>"

text \<open>C3. In every reachable state of the service, when \<^verbatim>\<open>enableKillSwitch\<close> accepts a configuration and no shell command
  fails, the packet filter implements the policy of the configuration for every outgoing packet: the rules spread over
  the anchors, read with pf's last-match rule, decide exactly as the policy's decision table. (The return value alone
  does not say so: the code ignores the exit codes.)\<close>

theorem kill_switch_policy:
  assumes "works env" and "ksReach isIPv4 ks" and "fst (enableKillSwitch isIPv4 env cfg n ks)"
  shows "verdict inNet (pf (snd (enableKillSwitch isIPv4 env cfg n ks))) p =
    planVerdict inNet (ksPlanOf isIPv4 cfg) (dnsServersOf cfg) p"
  using assms ksReach_inv [OF assms(2)] by (simp add: enable_success ksInv_def pfInv_def applyPlan_verdict)

lemma example_works [simp]: "works exampleEnv"
  by (simp add: works_def exampleEnv_def)

lemma ksInv_start [simp]: "ksInv (ksState0 strict)"
  by (simp add: ksInv_def ksState0_def pfState0_def pfInv_def pfWf_def)

lemma example_enable: "fst (enableKillSwitch isIPv4 env exampleConfig 0 ks)"
proof -
  have "isValidIpOrCidr (dotted 9 9 9 9)" "isValidIpOrCidr (dotted 203 0 113 7)" by (rule valid_dotted; simp)+
  moreover have "dotted 9 9 9 9 = ''9.9.9.9''" "dotted 203 0 113 7 = ''203.0.113.7''"
    by (simp_all add: dotted_def showNat.simps digitChar_simps)
  ultimately have "isValidIpOrCidr ''9.9.9.9''" "isValidIpOrCidr ''203.0.113.7''" by simp_all
  then show ?thesis
    by (simp add: enableKillSwitch_def dnsAddresses_def ksPlanOf_def exampleConfig_def jvalue_def qvalue_def Let_def)
qed

lemma example_type: "jToInt (jvalue exampleConfig ''splitTunnelType'') = 0"
  by (simp add: exampleConfig_def jvalue_def qvalue_def)

lemma example_packet [simp]:
  "pkIface examplePacket = ''en0''" "pkDst examplePacket = ''198.51.100.1''" "\<not> pkV6 examplePacket"
  "\<not> isDns examplePacket" "\<not> isDhcp inNet examplePacket"
  by (simp_all add: examplePacket_def isDns_def isDhcp_def)

lemma example_iface [simp]: "''en0'' \<notin> set utunInterfaces"
  by (auto simp: utunInterfaces_def)

lemma example_plan: "ksPlanOf isIPv4 exampleConfig =
    \<lparr>blockAll = True, allowNets = True, blockNets = False, allownets = [''203.0.113.7''], blocknets = []\<rparr>"
  by (simp add: ksPlanOf_def exampleConfig_def jvalue_def qvalue_def Let_def)

lemma ksReach_start: "ksReach isIPv4 (ksState0 False)"
  using ksReach.start [of isIPv4 exampleEnv False] by (simp add: ksInit_def isStrictKillSwitchEnabled_def ksState0_def)

theorem kill_switch_policy_witness:
  "verdict (=) (pf (snd (enableKillSwitch (\<lambda>_. True) exampleEnv exampleConfig 0 (ksState0 False)))) examplePacket = Block"
  using kill_switch_policy [of exampleEnv "\<lambda>_. True" "ksState0 False" exampleConfig 0 "(=)" examplePacket] example_enable ksReach_start
  by (simp add: planVerdict_def example_plan covers_def lanips_def)

text \<open>C4. When \<^verbatim>\<open>setConnectionProtection(true, config)\<close> reports success for a full tunnel or an
  all-except tunnel, no packet outside the exempt traffic leaves the machine, whichever of the shell
  commands failed on the way: the report is never false.\<close>

theorem protection_fail_closed:
  assumes "setConnectionProtection isIPv4 env True cfg ks = (True, ks')"
    and "jToInt (jvalue cfg ''splitTunnelType'') \<noteq> 1" and "\<not> exempt inNet (pf ks') p"
  shows "verdict inNet (pf ks') p = Block"
  using protection_confirmed [OF assms(1)] assms(2,3) by (intro verdict_block) auto

lemma protection_pf:
  assumes "fst (enableKillSwitch isIPv4 env cfg 0 ks)"
  shows "\<exists>xs. pf (snd (setConnectionProtection isIPv4 env True cfg ks)) =
    (applyPlan env (ksPlanOf isIPv4 cfg) (dnsServersOf cfg) (pf ks))\<lparr>issued := xs\<rparr>"
  using protection_state [OF assms] by auto

lemma exempt_plan:
  assumes "works env" and "pfWf st"
  shows "exempt inNet ((applyPlan env pl dns st)\<lparr>issued := xs\<rparr>) p \<longleftrightarrow>
    pkIface p = ''lo0'' \<or> pkIface p \<in> set utunInterfaces \<or> isDhcp inNet p \<or>
    allowNets pl \<and> covers inNet (allownets pl) (pkDst p) \<or> covers inNet lanips (pkDst p) \<or>
    isDns p \<and> covers inNet dns (pkDst p)"
proof -
  note state = applyPlan_state [OF assms, of pl dns]
  from state(2,6) have "tables (applyPlan env pl dns st) (''300.allowLAN'', ''lanips'') = Some lanips"
    by (simp add: pfWf_def)
  with state(7,9) show ?thesis by (auto simp: exempt_def inTable_def covers_def)
qed

lemma pfWf_start: "pfWf pfState0"
  by (simp add: pfWf_def pfState0_def)

theorem protection_fail_closed_witness:
  "verdict (=) (pf (snd (setConnectionProtection (\<lambda>_. True) exampleEnv True exampleConfig (ksState0 False)))) examplePacket = Block"
proof (rule protection_fail_closed)
  show "setConnectionProtection (\<lambda>_. True) exampleEnv True exampleConfig (ksState0 False) =
      (True, snd (setConnectionProtection (\<lambda>_. True) exampleEnv True exampleConfig (ksState0 False)))"
    using protection_reported [OF example_works ksInv_start example_enable, of "\<lambda>_. True" False]
    by (simp add: prod_eq_iff example_type)
  show "jToInt (jvalue exampleConfig ''splitTunnelType'') \<noteq> 1" by (simp add: example_type)
  obtain xs where "pf (snd (setConnectionProtection (\<lambda>_. True) exampleEnv True exampleConfig (ksState0 False))) =
      (applyPlan exampleEnv (ksPlanOf (\<lambda>_. True) exampleConfig) (dnsServersOf exampleConfig) pfState0)\<lparr>issued := xs\<rparr>"
    using protection_pf [OF example_enable, of "\<lambda>_. True" exampleEnv "ksState0 False"] by (auto simp: ksState0_def)
  then show "\<not> exempt (=) (pf (snd (setConnectionProtection (\<lambda>_. True) exampleEnv True exampleConfig (ksState0 False)))) examplePacket"
    by (simp add: exempt_plan [OF example_works pfWf_start] example_plan covers_def lanips_def)
qed

text \<open>C12. Once the service has reported a full or an all-except tunnel as protected, the machine stays closed under
  every further sequence of requests except the release \<^verbatim>\<open>setConnectionProtection(false)\<close>: requests to end the kill
  switch, to leave the strict mode, to change the always-blocked sites or the allowed ranges whatever the shell does, and
  requests that touch the root anchors (strict mode on, all traffic off, a new configuration that blocks all it does not
  allow) when their commands work. Afterwards the connection is still protected, and every packet that passes goes to the
  loopback, a tunnel interface, DHCP, the local network, a range that was open at the report or that one of the requests
  named, or is DNS to a server that was open or named.\<close>

theorem protection_kept:
  assumes "ksReach isIPv4 ks0" and "setConnectionProtection isIPv4 env True cfg ks0 = (True, ks)"
    and "jToInt (jvalue cfg ''splitTunnelType'') \<noteq> 1" and "list_all (keepsProtection isIPv4) ops"
  shows "m_connectionProtection (ksRun isIPv4 ops ks) \<and>
    (\<forall>p. verdict inNet (pf (ksRun isIPv4 ops ks)) p = Pass \<longrightarrow>
       openTraffic inNet (openRanges ks \<union> \<Union> (namedRanges isIPv4 ` set ops)) (openDns ks \<union> \<Union> (namedDns ` set ops)) p)"
proof -
  let ?nets = "openRanges ks \<union> \<Union> (namedRanges isIPv4 ` set ops)" and ?dns = "openDns ks \<union> \<Union> (namedDns ` set ops)"
  have reach: "ksReach isIPv4 ks"
    using ksReach.request [OF assms(1), of env "SetConnectionProtection True cfg"] assms(2) by simp
  have "guarded ?nets ?dns ks" using protection_confirmed [OF assms(2)] assms(3) by (auto simp: guarded_def)
  then have run: "guarded ?nets ?dns (ksRun isIPv4 ops ks)"
    using ksReach_inv [OF reach] assms(4) by (rule guarded_run) auto
  have wf: "pfWf (pf (ksRun isIPv4 ops ks))"
    using ksReach_inv [OF ksReach_run [OF reach]] by (simp add: ksInv_def pfInv_def)
  have "openTraffic inNet ?nets ?dns p" if "verdict inNet (pf (ksRun isIPv4 ops ks)) p = Pass" for p
  proof (rule openTraffic_mono)
    have "exempt inNet (pf (ksRun isIPv4 ops ks)) p"
      using that run verdict_block [of "pf (ksRun isIPv4 ops ks)" inNet p] by (auto simp: guarded_def)
    then show "openTraffic inNet (openRanges (ksRun isIPv4 ops ks)) (openDns (ksRun isIPv4 ops ks)) p"
      by (rule exempt_open [OF wf])
  qed (use run in \<open>auto simp: guarded_def\<close>)
  with run show ?thesis by (auto simp: guarded_def)
qed

text \<open>A full tunnel, protected and then attacked: the kill switch is ended while every command fails, the strict mode is
  switched on, a range is opened.\<close>

definition brokenEnv :: pfEnv where
  "brokenEnv = exampleEnv\<lparr>cmdFails := (\<lambda>_ _. True)\<rparr>"

definition exampleProtected :: ksState where
  "exampleProtected = snd (setConnectionProtection (\<lambda>_. True) exampleEnv True exampleConfig (ksState0 False))"

lemma exampleProtected_reported:
  "setConnectionProtection (\<lambda>_. True) exampleEnv True exampleConfig (ksState0 False) = (True, exampleProtected)"
  using protection_reported [OF example_works ksInv_start example_enable, of "\<lambda>_. True" False]
  by (simp add: prod_eq_iff example_type exampleProtected_def)

lemma exampleProtected_open: "openRanges exampleProtected = {''203.0.113.7''}"
proof -
  obtain xs where eq: "exampleProtected = (ksState0 False)\<lparr>m_allowedRanges := [''203.0.113.7''], m_connectionProtection := True,
      pf := (applyPlan exampleEnv (ksPlanOf (\<lambda>_. True) exampleConfig) (dnsServersOf exampleConfig) pfState0)\<lparr>issued := xs\<rparr>\<rparr>"
    using protection_state [OF example_enable, of "\<lambda>_. True" exampleEnv "ksState0 False"]
    by (auto simp: exampleProtected_def ksState0_def example_plan)
  show ?thesis
    unfolding eq using applyPlan_state(7) [OF example_works pfWf_start, of "ksPlanOf (\<lambda>_. True) exampleConfig" "dnsServersOf exampleConfig"]
    by (simp add: openRanges_def entries_def example_plan)
qed

theorem protection_kept_witness:
  "verdict (=) (pf (ksRun (\<lambda>_. True) [(brokenEnv, DisableKillSwitch), (exampleEnv, Refresh True), (exampleEnv, AddAllowedRange [''192.0.2.1''])]
     exampleProtected)) examplePacket = Block"
proof -
  let ?ops = "[(brokenEnv, DisableKillSwitch), (exampleEnv, Refresh True), (exampleEnv, AddAllowedRange [''192.0.2.1''])]"
  let ?st = "pf (ksRun (\<lambda>_. True) ?ops exampleProtected)"
  have "verdict (=) ?st examplePacket = Pass \<longrightarrow>
      openTraffic (=) (openRanges exampleProtected \<union> \<Union> (namedRanges (\<lambda>_. True) ` set ?ops))
        (openDns exampleProtected \<union> \<Union> (namedDns ` set ?ops)) examplePacket"
    using protection_kept [OF ksReach_start exampleProtected_reported, of ?ops "(=)"] by (simp add: example_type)
  then have "verdict (=) ?st examplePacket \<noteq> Pass"
    by (simp add: openTraffic_def exampleProtected_open covers_def lanips_def)
  then show ?thesis by (cases "verdict (=) ?st examplePacket") simp_all
qed

text \<open>C22. In every reachable state of the service, whatever requests it received, every table entry it
  ever put on a shell command line consists of digits, dots and slashes, with at most a final line
  feed: no request can smuggle a shell metacharacter into \<^verbatim>\<open>bash -c\<close>.\<close>

theorem shell_arguments_clean:
  assumes "ksReach isIPv4 ks" and "ReplaceTable a t xs \<in> set (issued (pf ks))" and "x \<in> set xs"
  shows "rangeText x"
proof -
  have "safeCmd (ReplaceTable a t xs)"
    using ksReach_inv [OF assms(1)] assms(2) by (auto simp: ksInv_def pfInv_def list_all_iff)
  with assms(3) show ?thesis by (auto simp: list_all_iff intro: valid_rangeText)
qed

theorem shell_arguments_clean_witness: "rangeText ''203.0.113.7''"
proof -
  let ?ks = "ksRun (\<lambda>_. True) [(exampleEnv, EnableKillSwitch exampleConfig 0)] (snd (ksInit exampleEnv (ksState0 False)))"
  have reach: "ksReach (\<lambda>_. True) ?ks" by (intro ksReach_run ksReach.start)
  have "ReplaceTable ''110.allowNets'' ''allownets'' [''203.0.113.7''] \<in> set (issued (pf ?ks))"
    by (simp add: enable_success [OF example_enable] applyPlan_def Let_def)
      (simp add: ksPlanOf_def exampleConfig_def jvalue_def qvalue_def Let_def)
  then show ?thesis by (rule shell_arguments_clean [OF reach]) simp
qed

text \<open>C34. In a reachable state with a non-empty list of always-blocked sites, no protected connection and the strict mode
  off, ending the kill switch with working commands leaves exactly these sites blocked: a packet to one of them is stopped
  unless it goes through a tunnel interface or the loopback, and every other packet passes.\<close>

theorem always_blocked_enforced:
  assumes "works env" and "ksReach isIPv4 ks" and "\<not> m_connectionProtection ks" and "\<not> strictSetting ks"
    and "m_alwaysBlockedSites ks \<noteq> []"
  shows "verdict inNet (pf (snd (disableKillSwitch env ks))) p =
    (if pkIface p = ''lo0'' \<or> pkIface p \<in> set utunInterfaces then Pass
     else if covers inNet (m_alwaysBlockedSites ks) (pkDst p) then Block else Pass)"
proof -
  define st where "st = pf (applyAlwaysBlockedSites env ks)"
  have on: "filterOn st"
    unfolding st_def applyAlwaysBlockedSites_def Let_def
    by (simp add: filterOn_ensureInstalled [OF assms(1)] filterOn_priority)
  have anchors: "''000.allowLoopback'' \<in> loaded st" "''100.blockAll'' \<notin> loaded st" "''110.allowNets'' \<notin> loaded st"
      "''120.blockNets'' \<in> loaded st" "''200.allowVPN'' \<in> loaded st" "''250.blockIPv6'' \<notin> loaded st"
      "''290.allowDHCP'' \<notin> loaded st" "''300.allowLAN'' \<notin> loaded st" "''310.blockDNS'' \<notin> loaded st"
    and table: "tables st (''120.blockNets'', ''blocknets'') = Some (m_alwaysBlockedSites ks)"
    using assms(1) unfolding st_def applyAlwaysBlockedSites_def Let_def works_def by simp_all
  have "verdict inNet st p = decide inNet st p" using on by (rule verdict_decide)
  also have "\<dots> = (if pkIface p = ''lo0'' then Pass else if pkIface p \<in> set utunInterfaces then Pass
      else if covers inNet (m_alwaysBlockedSites ks) (pkDst p) then Block else Pass)"
    unfolding decide_def Let_def inTable_Some [OF table] by (simp only: anchors simp_thms if_True if_False)
  finally show ?thesis
    using assms(3-5) by (simp add: disableKillSwitch_def isStrictKillSwitchEnabled_def st_def)
qed

theorem always_blocked_enforced_witness:
  "verdict (=) (pf (snd (disableKillSwitch exampleEnv
     (snd (setAlwaysBlockedSites exampleEnv [''198.51.100.1''] (ksState0 False)))))) examplePacket = Block"
proof -
  let ?ks = "snd (setAlwaysBlockedSites exampleEnv [''198.51.100.1''] (ksState0 False))"
  have "isValidIpOrCidr (dotted 198 51 100 1)" by (rule valid_dotted; simp)
  moreover have "dotted 198 51 100 1 = ''198.51.100.1''"
    by (simp add: dotted_def showNat.simps digitChar_simps)
  ultimately have "isValidIpOrCidr ''198.51.100.1''" by simp
  then have "m_alwaysBlockedSites ?ks = [''198.51.100.1'']" "\<not> m_connectionProtection ?ks" "\<not> strictSetting ?ks"
    by (simp_all add: setAlwaysBlockedSites_def sitesInForce_def disableKillSwitch_def applyAlwaysBlockedSites_def
        isStrictKillSwitchEnabled_def ksState0_def Let_def)
  moreover have "ksReach (\<lambda>_. True) ?ks"
    using ksReach.request [OF ksReach_start, of "\<lambda>_. True" exampleEnv "SetAlwaysBlockedSites [''198.51.100.1'']"] by simp
  ultimately show ?thesis
    using always_blocked_enforced [of exampleEnv "\<lambda>_. True" ?ks "(=)" examplePacket] by (simp add: covers_def)
qed

text \<open>C35. With the strict mode on, ending the kill switch closes the machine: from the start of the service through any
  sequence of requests, as long as no command fails, when the strict setting is on and no connection is protected, after
  \<^verbatim>\<open>disableKillSwitch\<close> only loopback packets pass.\<close>

theorem strict_mode_blocks:
  assumes "works env" and "works env0" and "list_all (works \<circ> fst) ops"
    and "ks = ksRun isIPv4 ops (snd (ksInit env0 (ksState0 strict)))"
    and "\<not> m_connectionProtection ks" and "strictSetting ks"
  shows "verdict inNet (pf (snd (disableKillSwitch env ks))) p = (if pkIface p = ''lo0'' then Pass else Block)"
proof -
  have "filterOn (pf ks)"
    using strictInv_requests [OF strictInv_init [OF assms(2)] assms(3), of isIPv4 strict] assms(4,6) by (simp add: strictInv_def)
  define st where "st = strictAnchors env (pf ks)"
  have on: "filterOn st" unfolding st_def strictAnchors_def Let_def by (simp add: \<open>filterOn (pf ks)\<close>)
  have anchors: "''000.allowLoopback'' \<in> loaded st" "''100.blockAll'' \<in> loaded st" "''110.allowNets'' \<notin> loaded st"
      "''120.blockNets'' \<notin> loaded st" "''200.allowVPN'' \<notin> loaded st" "''250.blockIPv6'' \<in> loaded st"
      "''290.allowDHCP'' \<notin> loaded st" "''300.allowLAN'' \<notin> loaded st" "''310.blockDNS'' \<notin> loaded st"
    using assms(1) unfolding st_def strictAnchors_def Let_def works_def by simp_all
  have "verdict inNet st p = decide inNet st p" using on by (rule verdict_decide)
  also have "\<dots> = (if pkIface p = ''lo0'' then Pass else Block)"
    unfolding decide_def Let_def by (simp only: anchors simp_thms if_True if_False if_cancel)
  finally show ?thesis
    using assms(5,6) by (simp add: disableKillSwitch_def isStrictKillSwitchEnabled_def st_def)
qed

theorem strict_mode_blocks_witness:
  "verdict (=) (pf (snd (disableKillSwitch exampleEnv (ksRun (\<lambda>_. True) [(exampleEnv, Refresh True)]
     (snd (ksInit exampleEnv (ksState0 False))))))) examplePacket = Block"
proof -
  let ?ks = "ksRun (\<lambda>_. True) [(exampleEnv, Refresh True)] (snd (ksInit exampleEnv (ksState0 False)))"
  have "\<not> m_connectionProtection ?ks" "strictSetting ?ks"
    by (simp_all add: refresh_def ksInit_def ksState0_def isStrictKillSwitchEnabled_def disableAllTraffic_def Let_def)
  then show ?thesis
    using strict_mode_blocks [of exampleEnv exampleEnv "[(exampleEnv, Refresh True)]" ?ks "\<lambda>_. True" False "(=)" examplePacket]
    by simp
qed

end
