(* ===== verification/Dns_Message.thy ===== *)
theory Dns_Message
  imports Net_Formats
begin

text \<open>
  \<^verbatim>\<open>client/core/utils/dnsMessageParser.cpp\<close>: the parser of DNS messages that the split tunnel learns
  addresses from. A message is a list of bytes. Every raw read of the source is a partial
  operation here, \<^const>\<open>None\<close> being a read outside the buffer; the parser is proved never to do one.
  Offsets are C++ \<^verbatim>\<open>int\<close>s that stay below the size of a datagram, so they are natural numbers.
\<close>

type_synonym bytes = "8 word list"

definition byteAt :: "bytes \<Rightarrow> nat \<Rightarrow> 8 word option" where
  "byteAt m i = (if i < length m then Some (m ! i) else None)"

definition readUint16 :: "bytes \<Rightarrow> nat \<Rightarrow> 16 word option" where
  "readUint16 m off = (case (byteAt m off, byteAt m (off + 1)) of
       (Some a, Some b) \<Rightarrow> Some (word_of_nat (256 * unat a + unat b))
     | _ \<Rightarrow> None)"

definition readUint32 :: "bytes \<Rightarrow> nat \<Rightarrow> 32 word option" where
  "readUint32 m off = (case (readUint16 m off, readUint16 m (off + 2)) of
       (Some a, Some b) \<Rightarrow> Some (word_of_nat (65536 * unat a + unat b))
     | _ \<Rightarrow> None)"

record dnsIpv4Answer =
  address :: string
  ttlSeconds :: int

definition latin1 :: "bytes \<Rightarrow> string" where
  "latin1 bs = map (\<lambda>b. char_of (unat b)) bs"

text \<open>The outcome of \<^verbatim>\<open>readName\<close>: a read outside the buffer, \<^verbatim>\<open>false\<close>, or \<^verbatim>\<open>true\<close> with the new offset
  and the name.\<close>

datatype nameResult = OutOfBounds | NoName | Name nat string

function readNameLoop ::
    "bytes \<Rightarrow> nat \<Rightarrow> nat \<Rightarrow> bool \<Rightarrow> nat \<Rightarrow> string list \<Rightarrow> nameResult" where
  "readNameLoop m currentOffset depth jumped offset labels =
     (if \<not> currentOffset < length m then NoName
      else case byteAt m currentOffset of
        None \<Rightarrow> OutOfBounds
      | Some len \<Rightarrow>
          if len = 0 then
            (let name = joinWith ''.'' labels in
             if name = [] then NoName
             else Name (if jumped then offset else currentOffset + 1) name)
          else if len AND 0xC0 = 0xC0 then
            (if currentOffset + 1 \<ge> length m then NoName
             else case byteAt m (currentOffset + 1) of
               None \<Rightarrow> OutOfBounds
             | Some lo \<Rightarrow>
                 let pointer = unat (len AND 0x3F) * 256 + unat lo in
                 if depth + 1 > 8 then NoName
                 else readNameLoop m pointer (depth + 1) True
                        (if jumped then offset else currentOffset + 2) labels)
          else if len AND 0xC0 \<noteq> 0 \<or> currentOffset + 1 + unat len > length m then NoName
          else readNameLoop m (currentOffset + 1 + unat len) depth jumped offset
                 (labels @ [latin1 (take (unat len) (drop (currentOffset + 1) m))]))"
  by pat_completeness auto
termination
  by (relation "measures [\<lambda>(m, c, d, j, off, ls). 9 - d, \<lambda>(m, c, d, j, off, ls). length m - c]") auto

declare readNameLoop.simps [simp del]

definition readName :: "bytes \<Rightarrow> nat \<Rightarrow> nat \<Rightarrow> nameResult" where
  "readName m offset depth =
     (if depth > 8 \<or> offset \<ge> length m then NoName
      else readNameLoop m offset depth False offset [])"

text \<open>\<^verbatim>\<open>queryHost\<close>: the empty string where no host can be read.\<close>

definition queryHost :: "bytes \<Rightarrow> string option" where
  "queryHost m =
     (if length m < 12 then Some []
      else case readUint16 m 4 of
        None \<Rightarrow> None
      | Some qd \<Rightarrow> if qd = 0 then Some []
          else (case readName m 12 0 of
              OutOfBounds \<Rightarrow> None
            | NoName \<Rightarrow> Some []
            | Name _ host \<Rightarrow> Some (toLower host)))"

text \<open>The question loop: \<open>Inl\<close> is an early exit with an empty list (\<open>Some []\<close>) or an invalid read
  (\<^const>\<open>None\<close>); \<open>Inr\<close> is the offset after the questions.\<close>

fun skipQuestions :: "bytes \<Rightarrow> nat \<Rightarrow> nat \<Rightarrow> dnsIpv4Answer list option + nat" where
  "skipQuestions m 0 offset = Inr offset"
| "skipQuestions m (Suc i) offset =
     (case readName m offset 0 of
        OutOfBounds \<Rightarrow> Inl None
      | NoName \<Rightarrow> Inl (Some [])
      | Name off' _ \<Rightarrow>
          if off' + 4 > length m then Inl (Some []) else skipQuestions m i (off' + 4))"

definition addressText :: "8 word \<Rightarrow> 8 word \<Rightarrow> 8 word \<Rightarrow> 8 word \<Rightarrow> string" where
  "addressText a b c d = dotted (unat a) (unat b) (unat c) (unat d)"

definition clampTtl :: "32 word \<Rightarrow> int" where
  "clampTtl ttl = min (uint ttl) (2 ^ 31 - 1)"

definition addAnswer :: "dnsIpv4Answer list \<Rightarrow> string \<Rightarrow> int \<Rightarrow> dnsIpv4Answer list" where
  "addAnswer result addr ttl =
     (if list_ex (\<lambda>a. address a = addr) result then result
      else result @ [\<lparr>address = addr, ttlSeconds = ttl\<rparr>])"

fun readRecords :: "bytes \<Rightarrow> nat \<Rightarrow> nat \<Rightarrow> dnsIpv4Answer list \<Rightarrow> dnsIpv4Answer list option" where
  "readRecords m 0 offset result = Some result"
| "readRecords m (Suc i) offset result =
     (case readName m offset 0 of
        OutOfBounds \<Rightarrow> None
      | NoName \<Rightarrow> Some result
      | Name off _ \<Rightarrow>
          if off + 10 > length m then Some result
          else case (readUint16 m off, readUint16 m (off + 2), readUint32 m (off + 4), readUint16 m (off + 8)) of
            (Some ty, Some klass, Some ttl, Some dataLength) \<Rightarrow>
              (let off2 = off + 10 in
               if off2 + unat dataLength > length m then Some result
               else if ty = 1 \<and> klass = 1 \<and> dataLength = 4 then
                 (case (byteAt m off2, byteAt m (off2 + 1), byteAt m (off2 + 2), byteAt m (off2 + 3)) of
                    (Some a, Some b, Some c, Some d) \<Rightarrow>
                      readRecords m i (off2 + unat dataLength)
                        (addAnswer result (addressText a b c d) (clampTtl ttl))
                  | _ \<Rightarrow> None)
               else readRecords m i (off2 + unat dataLength) result)
          | _ \<Rightarrow> None)"

text \<open>The three record counts are added in 16 bits, as the source does.\<close>

definition responseIpv4Answers :: "bytes \<Rightarrow> dnsIpv4Answer list option" where
  "responseIpv4Answers m =
     (if length m < 12 then Some []
      else case (readUint16 m 4, readUint16 m 6, readUint16 m 8, readUint16 m 10) of
        (Some questionCount, Some answerCount, Some authorityCount, Some additionalCount) \<Rightarrow>
          (case skipQuestions m (unat questionCount) 12 of
             Inl r \<Rightarrow> r
           | Inr offset \<Rightarrow>
               readRecords m (unat (answerCount + authorityCount + additionalCount)) offset [])
      | _ \<Rightarrow> None)"

definition responseIpv4Addresses :: "bytes \<Rightarrow> string list option" where
  "responseIpv4Addresses m = map_option (map address) (responseIpv4Answers m)"

section \<open>No read outside the message\<close>

lemma byteAt_Some [simp]: "i < length m \<Longrightarrow> byteAt m i = Some (m ! i)"
  by (simp add: byteAt_def)

lemma readUint16_Some: "off + 2 \<le> length m \<Longrightarrow> \<exists>w. readUint16 m off = Some w"
  by (simp add: readUint16_def byteAt_def)

lemma readUint32_Some: "off + 4 \<le> length m \<Longrightarrow> \<exists>w. readUint32 m off = Some w"
  using readUint16_Some [of off m] readUint16_Some [of "off + 2" m] by (auto simp: readUint32_def)

lemma readNameLoop_safe:
  "readNameLoop m c d j off ls \<noteq> OutOfBounds"
proof (induction m c d j off ls rule: readNameLoop.induct)
  case (1 m c d j off ls)
  show ?case
  proof (cases "c < length m")
    case True
    with 1 show ?thesis
      by (subst readNameLoop.simps) (auto simp: Let_def)
  qed (simp add: readNameLoop.simps)
qed

lemma readNameLoop_bounds:
  "readNameLoop m c d j off ls = Name off' n \<Longrightarrow> c < length m \<Longrightarrow> (j \<Longrightarrow> off \<le> length m) \<Longrightarrow>
     n \<noteq> [] \<and> off' \<le> length m \<and> (if j then off' = off else c < off')"
proof (induction m c d j off ls rule: readNameLoop.induct)
  case (1 m c d j off ls)
  from "1.prems"(1,2) consider
      (stop) "m ! c = 0" "off' = (if j then off else c + 1)" "n \<noteq> []"
    | (jump) "m ! c \<noteq> 0" "m ! c AND 0xC0 = 0xC0" "c + 1 < length m" "d + 1 \<le> 8"
        "readNameLoop m (unat (m ! c AND 0x3F) * 256 + unat (m ! (c + 1))) (d + 1) True
           (if j then off else c + 2) ls = Name off' n"
    | (label) "m ! c \<noteq> 0" "m ! c AND 0xC0 \<noteq> 0xC0" "m ! c AND 0xC0 = 0" "c + 1 + unat (m ! c) \<le> length m"
        "readNameLoop m (c + 1 + unat (m ! c)) d j off
           (ls @ [latin1 (take (unat (m ! c)) (drop (c + 1) m))]) = Name off' n"
    by (subst (asm) readNameLoop.simps) (auto simp: Let_def split: if_splits)
  then show ?case
  proof cases
    case stop
    with "1.prems" show ?thesis by auto
  next
    case jump
    let ?p = "unat (m ! c AND 0x3F) * 256 + unat (m ! (c + 1))"
    have "?p < length m"
      using jump(5) by (subst (asm) readNameLoop.simps) (auto split: if_splits)
    moreover have "(if j then off else c + 2) \<le> length m" using "1.prems"(3) jump(3) by simp
    ultimately have "n \<noteq> [] \<and> off' \<le> length m \<and> off' = (if j then off else c + 2)"
      using "1.IH"(1) [OF _ byteAt_Some [OF "1.prems"(2)] jump(1,2) _ byteAt_Some [OF jump(3)] refl]
        jump "1.prems"(2) by simp
    then show ?thesis by auto
  next
    case label
    have "c + 1 + unat (m ! c) < length m"
      using label(5) by (subst (asm) readNameLoop.simps) (auto split: if_splits)
    then have "n \<noteq> [] \<and> off' \<le> length m \<and> (if j then off' = off else c + 1 + unat (m ! c) < off')"
      using "1.IH"(2) [OF _ byteAt_Some [OF "1.prems"(2)] label(1,2)] label "1.prems" by auto
    then show ?thesis by (auto split: if_splits)
  qed
qed

lemma readName_safe: "readName m off d \<noteq> OutOfBounds"
  by (simp add: readName_def readNameLoop_safe)

lemma readName_bounds:
  "readName m off d = Name off' n \<Longrightarrow> n \<noteq> [] \<and> off < off' \<and> off' \<le> length m"
  using readNameLoop_bounds [of m off d False off "[]" off' n]
  by (auto simp: readName_def split: if_splits)

lemma skipQuestions_safe: "skipQuestions m k off \<noteq> Inl None"
  by (induction m k off rule: skipQuestions.induct)
     (auto simp: readName_safe split: nameResult.splits)

lemma readRecords_safe: "\<exists>l. readRecords m k off res = Some l"
proof (induction k arbitrary: off res)
  case (Suc k)
  show ?case
  proof (cases "readName m off 0")
    case OutOfBounds
    then show ?thesis by (simp add: readName_safe)
  next
    case NoName
    then show ?thesis by simp
  next
    case (Name off' n)
    show ?thesis
    proof (cases "off' + 10 > length m")
      case True
      with Name show ?thesis by simp
    next
      case False
      then obtain ty klass ttl dl where "readUint16 m off' = Some ty" "readUint16 m (off' + 2) = Some klass"
          "readUint32 m (off' + 4) = Some ttl" "readUint16 m (off' + 8) = Some dl"
        using readUint16_Some [of off' m] readUint16_Some [of "off' + 2" m] readUint32_Some [of "off' + 4" m]
          readUint16_Some [of "off' + 8" m] by auto
      with False Name Suc.IH show ?thesis by (auto simp: Let_def)
    qed
  qed
qed simp

lemma responseIpv4Answers_safe: "\<exists>l. responseIpv4Answers m = Some l"
proof (cases "length m < 12")
  case False
  then obtain a b c d where "readUint16 m 4 = Some a" "readUint16 m 6 = Some b"
      "readUint16 m 8 = Some c" "readUint16 m 10 = Some d"
    using readUint16_Some [of 4 m] readUint16_Some [of 6 m] readUint16_Some [of 8 m] readUint16_Some [of 10 m]
    by auto
  with False show ?thesis
    using skipQuestions_safe [of m "unat a" 12] readRecords_safe
    by (auto simp: responseIpv4Answers_def split: sum.splits)
qed (simp add: responseIpv4Answers_def)

lemma queryHost_safe: "\<exists>h. queryHost m = Some h"
proof (cases "length m < 12")
  case False
  then obtain a where "readUint16 m 4 = Some a" using readUint16_Some [of 4 m] by auto
  with False show ?thesis
    using readName_safe [of m 12 0] by (auto simp: queryHost_def split: nameResult.splits)
qed (simp add: queryHost_def)

section \<open>The answers\<close>

definition answerOk :: "dnsIpv4Answer \<Rightarrow> bool" where
  "answerOk a \<longleftrightarrow> (\<exists>b c d e. b < 256 \<and> c < 256 \<and> d < 256 \<and> e < 256 \<and> address a = dotted b c d e) \<and>
     0 \<le> ttlSeconds a \<and> ttlSeconds a < 2 ^ 31"

definition answersOk :: "dnsIpv4Answer list \<Rightarrow> bool" where
  "answersOk as \<longleftrightarrow> distinct (map address as) \<and> (\<forall>a \<in> set as. answerOk a)"

lemma unat_8_less [simp]: "unat (w :: 8 word) < 256"
  by (rule order_less_le_trans [OF unsigned_less]) simp

lemma answerOk_new: "answerOk \<lparr>address = addressText a b c d, ttlSeconds = clampTtl ttl\<rparr>"
proof -
  have "\<exists>p q r s. p < 256 \<and> q < 256 \<and> r < 256 \<and> s < 256 \<and> addressText a b c d = dotted p q r s"
    unfolding addressText_def using unat_8_less by blast
  then show ?thesis by (simp add: answerOk_def clampTtl_def)
qed

lemma answersOk_addAnswer [inv_intros]:
  "answersOk as \<Longrightarrow> answersOk (addAnswer as (addressText a b c d) (clampTtl ttl))"
  using answerOk_new by (auto simp: answersOk_def addAnswer_def list_ex_iff)

lemma readRecords_ok: "answersOk res \<Longrightarrow> readRecords m k off res = Some l \<Longrightarrow> answersOk l"
proof (induction k arbitrary: off res)
  case (Suc k)
  from Suc.prems show ?case
    by (auto simp: Let_def split: nameResult.splits if_splits option.splits
        intro: Suc.IH answersOk_addAnswer)
qed simp

lemma skipQuestions_Inl: "skipQuestions m k off = Inl r \<Longrightarrow> r = Some []"
  by (induction m k off rule: skipQuestions.induct)
     (auto simp: readName_safe split: nameResult.splits if_splits)

lemma responseIpv4Answers_ok: "responseIpv4Answers m = Some l \<Longrightarrow> answersOk l"
proof -
  have "answersOk []" by (simp add: answersOk_def)
  then show "responseIpv4Answers m = Some l \<Longrightarrow> ?thesis"
    using readRecords_ok [of "[]" m]
    by (auto simp: responseIpv4Answers_def split: if_splits option.splits sum.splits dest: skipQuestions_Inl)
qed

section \<open>Reference encoding\<close>

text \<open>A response in the wire format of RFC 1035 without compression: one question and a list of
  A records. Parsing it gives the records back.\<close>

definition labelOk :: "bytes \<Rightarrow> bool" where
  "labelOk l \<longleftrightarrow> 0 < length l \<and> length l < 64"

definition encName :: "bytes list \<Rightarrow> bytes" where
  "encName ls = concat (map (\<lambda>l. word_of_nat (length l) # l) ls) @ [0]"

definition nameText :: "bytes list \<Rightarrow> string" where
  "nameText ls = joinWith ''.'' (map latin1 ls)"

record aRecord =
  owner :: "bytes list"
  recTtl :: "32 word"
  octets :: "8 word \<times> 8 word \<times> 8 word \<times> 8 word"

definition enc16 :: "nat \<Rightarrow> bytes" where
  "enc16 n = [word_of_nat (n div 256), word_of_nat (n mod 256)]"

definition encRecord :: "aRecord \<Rightarrow> bytes" where
  "encRecord r = encName (owner r) @ enc16 1 @ enc16 1 @
     enc16 (unat (recTtl r) div 65536) @ enc16 (unat (recTtl r) mod 65536) @ enc16 4 @
     (case octets r of (a, b, c, d) \<Rightarrow> [a, b, c, d])"

definition encResponse :: "nat \<Rightarrow> nat \<Rightarrow> bytes list \<Rightarrow> aRecord list \<Rightarrow> bytes" where
  "encResponse ident flags q rs =
     enc16 ident @ enc16 flags @ enc16 1 @ enc16 (length rs) @ enc16 0 @ enc16 0 @
     encName q @ enc16 1 @ enc16 1 @ concat (map encRecord rs)"

definition nameOk :: "bytes list \<Rightarrow> bool" where
  "nameOk ls \<longleftrightarrow> ls \<noteq> [] \<and> list_all labelOk ls"

definition recordAnswer :: "aRecord \<Rightarrow> dnsIpv4Answer list \<Rightarrow> dnsIpv4Answer list" where
  "recordAnswer r acc = (case octets r of (a, b, c, d) \<Rightarrow>
     addAnswer acc (addressText a b c d) (clampTtl (recTtl r)))"

lemma length_enc16 [simp]: "length (enc16 n) = 2"
  by (simp add: enc16_def)

lemma drop_nth: "drop c m = x # xs \<Longrightarrow> c < length m \<and> m ! c = x \<and> drop (Suc c) m = xs"
  by (metis Cons_nth_drop_Suc drop_all leI list.discI list.inject)

lemma byteAt_drop: "drop c m = x # xs \<Longrightarrow> byteAt m c = Some x"
  using drop_nth by fastforce

lemma drop_append_eq: "drop c m = xs @ ys \<Longrightarrow> drop (c + length xs) m = ys"
  by (metis add.commute append_eq_conv_conj drop_drop)

lemma unat_small8: "n < 256 \<Longrightarrow> unat (word_of_nat n :: 8 word) = n"
  by (simp add: unsigned_of_nat take_bit_nat_eq_self)

lemma label_len_bits: "n < 64 \<Longrightarrow> (word_of_nat n :: 8 word) AND 0xC0 = 0"
proof -
  have "list_all (\<lambda>n. (word_of_nat n :: 8 word) AND 0xC0 = 0) [0..<64]" by code_simp
  then show "n < 64 \<Longrightarrow> ?thesis" by (simp add: list_all_iff)
qed

lemma readUint16_drop:
  assumes "drop off m = enc16 n @ rest" and "n < 65536"
  shows "readUint16 m off = Some (word_of_nat n)"
proof -
  let ?a = "word_of_nat (n div 256) :: 8 word" and ?b = "word_of_nat (n mod 256) :: 8 word"
  have d: "drop off m = ?a # ?b # rest" using assms(1) by (simp add: enc16_def)
  then have "byteAt m off = Some ?a" "byteAt m (off + 1) = Some ?b"
    using drop_nth [OF d] byteAt_drop by auto
  moreover have "unat ?a = n div 256" "unat ?b = n mod 256"
    using assms(2) by (auto intro!: unat_small8)
  ultimately show ?thesis by (simp add: readUint16_def)
qed

lemma latin1_neq_Nil: "labelOk l \<Longrightarrow> latin1 l \<noteq> []"
  by (auto simp: labelOk_def latin1_def)

lemma joinWith_neq_Nil: "\<exists>x \<in> set xs. x \<noteq> [] \<Longrightarrow> joinWith sep xs \<noteq> []"
  by (induction sep xs rule: joinWith.induct) auto

lemma readNameLoop_encName:
  assumes "drop c m = encName ls @ rest" and "list_all labelOk ls" and "\<exists>x \<in> set (acc @ map latin1 ls). x \<noteq> []"
  shows "readNameLoop m c d False off acc = Name (c + length (encName ls)) (joinWith ''.'' (acc @ map latin1 ls))"
  using assms
proof (induction ls arbitrary: c acc)
  case Nil
  then have d: "drop c m = 0 # rest" by (simp add: encName_def)
  then have "c < length m" "byteAt m c = Some 0" using drop_nth [OF d] byteAt_drop [OF d] by auto
  then show ?case
    using Nil.prems(3) joinWith_neq_Nil [of acc "''.''"]
    by (subst readNameLoop.simps) (simp add: encName_def Let_def)
next
  case (Cons l ls)
  let ?w = "word_of_nat (length l) :: 8 word"
  have d: "drop c m = ?w # l @ encName ls @ rest" using Cons.prems(1) by (simp add: encName_def)
  have l: "0 < length l" "length l < 64" using Cons.prems(2) by (auto simp: labelOk_def)
  then have w: "unat ?w = length l" "?w AND 0xC0 = 0" by (simp_all add: unat_small8 label_len_bits)
  then have "?w \<noteq> 0" using l(1) by (metis less_numeral_extra(3) unat_0)
  moreover have c: "c < length m" "drop (Suc c) m = l @ encName ls @ rest" "byteAt m c = Some ?w"
    using drop_nth [OF d] byteAt_drop [OF d] by auto
  moreover have "Suc c + length l \<le> length m"
    using c(1) arg_cong [OF c(2), of length] by simp
  moreover have "readNameLoop m (Suc c + length l) d False off (acc @ [latin1 l]) =
      Name (Suc c + length l + length (encName ls)) (joinWith ''.'' ((acc @ [latin1 l]) @ map latin1 ls))"
  proof (rule Cons.IH)
    show "drop (Suc c + length l) m = encName ls @ rest" by (rule drop_append_eq [OF c(2)])
  qed (use Cons.prems in auto)
  ultimately show ?case
    using w by (subst readNameLoop.simps) (simp add: encName_def)
qed

lemma readName_encName:
  assumes "drop c m = encName ls @ rest" and "nameOk ls"
  shows "readName m c 0 = Name (c + length (encName ls)) (nameText ls)"
proof -
  have "list_all labelOk ls" "\<exists>x \<in> set ([] @ map latin1 ls). x \<noteq> []"
    using assms(2) latin1_neq_Nil by (auto simp: nameOk_def list_all_iff neq_Nil_conv)
  moreover have "c < length m"
    using assms(1) by (cases "c < length m") (auto simp: encName_def)
  ultimately show ?thesis
    using readNameLoop_encName [OF assms(1), of "[]"] by (simp add: readName_def nameText_def)
qed

lemma readUint32_drop:
  assumes "drop off m = enc16 (unat t div 65536) @ enc16 (unat t mod 65536) @ rest"
  shows "readUint32 m off = Some (t :: 32 word)"
proof -
  have t: "unat t < 65536 * 65536" by (rule order_less_le_trans [OF unsigned_less]) simp
  then have "unat t div 65536 < 65536" by (simp add: less_mult_imp_div_less)
  moreover have "drop (off + 2) m = enc16 (unat t mod 65536) @ rest"
    using drop_append_eq [OF assms] by (simp add: enc16_def)
  ultimately have "readUint16 m off = Some (word_of_nat (unat t div 65536))"
      "readUint16 m (off + 2) = Some (word_of_nat (unat t mod 65536))"
    using readUint16_drop assms by simp_all
  moreover have "unat (word_of_nat n :: 16 word) = n" if "n < 65536" for n
    using that by (simp add: unsigned_of_nat take_bit_nat_eq_self)
  ultimately show ?thesis
    using \<open>unat t div 65536 < 65536\<close> by (simp add: readUint32_def)
qed

lemma readRecords_encRecord:
  assumes "drop off m = encRecord r @ rest" and "nameOk (owner r)"
  shows "readRecords m (Suc k) off acc =
     readRecords m k (off + length (encRecord r)) (recordAnswer r acc)"
proof -
  obtain a b c d where o: "octets r = (a, b, c, d)" by (cases "octets r") auto
  let ?t = "unat (recTtl r)" and ?o = "off + length (encName (owner r))"
  let ?r0 = "enc16 1 @ enc16 1 @ enc16 (?t div 65536) @ enc16 (?t mod 65536) @ enc16 4 @ a # b # c # d # rest"
  have d0: "drop off m = encName (owner r) @ ?r0"
    using assms(1) o by (simp add: encRecord_def)
  note n = readName_encName [OF d0 assms(2)]
  have d1: "drop ?o m = ?r0" by (rule drop_append_eq [OF d0])
  have d2: "drop (?o + 2) m = enc16 1 @ enc16 (?t div 65536) @ enc16 (?t mod 65536) @ enc16 4 @ a # b # c # d # rest"
    using drop_append_eq [OF d1] by (simp add: enc16_def)
  have d3: "drop (?o + 4) m = enc16 (?t div 65536) @ enc16 (?t mod 65536) @ enc16 4 @ a # b # c # d # rest"
    using drop_append_eq [of ?o m "enc16 1 @ enc16 1"] d1 by simp
  have d4: "drop (?o + 8) m = enc16 4 @ a # b # c # d # rest"
    using drop_append_eq [of "?o + 4" m "enc16 (?t div 65536) @ enc16 (?t mod 65536)"] d3
    by (simp add: add.commute)
  have d5: "drop (?o + 10) m = a # b # c # d # rest"
    using drop_append_eq [OF d4] by (simp add: add.commute)
  have bytes: "byteAt m (?o + 10) = Some a" "byteAt m (?o + 11) = Some b"
      "byteAt m (?o + 12) = Some c" "byteAt m (?o + 13) = Some d"
    using byteAt_drop [OF d5] byteAt_drop [of "?o + 11" m] byteAt_drop [of "?o + 12" m] byteAt_drop [of "?o + 13" m]
      drop_nth [OF d5] drop_nth [of "?o + 11" m] drop_nth [of "?o + 12" m] by (auto simp: eval_nat_numeral)
  have len: "?o + 14 \<le> length m" using arg_cong [OF d5, of length] by simp
  have nums: "readUint16 m ?o = Some 1" "readUint16 m (?o + 2) = Some 1"
      "readUint32 m (?o + 4) = Some (recTtl r)" "readUint16 m (?o + 8) = Some 4"
    using readUint16_drop [OF d1] readUint16_drop [OF d2] readUint32_drop [OF d3] readUint16_drop [OF d4]
    by simp_all
  have sz: "length (encRecord r) = length (encName (owner r)) + 14"
    using o by (simp add: encRecord_def enc16_def)
  show ?thesis
    using n nums bytes len o sz
    by (simp add: recordAnswer_def Let_def ac_simps del: add_2_eq_Suc')
qed

lemma readRecords_encRecords:
  assumes "drop off m = concat (map encRecord rs) @ rest" and "list_all (\<lambda>r. nameOk (owner r)) rs"
  shows "readRecords m (length rs) off acc = Some (fold recordAnswer rs acc)"
  using assms
proof (induction rs arbitrary: off acc)
  case (Cons r rs)
  then have "readRecords m (Suc (length rs)) off acc =
      readRecords m (length rs) (off + length (encRecord r)) (recordAnswer r acc)"
    by (intro readRecords_encRecord) auto
  moreover have "drop (off + length (encRecord r)) m = concat (map encRecord rs) @ rest"
    using Cons.prems(1) by (intro drop_append_eq) simp
  ultimately show ?case using Cons by simp
qed simp

lemma encResponse_parts:
  fixes q rs ident flags
  defines "m \<equiv> encResponse ident flags q rs"
  assumes "nameOk q" and "length rs < 65536"
  shows "12 \<le> length m" "readUint16 m 4 = Some 1" "readUint16 m 6 = Some (word_of_nat (length rs))"
    "readUint16 m 8 = Some 0" "readUint16 m 10 = Some 0"
    "readName m 12 0 = Name (12 + length (encName q)) (nameText q)"
    "drop (16 + length (encName q)) m = concat (map encRecord rs)"
    "16 + length (encName q) \<le> length m"
proof -
  have m: "drop (2 * k) m = drop (2 * k) (enc16 ident @ enc16 flags @ enc16 1 @ enc16 (length rs) @ enc16 0 @ enc16 0 @
     encName q @ enc16 1 @ enc16 1 @ concat (map encRecord rs))" for k
    by (simp add: m_def encResponse_def)
  show "12 \<le> length m" "16 + length (encName q) \<le> length m"
    by (simp_all add: m_def encResponse_def)
  have "drop 4 m = enc16 1 @ enc16 (length rs) @ enc16 0 @ enc16 0 @
     encName q @ enc16 1 @ enc16 1 @ concat (map encRecord rs)"
    using m [of 2] by (simp add: enc16_def)
  from readUint16_drop [OF this] show "readUint16 m 4 = Some 1" by simp
  have "drop 6 m = enc16 (length rs) @ enc16 0 @ enc16 0 @
     encName q @ enc16 1 @ enc16 1 @ concat (map encRecord rs)"
    using m [of 3] by (simp add: enc16_def)
  from readUint16_drop [OF this assms(3)] show "readUint16 m 6 = Some (word_of_nat (length rs))" .
  have "drop 8 m = enc16 0 @ enc16 0 @ encName q @ enc16 1 @ enc16 1 @ concat (map encRecord rs)"
    using m [of 4] by (simp add: enc16_def)
  from readUint16_drop [OF this] show "readUint16 m 8 = Some 0" by simp
  have "drop 10 m = enc16 0 @ encName q @ enc16 1 @ enc16 1 @ concat (map encRecord rs)"
    using m [of 5] by (simp add: enc16_def)
  from readUint16_drop [OF this] show "readUint16 m 10 = Some 0" by simp
  have d12: "drop 12 m = encName q @ enc16 1 @ enc16 1 @ concat (map encRecord rs)"
    using m [of 6] by (simp add: enc16_def)
  from readName_encName [OF this assms(2)]
  show "readName m 12 0 = Name (12 + length (encName q)) (nameText q)" .
  have "drop (12 + length (encName q)) m = (enc16 1 @ enc16 1) @ concat (map encRecord rs)"
    using drop_append_eq [OF d12] by simp
  from drop_append_eq [OF this] show "drop (16 + length (encName q)) m = concat (map encRecord rs)"
    by (simp add: add.commute add.left_commute)
qed

lemma parse_encResponse:
  assumes "nameOk q" and "list_all (\<lambda>r. nameOk (owner r)) rs" and "length rs < 65536"
  shows "responseIpv4Answers (encResponse ident flags q rs) = Some (fold recordAnswer rs [])"
proof -
  note p = encResponse_parts [OF assms(1,3), of ident flags]
  have "unat (word_of_nat (length rs) :: 16 word) = length rs"
    using assms(3) by (simp add: unsigned_of_nat take_bit_nat_eq_self)
  moreover have "skipQuestions (encResponse ident flags q rs) (unat (1 :: 16 word)) 12 =
      Inr (16 + length (encName q))"
    using p(6,8) by (simp add: add.commute add.left_commute)
  ultimately show ?thesis
    using p readRecords_encRecords [of "16 + length (encName q)" "encResponse ident flags q rs" rs "[]" "[]"] assms(2)
    by (simp add: responseIpv4Answers_def)
qed

lemma queryHost_encResponse:
  assumes "nameOk q" and "length rs < 65536"
  shows "queryHost (encResponse ident flags q rs) = Some (toLower (nameText q))"
  using encResponse_parts [OF assms, of ident flags] by (simp add: queryHost_def)

section \<open>Correctness of the parser\<close>

text \<open>C26. The parser is memory safe and total on every datagram: it always returns, never reads
  outside the buffer, and what it returns are distinct canonical addresses with a time to live that
  fits the C++ integer.\<close>

theorem parser_safe:
  "(\<exists>answers. responseIpv4Answers m = Some answers \<and> answersOk answers) \<and> (\<exists>h. queryHost m = Some h)"
  using responseIpv4Answers_safe [of m] responseIpv4Answers_ok [of m] queryHost_safe [of m] by blast

text \<open>C27. The parser inverts the wire format: from the encoding of a question and any list of address
  records it recovers the host in lower case and the answers, first occurrence of each address.\<close>

theorem parse_response_roundtrip:
  assumes "nameOk q" and "list_all (\<lambda>r. nameOk (owner r)) rs" and "length rs < 65536"
  shows "responseIpv4Answers (encResponse ident flags q rs) = Some (fold recordAnswer rs []) \<and>
    queryHost (encResponse ident flags q rs) = Some (toLower (nameText q))"
  using assms by (simp add: parse_encResponse queryHost_encResponse)

theorem parse_response_roundtrip_witness:
  "queryHost (encResponse 7 0x8180 [[121, 97], [114, 117]]
     [\<lparr>owner = [[121, 97], [114, 117]], recTtl = 300, octets = (1, 2, 3, 4)\<rparr>]) = Some (toLower (nameText [[121, 97], [114, 117]]))"
  by (rule conjunct2 [OF parse_response_roundtrip]) (simp_all add: nameOk_def labelOk_def)

end
