(* ===== verification/Router_Mac.thy ===== *)
theory Router_Mac
  imports Kill_Switch Split_Rule Dns_Message
begin

text \<open>
  \<^verbatim>\<open>service/server/router_mac.cpp\<close>: the routes of the service, and the split tunnel by name: addresses
  learned from DNS answers get a route of their own, are leased per host, and are let through the
  kill switch; hosts named by a rule are looked up in advance, at most eight at a time.

  The \<^verbatim>\<open>route\<close> command is outside the sources: its exit code is a parameter that may depend on every
  earlier command. \<^verbatim>\<open>QSet\<close> and \<^verbatim>\<open>QHash\<close> have no specified iteration order; they are modelled as
  duplicate-free lists and sorted association lists. \<^const>\<open>None\<close> is undefined behaviour, inherited from
  \<open>normalizeHostText\<close>.
\<close>

section \<open>State\<close>

record route =
  dst :: string
  gw :: string

record rtEnv =
  isIPv4 :: "string \<Rightarrow> bool"                       \<comment> \<open>\<^verbatim>\<open>QHostAddress\<close> reads the text as IPv4\<close>
  routeExit :: "string list \<Rightarrow> string \<Rightarrow> int"      \<comment> \<open>exit code of \<^verbatim>\<open>route\<close>, given the earlier commands\<close>
  pfEnv :: pfEnv

record rtState =
  m_addedRoutes :: "route list"
  m_dnsSplitTunnelGateway :: string
  m_dnsSplitTunnelKillSwitchEnabled :: bool
  m_dnsSplitTunnelIps :: "string list"
  m_dnsSplitTunnelRulesKey :: "string list"
  m_dnsSplitTunnelHostLeases :: "int qmap qmap"
  m_dnsSplitTunnelHostCache :: "dnsIpv4Answer list qmap"
  m_dnsSplitTunnelLeaseTimer :: "int option"     \<comment> \<open>milliseconds, when running\<close>
  m_dnsSplitTunnelPrewarmQueue :: "string list"
  m_dnsSplitTunnelPrewarmGeneration :: int       \<comment> \<open>counters, \<^verbatim>\<open>int\<close> in the code; unbounded here\<close>
  m_dnsSplitTunnelPrewarmTotal :: int
  m_dnsSplitTunnelPrewarmStarted :: int
  m_dnsSplitTunnelPrewarmFinished :: int
  m_dnsSplitTunnelPrewarmSucceeded :: int
  m_dnsSplitTunnelPrewarmFailed :: int
  m_dnsSplitTunnelPrewarmPending :: int
  dnsUtilRules :: "string list"                  \<comment> \<open>what \<^verbatim>\<open>configureSplitTunnelRules\<close> was last given\<close>
  lookups :: "(int \<times> string) list"               \<comment> \<open>host look-ups under way, with their generation\<close>
  routeLog :: "string list"                      \<comment> \<open>every \<^verbatim>\<open>route\<close> command, oldest first\<close>
  killSwitch :: ksState

definition kDnsSplitTunnelPrewarmConcurrency :: int where
  "kDnsSplitTunnelPrewarmConcurrency = 8"

definition EEXIST :: int where "EEXIST = 17"
definition ESRCH :: int where "ESRCH = 3"

section \<open>Routes\<close>

definition routeText :: "string \<Rightarrow> string \<Rightarrow> string \<Rightarrow> string \<Rightarrow> string" where
  "routeText verb ip gateway netmask =
     (if netmask = hostMask then ''route '' @ verb @ '' -host '' @ ip @ '' '' @ gateway
      else ''route '' @ verb @ '' -net '' @ ip @ '' '' @ gateway @ '' '' @ netmask)"

definition runRouteCommand :: "rtEnv \<Rightarrow> string \<Rightarrow> rtState \<Rightarrow> int \<times> rtState" where
  "runRouteCommand env cmd rt = (routeExit env (routeLog rt) cmd, rt\<lparr>routeLog := routeLog rt @ [cmd]\<rparr>)"

definition routeAdd :: "rtEnv \<Rightarrow> string \<Rightarrow> string \<Rightarrow> rtState \<Rightarrow> bool \<times> rtState" where
  "routeAdd env ipWithSubnet gateway rt =
     (let ip = ipAddressFromIpWithSubnet ipWithSubnet; netmask = netMaskFromIpWithSubnet ipWithSubnet in
      if \<not> checkIPv4Format (isIPv4 env) ip \<or> \<not> checkIPv4Format (isIPv4 env) gateway then (False, rt)
      else case runRouteCommand env (routeText ''add'' ip gateway netmask) rt of (result, rt) \<Rightarrow>
        if result \<noteq> 0 \<and> result \<noteq> EEXIST then (False, rt)
        else (True, rt\<lparr>m_addedRoutes := m_addedRoutes rt @ [\<lparr>dst = ipWithSubnet, gw = gateway\<rparr>]\<rparr>))"

fun routeAddList :: "rtEnv \<Rightarrow> string \<Rightarrow> string list \<Rightarrow> rtState \<Rightarrow> int \<times> rtState" where
  "routeAddList env gateway [] rt = (0, rt)"
| "routeAddList env gateway (ip # ips) rt =
     (case routeAdd env ip gateway rt of (ok, rt) \<Rightarrow>
      case routeAddList env gateway ips rt of (cnt, rt) \<Rightarrow> (cnt + of_bool ok, rt))"

definition routeAddTransient :: "rtEnv \<Rightarrow> string \<Rightarrow> string \<Rightarrow> rtState \<Rightarrow> bool \<times> rtState" where
  "routeAddTransient env ipWithSubnet gateway rt =
     (let ip = ipAddressFromIpWithSubnet ipWithSubnet; netmask = netMaskFromIpWithSubnet ipWithSubnet in
      if \<not> checkIPv4Format (isIPv4 env) ip \<or> \<not> checkIPv4Format (isIPv4 env) gateway then (False, rt)
      else case runRouteCommand env (routeText ''add'' ip gateway netmask) rt of (result, rt) \<Rightarrow>
        if result = 0 then (True, rt)
        else if result = EEXIST then (True, rt)
        else (False, rt))"

definition routeDelete :: "rtEnv \<Rightarrow> string \<Rightarrow> string \<Rightarrow> rtState \<Rightarrow> bool \<times> rtState" where
  "routeDelete env ipWithSubnet gateway rt =
     (let ip = ipAddressFromIpWithSubnet ipWithSubnet; netmask = netMaskFromIpWithSubnet ipWithSubnet in
      if \<not> checkIPv4Format (isIPv4 env) ip \<or> \<not> checkIPv4Format (isIPv4 env) gateway then (False, rt)
      else if ipWithSubnet = ''0.0.0.0/0'' then (True, rt)
      else case runRouteCommand env (routeText ''delete'' ip gateway netmask) rt of (result, rt) \<Rightarrow>
        if result \<noteq> 0 \<and> result \<noteq> ESRCH then (False, rt)
        else (True, rt))"

fun deleteRoutes :: "rtEnv \<Rightarrow> route list \<Rightarrow> rtState \<Rightarrow> int \<times> rtState" where
  "deleteRoutes env [] rt = (0, rt)"
| "deleteRoutes env (r # rs) rt =
     (case routeDelete env (dst r) (gw r) rt of (ok, rt) \<Rightarrow>
      case deleteRoutes env rs rt of (cnt, rt) \<Rightarrow> (cnt + of_bool ok, rt))"

definition clearSavedRoutes :: "rtEnv \<Rightarrow> rtState \<Rightarrow> bool \<times> rtState" where
  "clearSavedRoutes env rt =
     (case deleteRoutes env (m_addedRoutes rt) rt of (cnt, rt') \<Rightarrow>
        (cnt = int (length (m_addedRoutes rt)), rt'\<lparr>m_addedRoutes := []\<rparr>))"

text \<open>The count of deleted routes is converted to \<^verbatim>\<open>bool\<close>: true when at least one was deleted.\<close>

definition routeDeleteList :: "rtEnv \<Rightarrow> string \<Rightarrow> string list \<Rightarrow> rtState \<Rightarrow> bool \<times> rtState" where
  "routeDeleteList env gateway ips rt =
     (case deleteRoutes env (map (\<lambda>ip. \<lparr>dst = ip, gw = gateway\<rparr>) ips) rt of (cnt, rt) \<Rightarrow> (cnt \<noteq> 0, rt))"

definition routeAddXray :: "rtEnv \<Rightarrow> string \<Rightarrow> string \<Rightarrow> rtState \<Rightarrow> bool \<times> rtState" where
  "routeAddXray env ifname gateway rt =
     (if ifname = [] \<or> gateway = [] then (False, rt)
      else case runRouteCommand env (''route add -net 0.0.0.0/1 '' @ gateway @ '' -ifscope '' @ ifname) rt of (r1, rt) \<Rightarrow>
        case runRouteCommand env (''route add -net 128.0.0.0/1 '' @ gateway @ '' -ifscope '' @ ifname) rt of (r2, rt) \<Rightarrow>
        (\<not> (\<not> (r1 = 0 \<or> r1 = EEXIST) \<or> \<not> (r2 = 0 \<or> r2 = EEXIST)), rt))"

definition routeDeleteXray :: "rtEnv \<Rightarrow> string \<Rightarrow> string \<Rightarrow> rtState \<Rightarrow> bool \<times> rtState" where
  "routeDeleteXray env ifname gateway rt =
     (if ifname = [] then (False, rt)
      else let via = (if gateway \<noteq> [] then gateway @ '' -ifscope '' @ ifname else ''-ifscope '' @ ifname) in
        case runRouteCommand env (''route delete -net 0.0.0.0/1 '' @ via) rt of (r1, rt) \<Rightarrow>
        case runRouteCommand env (''route delete -net 128.0.0.0/1 '' @ via) rt of (r2, rt) \<Rightarrow>
        (\<not> ((r1 \<noteq> 0 \<and> r1 \<noteq> ESRCH) \<or> (r2 \<noteq> 0 \<and> r2 \<noteq> ESRCH)), rt))"

section \<open>Leases\<close>

definition qBound :: "int \<Rightarrow> int \<Rightarrow> int \<Rightarrow> int" where
  "qBound lo v hi = max lo (min hi v)"

fun activeIps :: "int qmap qmap \<Rightarrow> string list" where
  "activeIps [] = []"
| "activeIps ((host, leases) # hs) = map fst leases @ activeIps hs"

definition activeDnsSplitTunnelIps :: "rtState \<Rightarrow> string list" where
  "activeDnsSplitTunnelIps rt = removeDuplicates (activeIps (m_dnsSplitTunnelHostLeases rt))"

fun addMissing :: "rtEnv \<Rightarrow> string list \<Rightarrow> string list \<Rightarrow> rtState \<Rightarrow> string list \<times> rtState" where
  "addMissing env before [] rt = ([], rt)"
| "addMissing env before (ip # ips) rt =
     (if ip \<in> set before then addMissing env before ips rt
      else case routeAddTransient env ip (m_dnsSplitTunnelGateway rt) rt of (ok, rt) \<Rightarrow>
        if \<not> ok then addMissing env before ips rt
        else case addMissing env before ips
               (rt\<lparr>m_dnsSplitTunnelIps := appendNew (m_dnsSplitTunnelIps rt) [ip]\<rparr>) of
            (added, rt) \<Rightarrow> (ip # added, rt))"

fun dropStale :: "rtEnv \<Rightarrow> string list \<Rightarrow> string list \<Rightarrow> rtState \<Rightarrow> string list \<times> rtState" where
  "dropStale env desired [] rt = ([], rt)"
| "dropStale env desired (ip # ips) rt =
     (if ip \<in> set desired then dropStale env desired ips rt
      else case routeDelete env ip (m_dnsSplitTunnelGateway rt) rt of (ok, rt) \<Rightarrow>
        if \<not> ok then dropStale env desired ips rt
        else case dropStale env desired ips
               (rt\<lparr>m_dnsSplitTunnelIps := removeAll ip (m_dnsSplitTunnelIps rt)\<rparr>) of
            (removed, rt) \<Rightarrow> (ip # removed, rt))"

definition allowAdded :: "rtEnv \<Rightarrow> string list \<Rightarrow> rtState \<Rightarrow> rtState" where
  "allowAdded env added rt =
     (if added \<noteq> [] \<and> m_dnsSplitTunnelKillSwitchEnabled rt
      then rt\<lparr>killSwitch := snd (addAllowedRange (pfEnv env) added (killSwitch rt))\<rparr> else rt)"

definition disallowRemoved :: "rtEnv \<Rightarrow> string list \<Rightarrow> rtState \<Rightarrow> rtState" where
  "disallowRemoved env removed rt =
     (if removed \<noteq> [] \<and> m_dnsSplitTunnelKillSwitchEnabled rt
      then rt\<lparr>killSwitch := snd (removeAllowedRange (pfEnv env) removed (killSwitch rt))\<rparr> else rt)"

definition syncDnsSplitTunnelIps :: "rtEnv \<Rightarrow> string list \<Rightarrow> rtState \<Rightarrow> rtState" where
  "syncDnsSplitTunnelIps env before rt =
     (let desired = activeDnsSplitTunnelIps rt in
      case addMissing env before desired rt of (added, rt) \<Rightarrow>
      case dropStale env desired before rt of (removed, rt) \<Rightarrow>
        disallowRemoved env removed (allowAdded env added rt))"

text \<open>Time is in seconds. The earliest expiry that is still ahead starts the timer.\<close>

definition nextExpiry :: "int \<Rightarrow> int qmap qmap \<Rightarrow> int option" where
  "nextExpiry now leases =
     fold (\<lambda>e acc. if e > now \<and> (case acc of None \<Rightarrow> True | Some n \<Rightarrow> e < n) then Some e else acc)
       (concat (map (\<lambda>h. map snd (snd h)) leases)) None"

definition scheduleDnsSplitTunnelLeaseTimer :: "int \<Rightarrow> rtState \<Rightarrow> rtState" where
  "scheduleDnsSplitTunnelLeaseTimer now rt =
     rt\<lparr>m_dnsSplitTunnelLeaseTimer :=
       (case nextExpiry now (m_dnsSplitTunnelHostLeases rt) of
          None \<Rightarrow> None
        | Some e \<Rightarrow> Some (max 1 (1000 * (e - now))))\<rparr>"

definition expireDnsSplitTunnelLeases :: "rtState \<Rightarrow> rtState" where
  "expireDnsSplitTunnelLeases rt = rt\<lparr>m_dnsSplitTunnelLeaseTimer := None\<rparr>"

definition qvalueDflt :: "'v \<Rightarrow> 'v qmap \<Rightarrow> string \<Rightarrow> 'v" where
  "qvalueDflt d m k = (case qvalue m k of None \<Rightarrow> d | Some v \<Rightarrow> v)"

fun leaseAnswers :: "rtEnv \<Rightarrow> int \<Rightarrow> dnsIpv4Answer list \<Rightarrow> int qmap \<Rightarrow> dnsIpv4Answer list \<Rightarrow> int qmap \<times> dnsIpv4Answer list" where
  "leaseAnswers env now [] leases cached = (leases, cached)"
| "leaseAnswers env now (a # as) leases cached =
     (if \<not> checkIPv4Format (isIPv4 env) (address a) then leaseAnswers env now as leases cached
      else leaseAnswers env now as (qinsert (address a) (now + qBound 1 (ttlSeconds a) 86400) leases)
             (if address a \<in> set (map address cached) then cached else cached @ [a]))"

definition updateDnsSplitTunnelHostLeases ::
    "rtEnv \<Rightarrow> int \<Rightarrow> string \<Rightarrow> dnsIpv4Answer list \<Rightarrow> rtState \<Rightarrow> rtState" where
  "updateDnsSplitTunnelHostLeases env now host answers rt =
     (if m_dnsSplitTunnelGateway rt = [] \<or> answers = [] then rt
      else let before = m_dnsSplitTunnelIps rt in
        case leaseAnswers env now answers (qvalueDflt [] (m_dnsSplitTunnelHostLeases rt) host)
               (qvalueDflt [] (m_dnsSplitTunnelHostCache rt) host) of (leases, cachedAnswers) \<Rightarrow>
        if leases = [] then rt
        else let rt = rt\<lparr>m_dnsSplitTunnelHostLeases := qinsert host leases (m_dnsSplitTunnelHostLeases rt),
                        m_dnsSplitTunnelHostCache := qinsert host cachedAnswers (m_dnsSplitTunnelHostCache rt)\<rparr>
             in scheduleDnsSplitTunnelLeaseTimer now (syncDnsSplitTunnelIps env before rt))"

definition clearDnsSplitTunnelLeases :: "rtEnv \<Rightarrow> rtState \<Rightarrow> rtState" where
  "clearDnsSplitTunnelLeases env rt =
     (let rt = rt\<lparr>m_dnsSplitTunnelLeaseTimer := None\<rparr>;
          ips = m_dnsSplitTunnelIps rt;
          rt = (if ips \<noteq> [] \<and> m_dnsSplitTunnelGateway rt \<noteq> [] then
                  let rt = snd (routeDeleteList env (m_dnsSplitTunnelGateway rt) ips rt) in
                  (if m_dnsSplitTunnelKillSwitchEnabled rt
                   then rt\<lparr>killSwitch := snd (removeAllowedRange (pfEnv env) ips (killSwitch rt))\<rparr> else rt)
                else rt)
      in rt\<lparr>m_dnsSplitTunnelIps := [], m_dnsSplitTunnelHostLeases := []\<rparr>)"

section \<open>Rules\<close>

fun dnsSplitTunnelHostMatchesRules :: "string \<Rightarrow> string list \<Rightarrow> bool option" where
  "dnsSplitTunnelHostMatchesRules host [] = Some False"
| "dnsSplitTunnelHostMatchesRules host (ruleText # rules) =
     (case fromText ruleText of
        None \<Rightarrow> None
      | Some rule \<Rightarrow>
          if isValid rule then
            (case matchesHost rule host of
               None \<Rightarrow> None
             | Some True \<Rightarrow> Some True
             | Some False \<Rightarrow> dnsSplitTunnelHostMatchesRules host rules)
          else dnsSplitTunnelHostMatchesRules host rules)"

fun seedHosts :: "rtEnv \<Rightarrow> int \<Rightarrow> string list \<Rightarrow> dnsIpv4Answer list qmap \<Rightarrow> nat \<Rightarrow> int qmap qmap \<Rightarrow> (nat \<times> int qmap qmap) option" where
  "seedHosts env now rules [] n hostLeases = Some (n, hostLeases)"
| "seedHosts env now rules ((host, answers) # cache) n hostLeases =
     (case dnsSplitTunnelHostMatchesRules host rules of
        None \<Rightarrow> None
      | Some False \<Rightarrow> seedHosts env now rules cache n hostLeases
      | Some True \<Rightarrow>
          let leases = fold (\<lambda>a. qinsert (address a) (now + qBound 1 (ttlSeconds a) 86400))
                         (filter (\<lambda>a. checkIPv4Format (isIPv4 env) (address a)) answers) [] in
          if leases = [] then seedHosts env now rules cache n hostLeases
          else seedHosts env now rules cache (n + 1) (qinsert host leases hostLeases))"

definition seedDnsSplitTunnelLeasesFromCache :: "rtEnv \<Rightarrow> int \<Rightarrow> string list \<Rightarrow> rtState \<Rightarrow> rtState option" where
  "seedDnsSplitTunnelLeasesFromCache env now rules rt =
     (if m_dnsSplitTunnelGateway rt = [] \<or> rules = [] \<or> m_dnsSplitTunnelHostCache rt = [] then Some rt
      else let before = m_dnsSplitTunnelIps rt in
        case seedHosts env now rules (m_dnsSplitTunnelHostCache rt) 0 (m_dnsSplitTunnelHostLeases rt) of
          None \<Rightarrow> None
        | Some (seededHosts, hostLeases) \<Rightarrow>
            let rt = rt\<lparr>m_dnsSplitTunnelHostLeases := hostLeases\<rparr> in
            if seededHosts > 0
            then Some (scheduleDnsSplitTunnelLeaseTimer now (syncDnsSplitTunnelIps env before rt))
            else Some rt)"

section \<open>Prewarming\<close>

function pumpDnsSplitTunnelPrewarm :: "rtState \<Rightarrow> rtState" where
  "pumpDnsSplitTunnelPrewarm rt =
     (if m_dnsSplitTunnelPrewarmPending rt < kDnsSplitTunnelPrewarmConcurrency
      then case m_dnsSplitTunnelPrewarmQueue rt of
          [] \<Rightarrow> rt
        | host # queue \<Rightarrow> pumpDnsSplitTunnelPrewarm
            (rt\<lparr>m_dnsSplitTunnelPrewarmQueue := queue,
                m_dnsSplitTunnelPrewarmStarted := m_dnsSplitTunnelPrewarmStarted rt + 1,
                m_dnsSplitTunnelPrewarmPending := m_dnsSplitTunnelPrewarmPending rt + 1,
                lookups := lookups rt @ [(m_dnsSplitTunnelPrewarmGeneration rt, host)]\<rparr>)
      else rt)"
  by pat_completeness auto
termination
  by (relation "measure (\<lambda>rt. length (m_dnsSplitTunnelPrewarmQueue rt))") auto

declare pumpDnsSplitTunnelPrewarm.simps [simp del]

fun prewarmHosts :: "string list \<Rightarrow> string list option" where
  "prewarmHosts [] = Some []"
| "prewarmHosts (ruleText # rules) =
     (case fromText ruleText of
        None \<Rightarrow> None
      | Some rule \<Rightarrow> map_option
          (\<lambda>hs. if isValid rule \<and> rule_type rule = ExactHost then normalizedText rule # hs else hs)
          (prewarmHosts rules))"

definition startDnsSplitTunnelPrewarm :: "string list \<Rightarrow> rtState \<Rightarrow> rtState option" where
  "startDnsSplitTunnelPrewarm rules rt =
     (let rt = rt\<lparr>m_dnsSplitTunnelPrewarmGeneration := m_dnsSplitTunnelPrewarmGeneration rt + 1,
                 m_dnsSplitTunnelPrewarmQueue := [],
                 m_dnsSplitTunnelPrewarmTotal := 0,
                 m_dnsSplitTunnelPrewarmStarted := 0,
                 m_dnsSplitTunnelPrewarmFinished := 0,
                 m_dnsSplitTunnelPrewarmSucceeded := 0,
                 m_dnsSplitTunnelPrewarmFailed := 0,
                 m_dnsSplitTunnelPrewarmPending := 0\<rparr>
      in if m_dnsSplitTunnelGateway rt = [] \<or> rules = [] then Some rt
         else case prewarmHosts rules of
             None \<Rightarrow> None
           | Some hosts \<Rightarrow>
               let queue = removeDuplicates hosts;
                   rt = rt\<lparr>m_dnsSplitTunnelPrewarmQueue := queue, m_dnsSplitTunnelPrewarmTotal := int (length queue)\<rparr>
               in if m_dnsSplitTunnelPrewarmTotal rt = 0 then Some rt else Some (pumpDnsSplitTunnelPrewarm rt))"

text \<open>The call-back of a look-up. \<open>addresses\<close> are the texts of the IPv4 addresses among
  \<^verbatim>\<open>info.addresses()\<close>.\<close>

definition finishDnsSplitTunnelPrewarmHost ::
    "rtEnv \<Rightarrow> int \<Rightarrow> int \<Rightarrow> string \<Rightarrow> string list \<Rightarrow> rtState \<Rightarrow> rtState" where
  "finishDnsSplitTunnelPrewarmHost env now generation host addresses rt =
     (if generation \<noteq> m_dnsSplitTunnelPrewarmGeneration rt then rt
      else let rt = rt\<lparr>m_dnsSplitTunnelPrewarmPending := m_dnsSplitTunnelPrewarmPending rt - 1,
                      m_dnsSplitTunnelPrewarmFinished := m_dnsSplitTunnelPrewarmFinished rt + 1\<rparr>;
               answers = map (\<lambda>a. \<lparr>address = a, ttlSeconds = 3600\<rparr>) addresses;
               rt = (if answers = []
                     then rt\<lparr>m_dnsSplitTunnelPrewarmFailed := m_dnsSplitTunnelPrewarmFailed rt + 1\<rparr>
                     else updateDnsSplitTunnelHostLeases env now host answers
                            (rt\<lparr>m_dnsSplitTunnelPrewarmSucceeded := m_dnsSplitTunnelPrewarmSucceeded rt + 1\<rparr>))
           in pumpDnsSplitTunnelPrewarm rt)"

definition configureDnsSplitTunnel ::
    "rtEnv \<Rightarrow> int \<Rightarrow> string list \<Rightarrow> string \<Rightarrow> bool \<Rightarrow> rtState \<Rightarrow> (bool \<times> rtState) option" where
  "configureDnsSplitTunnel env now rules gateway killSwitchEnabled rt =
     (let rulesKey = sort rules;
          rt = (if m_dnsSplitTunnelGateway rt \<noteq> gateway \<or> m_dnsSplitTunnelRulesKey rt \<noteq> rulesKey \<or> rules = []
                then clearDnsSplitTunnelLeases env rt else rt);
          rt = rt\<lparr>m_dnsSplitTunnelGateway := gateway,
                 m_dnsSplitTunnelKillSwitchEnabled := killSwitchEnabled,
                 m_dnsSplitTunnelRulesKey := rulesKey,
                 dnsUtilRules := rules\<rparr>
      in case seedDnsSplitTunnelLeasesFromCache env now rules rt of
           None \<Rightarrow> None
         | Some rt \<Rightarrow> map_option (Pair True) (startDnsSplitTunnelPrewarm rules rt))"

section \<open>Prewarming: frame and invariant\<close>

text \<open>The part of the state that prewarming uses; the lease operations leave it alone.\<close>

definition prewarmOf :: "rtState \<Rightarrow> string list \<times> int list \<times> (int \<times> string) list" where
  "prewarmOf rt = (m_dnsSplitTunnelPrewarmQueue rt,
     [m_dnsSplitTunnelPrewarmGeneration rt, m_dnsSplitTunnelPrewarmTotal rt, m_dnsSplitTunnelPrewarmStarted rt,
      m_dnsSplitTunnelPrewarmFinished rt, m_dnsSplitTunnelPrewarmSucceeded rt, m_dnsSplitTunnelPrewarmFailed rt,
      m_dnsSplitTunnelPrewarmPending rt], lookups rt)"

lemma prewarmOf_routes [simp]:
  "prewarmOf (snd (routeAdd env ip g rt)) = prewarmOf rt"
  "prewarmOf (snd (routeAddTransient env ip g rt)) = prewarmOf rt"
  "prewarmOf (snd (routeDelete env ip g rt)) = prewarmOf rt"
  by (simp_all add: prewarmOf_def routeAdd_def routeAddTransient_def routeDelete_def runRouteCommand_def Let_def)

lemma prewarmOf_fields [simp]:
  "prewarmOf (rt\<lparr>m_dnsSplitTunnelIps := ips\<rparr>) = prewarmOf rt"
  "prewarmOf (rt\<lparr>m_dnsSplitTunnelHostLeases := ls\<rparr>) = prewarmOf rt"
  "prewarmOf (rt\<lparr>m_dnsSplitTunnelHostCache := ca\<rparr>) = prewarmOf rt"
  "prewarmOf (rt\<lparr>m_dnsSplitTunnelLeaseTimer := ti\<rparr>) = prewarmOf rt"
  "prewarmOf (rt\<lparr>killSwitch := k\<rparr>) = prewarmOf rt"
  "prewarmOf (rt\<lparr>m_addedRoutes := ro\<rparr>) = prewarmOf rt"
  "prewarmOf (rt\<lparr>m_dnsSplitTunnelGateway := ga\<rparr>) = prewarmOf rt"
  "prewarmOf (rt\<lparr>m_dnsSplitTunnelKillSwitchEnabled := en\<rparr>) = prewarmOf rt"
  "prewarmOf (rt\<lparr>m_dnsSplitTunnelRulesKey := ke\<rparr>) = prewarmOf rt"
  "prewarmOf (rt\<lparr>dnsUtilRules := ru\<rparr>) = prewarmOf rt"
  by (simp_all add: prewarmOf_def)

lemma prewarmOf_deleteRoutes [simp]: "prewarmOf (snd (deleteRoutes env rs rt)) = prewarmOf rt"
  by (induction rs arbitrary: rt) (simp_all add: case_prod_beta)

lemma prewarmOf_addMissing [simp]: "prewarmOf (snd (addMissing env before ips rt)) = prewarmOf rt"
  by (induction ips arbitrary: rt) (simp_all add: case_prod_beta)

lemma prewarmOf_dropStale [simp]: "prewarmOf (snd (dropStale env desired ips rt)) = prewarmOf rt"
  by (induction ips arbitrary: rt) (simp_all add: case_prod_beta)

lemma prewarmOf_sync [simp]: "prewarmOf (syncDnsSplitTunnelIps env before rt) = prewarmOf rt"
  by (simp add: syncDnsSplitTunnelIps_def allowAdded_def disallowRemoved_def Let_def case_prod_beta)

lemma prewarmOf_schedule [simp]: "prewarmOf (scheduleDnsSplitTunnelLeaseTimer now rt) = prewarmOf rt"
  by (simp add: scheduleDnsSplitTunnelLeaseTimer_def)

lemma prewarmOf_update [simp]: "prewarmOf (updateDnsSplitTunnelHostLeases env now host answers rt) = prewarmOf rt"
  by (simp add: updateDnsSplitTunnelHostLeases_def Let_def case_prod_beta)

lemma prewarmOf_clear [simp]: "prewarmOf (clearDnsSplitTunnelLeases env rt) = prewarmOf rt"
  by (simp add: clearDnsSplitTunnelLeases_def routeDeleteList_def Let_def case_prod_beta)

lemma prewarmOf_seed:
  "seedDnsSplitTunnelLeasesFromCache env now rules rt = Some rt' \<Longrightarrow> prewarmOf rt' = prewarmOf rt"
  by (auto simp: seedDnsSplitTunnelLeasesFromCache_def Let_def split: if_splits option.splits)

text \<open>The accounting of a prewarm round: the look-ups under way are those of the current round, never
  more than eight, and while hosts are waiting exactly eight are under way.\<close>

definition currentLookups :: "rtState \<Rightarrow> (int \<times> string) list" where
  "currentLookups rt = filter (\<lambda>l. fst l = m_dnsSplitTunnelPrewarmGeneration rt) (lookups rt)"

definition prewarmCounts :: "rtState \<Rightarrow> bool" where
  "prewarmCounts rt \<longleftrightarrow>
     m_dnsSplitTunnelPrewarmPending rt = int (length (currentLookups rt)) \<and>
     m_dnsSplitTunnelPrewarmPending rt \<le> kDnsSplitTunnelPrewarmConcurrency \<and>
     m_dnsSplitTunnelPrewarmTotal rt = m_dnsSplitTunnelPrewarmStarted rt + int (length (m_dnsSplitTunnelPrewarmQueue rt)) \<and>
     m_dnsSplitTunnelPrewarmStarted rt = m_dnsSplitTunnelPrewarmFinished rt + m_dnsSplitTunnelPrewarmPending rt \<and>
     m_dnsSplitTunnelPrewarmFinished rt = m_dnsSplitTunnelPrewarmSucceeded rt + m_dnsSplitTunnelPrewarmFailed rt \<and>
     list_all (\<lambda>l. fst l \<le> m_dnsSplitTunnelPrewarmGeneration rt) (lookups rt)"

definition prewarmInv :: "rtState \<Rightarrow> bool" where
  "prewarmInv rt \<longleftrightarrow> prewarmCounts rt \<and>
     (m_dnsSplitTunnelPrewarmQueue rt \<noteq> [] \<longrightarrow>
        m_dnsSplitTunnelPrewarmPending rt = kDnsSplitTunnelPrewarmConcurrency)"

lemma prewarmOf_counts: "prewarmOf rt = prewarmOf rt' \<Longrightarrow> prewarmCounts rt = prewarmCounts rt'"
  by (simp add: prewarmOf_def prewarmCounts_def currentLookups_def)

lemma prewarmOf_inv: "prewarmOf rt = prewarmOf rt' \<Longrightarrow> prewarmInv rt = prewarmInv rt'"
  by (simp add: prewarmOf_def prewarmInv_def prewarmCounts_def currentLookups_def)

lemma pump_inv: "prewarmCounts rt \<Longrightarrow> prewarmInv (pumpDnsSplitTunnelPrewarm rt)"
proof (induction rt rule: pumpDnsSplitTunnelPrewarm.induct)
  case (1 rt)
  show ?case
  proof (cases "m_dnsSplitTunnelPrewarmPending rt < kDnsSplitTunnelPrewarmConcurrency")
    case full: False
    with 1 show ?thesis
      by (subst pumpDnsSplitTunnelPrewarm.simps) (simp add: prewarmInv_def prewarmCounts_def)
  next
    case free: True
    show ?thesis
    proof (cases "m_dnsSplitTunnelPrewarmQueue rt")
      case Nil
      with 1 free show ?thesis
        by (subst pumpDnsSplitTunnelPrewarm.simps) (simp add: prewarmInv_def)
    next
      case (Cons host queue)
      define rt1 where "rt1 = rt\<lparr>m_dnsSplitTunnelPrewarmQueue := queue,
          m_dnsSplitTunnelPrewarmStarted := m_dnsSplitTunnelPrewarmStarted rt + 1,
          m_dnsSplitTunnelPrewarmPending := m_dnsSplitTunnelPrewarmPending rt + 1,
          lookups := lookups rt @ [(m_dnsSplitTunnelPrewarmGeneration rt, host)]\<rparr>"
      have "prewarmCounts rt1"
        using "1.prems" free Cons by (simp add: prewarmCounts_def currentLookups_def rt1_def)
      then have "prewarmInv (pumpDnsSplitTunnelPrewarm rt1)"
        using "1.IH" [OF free Cons] by (simp add: rt1_def)
      moreover have "pumpDnsSplitTunnelPrewarm rt = pumpDnsSplitTunnelPrewarm rt1"
        by (subst pumpDnsSplitTunnelPrewarm.simps) (simp add: free Cons rt1_def)
      ultimately show ?thesis by simp
    qed
  qed
qed

lemma start_prewarm_inv:
  assumes "prewarmInv rt" and "startDnsSplitTunnelPrewarm rules rt = Some rt'"
  shows "prewarmInv rt'"
proof -
  define rt0 where "rt0 = rt\<lparr>m_dnsSplitTunnelPrewarmGeneration := m_dnsSplitTunnelPrewarmGeneration rt + 1,
     m_dnsSplitTunnelPrewarmQueue := [], m_dnsSplitTunnelPrewarmTotal := 0, m_dnsSplitTunnelPrewarmStarted := 0,
     m_dnsSplitTunnelPrewarmFinished := 0, m_dnsSplitTunnelPrewarmSucceeded := 0,
     m_dnsSplitTunnelPrewarmFailed := 0, m_dnsSplitTunnelPrewarmPending := 0\<rparr>"
  have old: "list_all (\<lambda>l. fst l \<le> m_dnsSplitTunnelPrewarmGeneration rt) (lookups rt)"
    using assms(1) by (simp add: prewarmInv_def prewarmCounts_def)
  then have "currentLookups rt0 = []"
    by (auto simp: currentLookups_def rt0_def filter_empty_conv list_all_iff)
  with old have counts: "prewarmCounts (rt0\<lparr>m_dnsSplitTunnelPrewarmQueue := q, m_dnsSplitTunnelPrewarmTotal := int (length q)\<rparr>)" for q
    by (auto simp: prewarmCounts_def currentLookups_def rt0_def kDnsSplitTunnelPrewarmConcurrency_def list_all_iff)
  have idle: "prewarmInv (rt0\<lparr>m_dnsSplitTunnelPrewarmQueue := [], m_dnsSplitTunnelPrewarmTotal := 0\<rparr>)"
    using counts [of "[]"] by (simp add: prewarmInv_def)
  moreover have "prewarmOf (rt0\<lparr>m_dnsSplitTunnelPrewarmQueue := [], m_dnsSplitTunnelPrewarmTotal := 0\<rparr>) = prewarmOf rt0"
    by (simp add: prewarmOf_def rt0_def)
  ultimately have "prewarmInv rt0" using prewarmOf_inv by blast
  then show ?thesis
    using assms(2) counts [THEN pump_inv] idle unfolding startDnsSplitTunnelPrewarm_def rt0_def [symmetric]
    by (auto simp: Let_def split: if_splits option.splits)
qed

lemma finish_prewarm_inv:
  assumes inv: "prewarmInv rt" and lookup: "(g, host) \<in> set (lookups rt)"
  shows "prewarmInv (finishDnsSplitTunnelPrewarmHost env now g host addresses
     (rt\<lparr>lookups := remove1 (g, host) (lookups rt)\<rparr>))"
proof (cases "g = m_dnsSplitTunnelPrewarmGeneration rt")
  case current: True
  let ?done = "\<lambda>ok. rt\<lparr>lookups := remove1 (g, host) (lookups rt),
     m_dnsSplitTunnelPrewarmPending := m_dnsSplitTunnelPrewarmPending rt - 1,
     m_dnsSplitTunnelPrewarmFinished := m_dnsSplitTunnelPrewarmFinished rt + 1,
     m_dnsSplitTunnelPrewarmSucceeded := m_dnsSplitTunnelPrewarmSucceeded rt + of_bool ok,
     m_dnsSplitTunnelPrewarmFailed := m_dnsSplitTunnelPrewarmFailed rt + of_bool (\<not> ok)\<rparr>"
  have mem: "(g, host) \<in> set (currentLookups rt)" using lookup current by (simp add: currentLookups_def)
  have "filter P (remove1 x xs) = remove1 x (filter P xs)" for P and x :: "int \<times> string" and xs
    by (rule filter_remove1)
  then have "currentLookups (?done ok) = remove1 (g, host) (currentLookups rt)" for ok
    by (simp add: currentLookups_def)
  moreover have "list_all P xs \<Longrightarrow> list_all P (remove1 x xs)" for P and x :: "int \<times> string" and xs
    using set_remove1_subset [of x xs] by (auto simp: list_all_iff)
  moreover have "int (length (remove1 (g, host) (currentLookups rt))) = int (length (currentLookups rt)) - 1"
    using mem by (simp add: length_remove1) (cases "currentLookups rt", auto)
  ultimately have counts: "prewarmCounts (?done ok)" for ok
    using inv by (simp add: prewarmInv_def prewarmCounts_def)
  show ?thesis
  proof (cases "addresses = []")
    case True
    have "prewarmCounts (rt\<lparr>lookups := remove1 (g, host) (lookups rt),
       m_dnsSplitTunnelPrewarmPending := m_dnsSplitTunnelPrewarmPending rt - 1,
       m_dnsSplitTunnelPrewarmFinished := m_dnsSplitTunnelPrewarmFinished rt + 1,
       m_dnsSplitTunnelPrewarmFailed := m_dnsSplitTunnelPrewarmFailed rt + 1\<rparr>)"
      using counts [of False] by (subst prewarmOf_counts [of _ "?done False"]) (simp_all add: prewarmOf_def)
    then show ?thesis
      using True current by (simp add: finishDnsSplitTunnelPrewarmHost_def Let_def pump_inv)
  next
    case False
    have "prewarmCounts (updateDnsSplitTunnelHostLeases env now host as
       (rt\<lparr>lookups := remove1 (g, host) (lookups rt),
       m_dnsSplitTunnelPrewarmPending := m_dnsSplitTunnelPrewarmPending rt - 1,
       m_dnsSplitTunnelPrewarmFinished := m_dnsSplitTunnelPrewarmFinished rt + 1,
       m_dnsSplitTunnelPrewarmSucceeded := m_dnsSplitTunnelPrewarmSucceeded rt + 1\<rparr>))" for as
      using counts [of True]
      by (subst prewarmOf_counts [of _ "?done True"], unfold prewarmOf_update) (simp_all add: prewarmOf_def)
    then show ?thesis
      using False current by (simp add: finishDnsSplitTunnelPrewarmHost_def Let_def pump_inv)
  qed
next
  case False
  then have "currentLookups (rt\<lparr>lookups := remove1 (g, host) (lookups rt)\<rparr>) = currentLookups rt"
    by (simp add: currentLookups_def filter_remove1 remove1_idem)
  moreover have "list_all P xs \<Longrightarrow> list_all P (remove1 x xs)" for P and x :: "int \<times> string" and xs
    using set_remove1_subset [of x xs] by (auto simp: list_all_iff)
  ultimately show ?thesis
    using False inv by (auto simp: finishDnsSplitTunnelPrewarmHost_def prewarmInv_def prewarmCounts_def)
qed

lemma configure_prewarm_inv:
  assumes "prewarmInv rt" and "configureDnsSplitTunnel env now rules g ks rt = Some (ok, rt')"
  shows "prewarmInv rt'"
proof -
  define rt0 where "rt0 = (if m_dnsSplitTunnelGateway rt \<noteq> g \<or> m_dnsSplitTunnelRulesKey rt \<noteq> sort rules \<or> rules = []
       then clearDnsSplitTunnelLeases env rt else rt)
     \<lparr>m_dnsSplitTunnelGateway := g, m_dnsSplitTunnelKillSwitchEnabled := ks,
      m_dnsSplitTunnelRulesKey := sort rules, dnsUtilRules := rules\<rparr>"
  have "prewarmOf rt0 = prewarmOf rt" by (simp add: rt0_def)
  moreover from assms(2) obtain rt1 where "seedDnsSplitTunnelLeasesFromCache env now rules rt0 = Some rt1"
    and start: "startDnsSplitTunnelPrewarm rules rt1 = Some rt'"
    unfolding configureDnsSplitTunnel_def Let_def rt0_def [symmetric] by (auto split: option.splits)
  ultimately have "prewarmOf rt1 = prewarmOf rt" by (simp add: prewarmOf_seed)
  with assms(1) have "prewarmInv rt1" using prewarmOf_inv by blast
  then show ?thesis using start by (rule start_prewarm_inv)
qed

section \<open>Events\<close>

definition canonical :: "string \<Rightarrow> bool" where
  "canonical ip \<longleftrightarrow> (\<exists>a b c d. a < 256 \<and> b < 256 \<and> c < 256 \<and> d < 256 \<and> ip = dotted a b c d)"

text \<open>What can happen to the router: requests of the client, call-backs of look-ups, answers seen by
  the DNS observer, the lease timer, and requests to the kill switch it shares. The DNS observer
  passes on what the message parser returned, which satisfies \<^const>\<open>answersOk\<close>; Qt prints the
  addresses of a look-up in canonical form.\<close>

inductive rtStep :: "rtState \<Rightarrow> rtState \<Rightarrow> bool" where
  configure: "configureDnsSplitTunnel env now rules g k rt = Some (ok, rt') \<Longrightarrow> rtStep rt rt'"
| lookupDone: "(g, host) \<in> set (lookups rt) \<Longrightarrow> list_all canonical addresses \<Longrightarrow>
    rtStep rt (finishDnsSplitTunnelPrewarmHost env now g host addresses
      (rt\<lparr>lookups := remove1 (g, host) (lookups rt)\<rparr>))"
| hostResolved: "answersOk answers \<Longrightarrow> rtStep rt (updateDnsSplitTunnelHostLeases env now host answers rt)"
| leaseTimeout: "rtStep rt (expireDnsSplitTunnelLeases rt)"
| addRoutes: "rtStep rt (snd (routeAddList env g ips rt))"
| deleteRouteList: "rtStep rt (snd (routeDeleteList env g ips rt))"
| clearRoutes: "rtStep rt (snd (clearSavedRoutes env rt))"
| xrayRoutes: "rtStep rt (snd (routeAddXray env ifname g rt))"
| xrayRoutesGone: "rtStep rt (snd (routeDeleteXray env ifname g rt))"
| killSwitchRequest: "rtStep rt (rt\<lparr>killSwitch := snd (ksStep is4 penv op (killSwitch rt))\<rparr>)"

definition rtState0 :: "ksState \<Rightarrow> rtState" where
  "rtState0 k = \<lparr>m_addedRoutes = [], m_dnsSplitTunnelGateway = [], m_dnsSplitTunnelKillSwitchEnabled = False,
     m_dnsSplitTunnelIps = [], m_dnsSplitTunnelRulesKey = [], m_dnsSplitTunnelHostLeases = [],
     m_dnsSplitTunnelHostCache = [], m_dnsSplitTunnelLeaseTimer = None, m_dnsSplitTunnelPrewarmQueue = [],
     m_dnsSplitTunnelPrewarmGeneration = 0, m_dnsSplitTunnelPrewarmTotal = 0, m_dnsSplitTunnelPrewarmStarted = 0,
     m_dnsSplitTunnelPrewarmFinished = 0, m_dnsSplitTunnelPrewarmSucceeded = 0, m_dnsSplitTunnelPrewarmFailed = 0,
     m_dnsSplitTunnelPrewarmPending = 0, dnsUtilRules = [], lookups = [], routeLog = [],
     killSwitch = k\<rparr>"

inductive rtReach :: "rtState \<Rightarrow> bool" where
  start: "ksReach is4 k \<Longrightarrow> rtReach (rtState0 k)"
| step: "rtReach rt \<Longrightarrow> rtStep rt rt' \<Longrightarrow> rtReach rt'"

lemma prewarmOf_routeAddList [simp]: "prewarmOf (snd (routeAddList env g ips rt)) = prewarmOf rt"
  by (induction ips arbitrary: rt) (simp_all add: case_prod_beta)

lemma prewarmOf_requests:
  "prewarmOf (snd (routeDeleteList env g ips rt)) = prewarmOf rt"
  "prewarmOf (snd (clearSavedRoutes env rt)) = prewarmOf rt"
  "prewarmOf (snd (routeAddXray env ifname g rt)) = prewarmOf rt"
  "prewarmOf (snd (routeDeleteXray env ifname g rt)) = prewarmOf rt"
  "prewarmOf (expireDnsSplitTunnelLeases rt) = prewarmOf rt"
  by (simp_all add: routeDeleteList_def clearSavedRoutes_def expireDnsSplitTunnelLeases_def case_prod_beta
      routeAddXray_def routeDeleteXray_def runRouteCommand_def Let_def)
    (simp_all add: prewarmOf_def)

lemma rtStep_prewarm: "rtStep rt rt' \<Longrightarrow> prewarmInv rt \<Longrightarrow> prewarmInv rt'"
  by (induction rule: rtStep.induct)
    (auto intro: configure_prewarm_inv finish_prewarm_inv
      simp: prewarmOf_requests prewarmOf_inv [OF prewarmOf_requests(1)] prewarmOf_inv [OF prewarmOf_requests(2)]
        prewarmOf_inv [OF prewarmOf_requests(3)] prewarmOf_inv [OF prewarmOf_requests(4)]
        prewarmOf_inv [OF prewarmOf_requests(5)] prewarmOf_inv [OF prewarmOf_update]
        prewarmOf_inv [OF prewarmOf_routeAddList] prewarmOf_inv [OF prewarmOf_fields(5)])

lemma rtReach_prewarm: "rtReach rt \<Longrightarrow> prewarmInv rt"
proof (induction rule: rtReach.induct)
  case (start is4 k)
  then show ?case
    by (simp add: rtState0_def prewarmInv_def prewarmCounts_def currentLookups_def kDnsSplitTunnelPrewarmConcurrency_def)
qed (rule rtStep_prewarm)

text \<open>A round never has more than eight look-ups under way, also after a newer round has begun: only the current round
  starts look-ups.\<close>

definition lookupsOf :: "int \<Rightarrow> rtState \<Rightarrow> (int \<times> string) list" where
  "lookupsOf g rt = filter (\<lambda>l. fst l = g) (lookups rt)"

definition otherRounds :: "rtState \<Rightarrow> rtState \<Rightarrow> bool" where
  "otherRounds rt rt' \<longleftrightarrow>
     (\<forall>g. g \<noteq> m_dnsSplitTunnelPrewarmGeneration rt' \<longrightarrow> length (lookupsOf g rt') \<le> length (lookupsOf g rt))"

lemma otherRounds_trans:
  "otherRounds a b \<Longrightarrow> otherRounds b c \<Longrightarrow>
   m_dnsSplitTunnelPrewarmGeneration c = m_dnsSplitTunnelPrewarmGeneration b \<Longrightarrow> otherRounds a c"
  unfolding otherRounds_def by (metis le_trans)

lemma otherRounds_same: "lookups rt' = lookups rt \<Longrightarrow> otherRounds rt rt'"
  by (simp add: otherRounds_def lookupsOf_def)

lemma prewarmOf_rounds: "prewarmOf rt' = prewarmOf rt \<Longrightarrow> otherRounds rt rt'"
  by (simp add: prewarmOf_def otherRounds_same)

lemma pump_rounds:
  "otherRounds rt (pumpDnsSplitTunnelPrewarm rt) \<and>
   m_dnsSplitTunnelPrewarmGeneration (pumpDnsSplitTunnelPrewarm rt) = m_dnsSplitTunnelPrewarmGeneration rt"
proof (induction rt rule: pumpDnsSplitTunnelPrewarm.induct)
  case (1 rt)
  show ?case
  proof (cases "m_dnsSplitTunnelPrewarmPending rt < kDnsSplitTunnelPrewarmConcurrency \<and> m_dnsSplitTunnelPrewarmQueue rt \<noteq> []")
    case False
    then have "pumpDnsSplitTunnelPrewarm rt = rt"
      by (subst pumpDnsSplitTunnelPrewarm.simps) (auto split: list.splits)
    then show ?thesis by (simp add: otherRounds_same)
  next
    case True
    then obtain host queue where queue: "m_dnsSplitTunnelPrewarmQueue rt = host # queue" by (cases "m_dnsSplitTunnelPrewarmQueue rt") auto
    define rt1 where "rt1 = rt\<lparr>m_dnsSplitTunnelPrewarmQueue := queue,
        m_dnsSplitTunnelPrewarmStarted := m_dnsSplitTunnelPrewarmStarted rt + 1,
        m_dnsSplitTunnelPrewarmPending := m_dnsSplitTunnelPrewarmPending rt + 1,
        lookups := lookups rt @ [(m_dnsSplitTunnelPrewarmGeneration rt, host)]\<rparr>"
    have "pumpDnsSplitTunnelPrewarm rt = pumpDnsSplitTunnelPrewarm rt1"
      using True queue by (subst pumpDnsSplitTunnelPrewarm.simps) (simp add: rt1_def)
    moreover have "otherRounds rt rt1" "m_dnsSplitTunnelPrewarmGeneration rt1 = m_dnsSplitTunnelPrewarmGeneration rt"
      by (simp_all add: otherRounds_def lookupsOf_def rt1_def)
    ultimately show ?thesis
      using "1.IH" [of host queue] True queue otherRounds_trans [of rt rt1] by (simp add: rt1_def)
  qed
qed

lemma pump_rounds_from: "lookups rt0 = lookups rt \<Longrightarrow> otherRounds rt (pumpDnsSplitTunnelPrewarm rt0)"
  using pump_rounds [of rt0] otherRounds_same [of rt0 rt] otherRounds_trans [of rt rt0] by blast

lemma start_rounds: "startDnsSplitTunnelPrewarm rules rt = Some rt' \<Longrightarrow> otherRounds rt rt'"
  by (auto simp: startDnsSplitTunnelPrewarm_def Let_def otherRounds_same pump_rounds_from split: if_splits option.splits)

lemma finish_rounds: "otherRounds rt (finishDnsSplitTunnelPrewarmHost env now g host addresses rt)"
proof -
  have lookups_update: "lookups (updateDnsSplitTunnelHostLeases env now host as rt0) = lookups rt0" for as rt0
    using prewarmOf_update [of env now host as rt0] unfolding prewarmOf_def by simp
  show ?thesis
    by (auto simp: finishDnsSplitTunnelPrewarmHost_def Let_def otherRounds_same lookups_update intro!: pump_rounds_from)
qed

lemma configure_rounds:
  assumes "configureDnsSplitTunnel env now rules g ks rt = Some (ok, rt')"
  shows "otherRounds rt rt'"
proof -
  define rt0 where "rt0 = (if m_dnsSplitTunnelGateway rt \<noteq> g \<or> m_dnsSplitTunnelRulesKey rt \<noteq> sort rules \<or> rules = []
       then clearDnsSplitTunnelLeases env rt else rt)
     \<lparr>m_dnsSplitTunnelGateway := g, m_dnsSplitTunnelKillSwitchEnabled := ks,
      m_dnsSplitTunnelRulesKey := sort rules, dnsUtilRules := rules\<rparr>"
  have "prewarmOf rt0 = prewarmOf rt" by (simp add: rt0_def)
  moreover from assms obtain rt1 where "seedDnsSplitTunnelLeasesFromCache env now rules rt0 = Some rt1"
    and start: "startDnsSplitTunnelPrewarm rules rt1 = Some rt'"
    unfolding configureDnsSplitTunnel_def Let_def rt0_def [symmetric] by (auto split: option.splits)
  ultimately have "prewarmOf rt1 = prewarmOf rt" by (simp add: prewarmOf_seed)
  then have "lookups rt1 = lookups rt" by (simp add: prewarmOf_def)
  then show ?thesis using start_rounds [OF start] by (simp add: otherRounds_def lookupsOf_def)
qed

lemma rtStep_rounds: "rtStep rt rt' \<Longrightarrow> otherRounds rt rt'"
proof (induction rule: rtStep.induct)
  case (lookupDone g host rt addresses env now)
  have "filter P (remove1 x xs) = remove1 x (filter P xs)" for P and x :: "int \<times> string" and xs by (rule filter_remove1)
  then have "length (lookupsOf g' (rt\<lparr>lookups := remove1 (g, host) (lookups rt)\<rparr>)) \<le> length (lookupsOf g' rt)" for g'
    by (simp add: lookupsOf_def length_remove1)
  then show ?case
    using finish_rounds [of "rt\<lparr>lookups := remove1 (g, host) (lookups rt)\<rparr>"] unfolding otherRounds_def by (meson le_trans)
qed (auto simp: configure_rounds prewarmOf_requests prewarmOf_rounds)

lemma rtReach_rounds: "rtReach rt \<Longrightarrow> length (lookupsOf g rt) \<le> 8"
proof (induction rule: rtReach.induct)
  case (step rt rt')
  have "prewarmInv rt'" by (rule rtReach_prewarm) (rule rtReach.step [OF step.hyps])
  then have "length (lookupsOf (m_dnsSplitTunnelPrewarmGeneration rt') rt') \<le> 8"
    by (simp add: prewarmInv_def prewarmCounts_def currentLookups_def lookupsOf_def kDnsSplitTunnelPrewarmConcurrency_def)
  moreover have "g \<noteq> m_dnsSplitTunnelPrewarmGeneration rt' \<Longrightarrow> length (lookupsOf g rt') \<le> length (lookupsOf g rt)"
    using rtStep_rounds [OF step.hyps(2)] by (simp add: otherRounds_def)
  ultimately show ?case using step.IH by (metis le_trans)
qed (simp add: rtState0_def lookupsOf_def)

section \<open>Leases\<close>

text \<open>An environment in which Qt reads every canonical address and the \<^verbatim>\<open>route\<close> command works.\<close>

definition routesWork :: "rtEnv \<Rightarrow> bool" where
  "routesWork env \<longleftrightarrow> (\<forall>ip. canonical ip \<longrightarrow> isIPv4 env ip) \<and> (\<forall>log cmd. routeExit env log cmd \<in> {0, EEXIST})"

lemma canonical_valid: "canonical ip \<Longrightarrow> isValidIpOrCidr ip"
  by (auto simp: canonical_def intro: valid_dotted)

lemma canonical_check:
  assumes "canonical ip" and "routesWork env"
  shows "checkIPv4Format (isIPv4 env) ip" and "ipAddressFromIpWithSubnet ip = ip" and "netMaskFromIpWithSubnet ip = hostMask"
proof -
  obtain a b c d where ip: "ip = dotted a b c d" using assms(1) by (auto simp: canonical_def)
  show "checkIPv4Format (isIPv4 env) ip"
    using assms by (simp add: checkIPv4Format_def routesWork_def ip)
  show "ipAddressFromIpWithSubnet ip = ip" "netMaskFromIpWithSubnet ip = hostMask"
    by (simp_all add: ip ipAddressFrom_plain netMask_plain)
qed

lemma routeAddTransient_works:
  assumes "routesWork env" and "canonical ip" and "checkIPv4Format (isIPv4 env) g"
  shows "fst (routeAddTransient env ip g rt)"
    and "m_dnsSplitTunnelIps (snd (routeAddTransient env ip g rt)) = m_dnsSplitTunnelIps rt"
    and "killSwitch (snd (routeAddTransient env ip g rt)) = killSwitch rt"
    and "m_dnsSplitTunnelGateway (snd (routeAddTransient env ip g rt)) = m_dnsSplitTunnelGateway rt"
    and "m_dnsSplitTunnelKillSwitchEnabled (snd (routeAddTransient env ip g rt)) = m_dnsSplitTunnelKillSwitchEnabled rt"
    and "routeLog (snd (routeAddTransient env ip g rt)) = routeLog rt @ [''route add -host '' @ ip @ '' '' @ g]"
proof -
  have "routeExit env log cmd = 0 \<or> routeExit env log cmd = EEXIST" for log cmd
    using assms(1) by (auto simp: routesWork_def)
  then show "fst (routeAddTransient env ip g rt)"
    and "routeLog (snd (routeAddTransient env ip g rt)) = routeLog rt @ [''route add -host '' @ ip @ '' '' @ g]"
    using assms(3) canonical_check [OF assms(2,1)]
    by (auto simp: routeAddTransient_def runRouteCommand_def routeText_def Let_def split: if_splits)
qed (simp_all add: routeAddTransient_def runRouteCommand_def Let_def)

lemma addMissing_works:
  assumes "routesWork env" and "list_all canonical ips" and "checkIPv4Format (isIPv4 env) (m_dnsSplitTunnelGateway rt)"
  shows "fst (addMissing env before ips rt) = filter (\<lambda>ip. ip \<notin> set before) ips \<and>
    set (m_dnsSplitTunnelIps (snd (addMissing env before ips rt))) = set (m_dnsSplitTunnelIps rt) \<union> (set ips - set before) \<and>
    killSwitch (snd (addMissing env before ips rt)) = killSwitch rt \<and>
    m_dnsSplitTunnelKillSwitchEnabled (snd (addMissing env before ips rt)) = m_dnsSplitTunnelKillSwitchEnabled rt \<and>
    m_dnsSplitTunnelGateway (snd (addMissing env before ips rt)) = m_dnsSplitTunnelGateway rt \<and>
    routeLog (snd (addMissing env before ips rt)) = routeLog rt @
      map (\<lambda>ip. ''route add -host '' @ ip @ '' '' @ m_dnsSplitTunnelGateway rt) (filter (\<lambda>ip. ip \<notin> set before) ips)"
  using assms(2,3)
proof (induction ips arbitrary: rt)
  case (Cons ip ips)
  show ?case
  proof (cases "ip \<in> set before")
    case False
    let ?rt = "snd (routeAddTransient env ip (m_dnsSplitTunnelGateway rt) rt)"
    have "canonical ip" using Cons.prems(1) by simp
    note add = routeAddTransient_works [OF assms(1) this Cons.prems(2), of rt]
    have "addMissing env before (ip # ips) rt =
        (ip # fst (addMissing env before ips (?rt\<lparr>m_dnsSplitTunnelIps := appendNew (m_dnsSplitTunnelIps ?rt) [ip]\<rparr>)),
         snd (addMissing env before ips (?rt\<lparr>m_dnsSplitTunnelIps := appendNew (m_dnsSplitTunnelIps ?rt) [ip]\<rparr>)))"
      using False add(1) by (simp add: case_prod_beta)
    then show ?thesis
      using Cons.IH [of "?rt\<lparr>m_dnsSplitTunnelIps := appendNew (m_dnsSplitTunnelIps ?rt) [ip]\<rparr>"] Cons.prems False
      by (auto simp: add)
  qed (use Cons in auto)
qed simp

lemma dropStale_keeps:
  "set (fst (dropStale env desired ips rt)) \<inter> set desired = {} \<and>
   set (m_dnsSplitTunnelIps rt) \<inter> set desired \<subseteq> set (m_dnsSplitTunnelIps (snd (dropStale env desired ips rt))) \<and>
   killSwitch (snd (dropStale env desired ips rt)) = killSwitch rt \<and>
   m_dnsSplitTunnelKillSwitchEnabled (snd (dropStale env desired ips rt)) = m_dnsSplitTunnelKillSwitchEnabled rt"
proof (induction ips arbitrary: rt)
  case (Cons ip ips)
  have frame: "m_dnsSplitTunnelIps (snd (routeDelete env ip g rt)) = m_dnsSplitTunnelIps rt"
      "killSwitch (snd (routeDelete env ip g rt)) = killSwitch rt"
      "m_dnsSplitTunnelKillSwitchEnabled (snd (routeDelete env ip g rt)) = m_dnsSplitTunnelKillSwitchEnabled rt" for g
    by (simp_all add: routeDelete_def runRouteCommand_def Let_def)
  let ?rt = "snd (routeDelete env ip (m_dnsSplitTunnelGateway rt) rt)"
  show ?case
    using Cons.IH [of rt] Cons.IH [of ?rt] Cons.IH [of "?rt\<lparr>m_dnsSplitTunnelIps := removeAll ip (m_dnsSplitTunnelIps ?rt)\<rparr>"]
    by (auto simp: case_prod_beta frame)
qed simp

text \<open>The host routes of an address via a gateway that the log asked for, oldest first.\<close>

definition routeCommands :: "string \<Rightarrow> string \<Rightarrow> string list \<Rightarrow> string list" where
  "routeCommands ip gateway log = filter (\<lambda>cmd. cmd \<in> {''route add -host '' @ ip @ '' '' @ gateway,
     ''route delete -host '' @ ip @ '' '' @ gateway}) log"

lemma routeCommands_append [simp]: "routeCommands ip g (xs @ ys) = routeCommands ip g xs @ routeCommands ip g ys"
  by (simp add: routeCommands_def)

lemma routeCommands_adds:
  "distinct ips \<Longrightarrow> routeCommands ip g (map (\<lambda>ip. ''route add -host '' @ ip @ '' '' @ g) ips) =
     (if ip \<in> set ips then [''route add -host '' @ ip @ '' '' @ g] else [])"
  by (induction ips) (auto simp: routeCommands_def)

lemma routeCommands_deletes:
  "ip \<notin> set ips \<Longrightarrow> routeCommands ip g (map (\<lambda>ip. ''route delete -host '' @ ip @ '' '' @ g) ips) = []"
  by (induction ips) (auto simp: routeCommands_def)

lemma dropStale_log:
  assumes "list_all canonical ips" and "routesWork env"
  shows "\<exists>ds. set ds \<inter> set desired = {} \<and> routeLog (snd (dropStale env desired ips rt)) = routeLog rt @
    map (\<lambda>ip. ''route delete -host '' @ ip @ '' '' @ m_dnsSplitTunnelGateway rt) ds"
  using assms(1)
proof (induction ips arbitrary: rt)
  case (Cons ip ips)
  let ?g = "m_dnsSplitTunnelGateway rt"
  let ?rt = "snd (routeDelete env ip ?g rt)"
  have canon: "canonical ip" "list_all canonical ips" using Cons.prems by simp_all
  have frame: "m_dnsSplitTunnelGateway ?rt = ?g" by (simp add: routeDelete_def runRouteCommand_def Let_def)
  have log: "routeLog ?rt = routeLog rt \<or> routeLog ?rt = routeLog rt @ [''route delete -host '' @ ip @ '' '' @ ?g]"
    using canonical_check(2,3) [OF canon(1) assms(2)]
    by (auto simp: routeDelete_def runRouteCommand_def routeText_def Let_def)
  show ?case
  proof (cases "ip \<in> set desired")
    case True
    then show ?thesis using Cons.IH [OF canon(2), of rt] by simp
  next
    case False
    define rt' where "rt' = (if fst (routeDelete env ip ?g rt) then ?rt\<lparr>m_dnsSplitTunnelIps := removeAll ip (m_dnsSplitTunnelIps ?rt)\<rparr> else ?rt)"
    have step: "snd (dropStale env desired (ip # ips) rt) = snd (dropStale env desired ips rt')"
      using False by (simp add: rt'_def case_prod_beta)
    have rt': "routeLog rt' = routeLog ?rt" "m_dnsSplitTunnelGateway rt' = ?g" by (simp_all add: rt'_def frame)
    obtain ds where ds: "set ds \<inter> set desired = {}" "routeLog (snd (dropStale env desired ips rt')) = routeLog ?rt @
        map (\<lambda>ip. ''route delete -host '' @ ip @ '' '' @ ?g) ds"
      using Cons.IH [OF canon(2), of rt'] unfolding rt' by blast
    from log show ?thesis
    proof
      assume "routeLog ?rt = routeLog rt"
      with ds show ?thesis unfolding step by auto
    next
      assume "routeLog ?rt = routeLog rt @ [''route delete -host '' @ ip @ '' '' @ ?g]"
      with ds False show ?thesis unfolding step by (intro exI [of _ "ip # ds"]) simp
    qed
  qed
qed simp

lemma set_activeIps: "set (activeIps ls) = (\<Union>kv \<in> set ls. fst ` set (snd kv))"
  by (induction ls rule: activeIps.induct) auto

lemma leaseAnswers_keys:
  "fst ` set (fst (leaseAnswers env now as leases cached)) =
     fst ` set leases \<union> address ` {a \<in> set as. checkIPv4Format (isIPv4 env) (address a)}"
  by (induction env now as leases cached rule: leaseAnswers.induct) (auto simp: keys_qinsert)

text \<open>The leases and the list of routed addresses only ever hold canonical addresses.\<close>

definition leaseInv :: "rtState \<Rightarrow> bool" where
  "leaseInv rt \<longleftrightarrow> qmapWf (m_dnsSplitTunnelHostLeases rt) \<and>
     list_all canonical (activeIps (m_dnsSplitTunnelHostLeases rt)) \<and>
     list_all canonical (m_dnsSplitTunnelIps rt)"

lemma set_qinsert: "qmapWf m \<Longrightarrow> set (qinsert k v m) = insert (k, v) {kv \<in> set m. fst kv \<noteq> k}"
proof (rule set_eqI)
  fix kv :: "string \<times> 'a"
  assume wf: "qmapWf m"
  obtain k' v' where kv: "kv = (k', v')" by (cases kv)
  show "kv \<in> set (qinsert k v m) \<longleftrightarrow> kv \<in> insert (k, v) {kv \<in> set m. fst kv \<noteq> k}"
    using qm.look_entries [OF qmapWf_qinsert [OF wf, of k v], of k' v'] qm.look_entries [OF wf, of k' v']
    by (auto simp: kv split: if_splits)
qed

lemma activeIps_qinsert:
  assumes "qmapWf m" and "fst ` set (qvalueDflt [] m h) \<subseteq> fst ` set l"
  shows "set (activeIps (qinsert h l m)) = set (activeIps m) \<union> fst ` set l"
proof -
  have "fst ` set l' \<subseteq> fst ` set l" if "(h, l') \<in> set m" for l'
    using that assms by (simp add: qvalueDflt_def qm.look_entries [OF assms(1), symmetric])
  then have "fst ` set (snd kv) \<subseteq> fst ` set l" if "kv \<in> set m" "fst kv = h" for kv
    using that by (metis prod.collapse)
  then have "set (activeIps m) \<union> fst ` set l = fst ` set l \<union> (\<Union>kv \<in> {kv \<in> set m. fst kv \<noteq> h}. fst ` set (snd kv))"
    unfolding set_activeIps by blast
  then show ?thesis
    using assms(1) by (simp add: set_qinsert set_activeIps)
qed

text \<open>An address is let through when the switch lists it and the filter has it in the table of its anchor.\<close>

definition letsThrough :: "ksState \<Rightarrow> string \<Rightarrow> bool" where
  "letsThrough ks r \<longleftrightarrow> r \<in> set (m_allowedRanges ks) \<and> ''110.allowNets'' \<in> loaded (pf ks) \<and>
     r \<in> entries ''110.allowNets'' ''allownets'' (pf ks)"

lemma reset_letsThrough:
  "works env \<Longrightarrow> list_all isValidIpOrCidr rs \<Longrightarrow> r \<in> set rs \<Longrightarrow> letsThrough (snd (resetAllowedRange env rs ks)) r"
  by (simp add: letsThrough_def resetAllowedRange_def Let_def works_def entries_def)

lemma add_letsThrough:
  assumes "works env" and "list_all isValidIpOrCidr rs" and "r \<in> set rs" and "ksInv ks"
  shows "letsThrough (snd (addAllowedRange env rs ks)) r"
proof -
  let ?rs = "fold (\<lambda>r acc. if r \<noteq> [] \<and> r \<notin> set acc then acc @ [r] else acc) rs (m_allowedRanges ks)"
  have "r \<in> set ?rs" using assms(2,3) valid_nonempty by (auto simp: set_addFold list_all_iff)
  moreover have "list_all isValidIpOrCidr ?rs" using assms(2,4) by (simp add: valid_addFold ksInv_def)
  ultimately show ?thesis using assms(1,2) by (simp add: addAllowedRange_def Let_def reset_letsThrough)
qed

lemma remove_letsThrough:
  assumes "works env" and "letsThrough ks r" and "r \<notin> set rs" and "ksInv ks"
  shows "letsThrough (snd (removeAllowedRange env rs ks)) r"
proof -
  have "r \<in> set (filter (\<lambda>r. r \<notin> set rs) (m_allowedRanges ks))" using assms(2,3) by (simp add: letsThrough_def)
  moreover have "list_all isValidIpOrCidr (filter (\<lambda>r. r \<notin> set rs) (m_allowedRanges ks))"
    using assms(4) by (auto simp: ksInv_def list_all_iff)
  ultimately show ?thesis using assms(1) by (simp only: removeAllowedRange_def Let_def fold_removeAll reset_letsThrough)
qed

text \<open>What the switch makes of an address when the split addresses change.\<close>

definition switchFollows :: "rtEnv \<Rightarrow> bool \<Rightarrow> string \<Rightarrow> ksState \<Rightarrow> ksState \<Rightarrow> bool" where
  "switchFollows env known ip ks ks' \<longleftrightarrow>
     (if known then (ip \<in> set (m_allowedRanges ks') \<longleftrightarrow> ip \<in> set (m_allowedRanges ks))
      else ip \<in> set (m_allowedRanges ks') \<and> (works (pfEnv env) \<longrightarrow> letsThrough ks' ip))"

lemma switch_follows:
  assumes "m_dnsSplitTunnelKillSwitchEnabled rt" and "ksInv (killSwitch rt)" and "list_all isValidIpOrCidr added"
    and "ip \<notin> set removed"
  shows "switchFollows env (ip \<notin> set added) ip (killSwitch rt) (killSwitch (disallowRemoved env removed (allowAdded env added rt)))"
proof -
  let ?ks = "snd (addAllowedRange (pfEnv env) added (killSwitch rt))"
  have inv: "ksInv ?ks" using assms(2) by (rule ksInv_addAllowedRange)
  have add: "set (m_allowedRanges ?ks) = set (m_allowedRanges (killSwitch rt)) \<union> set added"
    using addAllowedRange_ranges [OF assms(3,2), of "pfEnv env"] assms(3) valid_nonempty by (auto simp: list_all_iff)
  show ?thesis
  proof (cases "ip \<in> set added")
    case True
    then have "added \<noteq> []" by auto
    moreover have "works (pfEnv env) \<Longrightarrow> letsThrough ?ks ip" using add_letsThrough [OF _ assms(3) True assms(2)] .
    ultimately show ?thesis
      using True assms(1,4) add inv remove_letsThrough [of "pfEnv env" ?ks ip removed]
      by (simp add: switchFollows_def disallowRemoved_def allowAdded_def removeAllowedRange_ranges)
  next
    case False
    then show ?thesis
      using assms(1,2,4) add inv
      by (simp add: switchFollows_def disallowRemoved_def allowAdded_def removeAllowedRange_ranges)
  qed
qed

text \<open>A canonical answer is leased, routed and let through.\<close>

lemma sync_works:
  fixes rt :: rtState
  defines "desired \<equiv> set (activeIps (m_dnsSplitTunnelHostLeases rt))" and "before \<equiv> m_dnsSplitTunnelIps rt"
    and "g \<equiv> m_dnsSplitTunnelGateway rt"
  assumes "routesWork env" and "checkIPv4Format (isIPv4 env) g" and "leaseInv rt"
  shows "desired \<subseteq> set (m_dnsSplitTunnelIps (syncDnsSplitTunnelIps env before rt))"
    and "ip \<in> desired \<Longrightarrow> routeCommands ip g (routeLog (syncDnsSplitTunnelIps env before rt)) =
      routeCommands ip g (routeLog rt) @ (if ip \<in> set before then [] else [''route add -host '' @ ip @ '' '' @ g])"
    and "m_dnsSplitTunnelKillSwitchEnabled rt \<Longrightarrow> ksInv (killSwitch rt) \<Longrightarrow> ip \<in> desired \<Longrightarrow>
      switchFollows env (ip \<in> set before) ip (killSwitch rt) (killSwitch (syncDnsSplitTunnelIps env before rt))"
proof -
  define ips where "ips = activeDnsSplitTunnelIps rt"
  have set_ips: "set ips = desired" and dist: "distinct ips"
    by (simp_all add: ips_def activeDnsSplitTunnelIps_def desired_def)
  have canon: "list_all canonical ips" "list_all canonical before"
    using assms(6) set_ips by (auto simp: leaseInv_def list_all_iff desired_def before_def)
  define rt1 where "rt1 = snd (addMissing env before ips rt)"
  define added where "added = filter (\<lambda>ip. ip \<notin> set before) ips"
  define rt2 removed where "rt2 = snd (dropStale env ips before rt1)"
    and "removed = fst (dropStale env ips before rt1)"
  note add = addMissing_works [OF assms(4) canon(1) assms(5) [unfolded g_def], of before, folded rt1_def added_def g_def]
  note drop = dropStale_keeps [of env ips before rt1, folded rt2_def removed_def]
  have sync: "syncDnsSplitTunnelIps env before rt = disallowRemoved env removed (allowAdded env added rt2)"
    using add by (simp add: syncDnsSplitTunnelIps_def ips_def [symmetric] Let_def case_prod_beta rt1_def rt2_def removed_def)
  have "set ips \<subseteq> set (m_dnsSplitTunnelIps rt2)" using add drop before_def by auto
  then show "desired \<subseteq> set (m_dnsSplitTunnelIps (syncDnsSplitTunnelIps env before rt))"
    unfolding sync set_ips [symmetric] by (simp add: allowAdded_def disallowRemoved_def)
  obtain ds where ds: "set ds \<inter> set ips = {}"
      "routeLog rt2 = routeLog rt1 @ map (\<lambda>ip. ''route delete -host '' @ ip @ '' '' @ g) ds"
    using dropStale_log [OF canon(2) assms(4), of ips rt1] add unfolding rt2_def by auto
  have log: "routeLog (syncDnsSplitTunnelIps env before rt) = routeLog rt @
      map (\<lambda>ip. ''route add -host '' @ ip @ '' '' @ g) added @ map (\<lambda>ip. ''route delete -host '' @ ip @ '' '' @ g) ds"
    unfolding sync using add ds(2) by (simp add: disallowRemoved_def allowAdded_def)
  have "distinct added" using dist by (simp add: added_def)
  note adds = routeCommands_adds [OF this, of ip g]
  { assume "ip \<in> desired"
    then have "ip \<in> set added \<longleftrightarrow> ip \<notin> set before" "ip \<notin> set ds" "ip \<notin> set removed"
      using ds(1) drop set_ips by (auto simp: added_def) }
  note ip = this
  show "routeCommands ip g (routeLog (syncDnsSplitTunnelIps env before rt)) =
      routeCommands ip g (routeLog rt) @ (if ip \<in> set before then [] else [''route add -host '' @ ip @ '' '' @ g])" if "ip \<in> desired"
    unfolding log routeCommands_append adds using ip [OF that] routeCommands_deletes [of ip ds g] by simp
  assume en: "m_dnsSplitTunnelKillSwitchEnabled rt" and inv: "ksInv (killSwitch rt)" and "ip \<in> desired"
  have "list_all isValidIpOrCidr added"
    using canon(1) by (auto simp: added_def list_all_iff intro: canonical_valid)
  then show "switchFollows env (ip \<in> set before) ip (killSwitch rt) (killSwitch (syncDnsSplitTunnelIps env before rt))"
    unfolding sync using switch_follows [of rt2 added ip removed env] en inv add drop ip [OF \<open>ip \<in> desired\<close>] by simp
qed

lemma update_leases:
  fixes env now host cached
  assumes "leaseInv rt" and "\<forall>a \<in> set answers. canonical (address a)"
  defines "ls \<equiv> fst (leaseAnswers env now answers (qvalueDflt [] (m_dnsSplitTunnelHostLeases rt) host) cached)"
  shows "leaseInv (rt\<lparr>m_dnsSplitTunnelHostLeases := qinsert host ls (m_dnsSplitTunnelHostLeases rt),
      m_dnsSplitTunnelHostCache := c\<rparr>)"
    and "set (activeIps (qinsert host ls (m_dnsSplitTunnelHostLeases rt))) =
      set (activeIps (m_dnsSplitTunnelHostLeases rt)) \<union>
      address ` {a \<in> set answers. checkIPv4Format (isIPv4 env) (address a)}"
proof -
  let ?old = "qvalueDflt [] (m_dnsSplitTunnelHostLeases rt) host"
  have wf: "qmapWf (m_dnsSplitTunnelHostLeases rt)" using assms(1) by (simp add: leaseInv_def)
  have keys: "fst ` set ls = fst ` set ?old \<union> address ` {a \<in> set answers. checkIPv4Format (isIPv4 env) (address a)}"
    by (simp add: ls_def leaseAnswers_keys)
  have old: "fst ` set ?old \<subseteq> set (activeIps (m_dnsSplitTunnelHostLeases rt))"
  proof (cases "qvalue (m_dnsSplitTunnelHostLeases rt) host")
    case (Some l)
    then have "(host, l) \<in> set (m_dnsSplitTunnelHostLeases rt)" using qm.look_entries [OF wf] by simp
    with Some show ?thesis by (force simp: qvalueDflt_def set_activeIps)
  qed (simp add: qvalueDflt_def)
  show new: "set (activeIps (qinsert host ls (m_dnsSplitTunnelHostLeases rt))) =
      set (activeIps (m_dnsSplitTunnelHostLeases rt)) \<union>
      address ` {a \<in> set answers. checkIPv4Format (isIPv4 env) (address a)}"
    using activeIps_qinsert [OF wf, of host ls] keys old by auto
  show "leaseInv (rt\<lparr>m_dnsSplitTunnelHostLeases := qinsert host ls (m_dnsSplitTunnelHostLeases rt),
      m_dnsSplitTunnelHostCache := c\<rparr>)"
    using assms(1,2) new by (auto simp: leaseInv_def list_all_iff qmapWf_qinsert)
qed

section \<open>The lease invariant in every reachable state\<close>

definition leaseOf :: "rtState \<Rightarrow> int qmap qmap \<times> dnsIpv4Answer list qmap \<times> string list" where
  "leaseOf rt = (m_dnsSplitTunnelHostLeases rt, m_dnsSplitTunnelHostCache rt, m_dnsSplitTunnelIps rt)"

definition cacheInv :: "dnsIpv4Answer list qmap \<Rightarrow> bool" where
  "cacheInv cache \<longleftrightarrow> qmapWf cache \<and> (\<forall>(h, as) \<in> set cache. \<forall>a \<in> set as. canonical (address a))"

definition rtInv :: "rtState \<Rightarrow> bool" where
  "rtInv rt \<longleftrightarrow> leaseInv rt \<and> cacheInv (m_dnsSplitTunnelHostCache rt) \<and> ksInv (killSwitch rt)"

lemma leaseOf_routes [simp]:
  "leaseOf (snd (routeAdd env ip g rt)) = leaseOf rt" "killSwitch (snd (routeAdd env ip g rt)) = killSwitch rt"
  "leaseOf (snd (routeAddTransient env ip g rt)) = leaseOf rt"
  "killSwitch (snd (routeAddTransient env ip g rt)) = killSwitch rt"
  "leaseOf (snd (routeDelete env ip g rt)) = leaseOf rt" "killSwitch (snd (routeDelete env ip g rt)) = killSwitch rt"
  by (simp_all add: leaseOf_def routeAdd_def routeAddTransient_def routeDelete_def runRouteCommand_def Let_def)

lemma leaseOf_inv: "leaseOf rt = leaseOf rt' \<Longrightarrow> killSwitch rt = killSwitch rt' \<Longrightarrow> rtInv rt = rtInv rt'"
  by (simp add: leaseOf_def rtInv_def leaseInv_def)

lemma deleteRoutes_frame [simp]:
  "leaseOf (snd (deleteRoutes env rs rt)) = leaseOf rt" "killSwitch (snd (deleteRoutes env rs rt)) = killSwitch rt"
  by (induction rs arbitrary: rt) (simp_all add: case_prod_beta)

lemma routeAddList_frame [simp]:
  "leaseOf (snd (routeAddList env g ips rt)) = leaseOf rt" "killSwitch (snd (routeAddList env g ips rt)) = killSwitch rt"
  by (induction ips arbitrary: rt) (simp_all add: case_prod_beta)

text \<open>Synchronising keeps the invariant, whatever the \<^verbatim>\<open>route\<close> command does.\<close>

lemma rtInv_ips:
  "rtInv rt \<Longrightarrow> list_all canonical ips \<Longrightarrow> rtInv (rt\<lparr>m_dnsSplitTunnelIps := ips\<rparr>)"
  by (simp add: rtInv_def leaseInv_def)

lemma leases_of [simp]:
  "m_dnsSplitTunnelHostLeases (snd (routeAddTransient env ip g rt)) = m_dnsSplitTunnelHostLeases rt"
  "m_dnsSplitTunnelIps (snd (routeAddTransient env ip g rt)) = m_dnsSplitTunnelIps rt"
  "m_dnsSplitTunnelHostLeases (snd (routeDelete env ip g rt)) = m_dnsSplitTunnelHostLeases rt"
  "m_dnsSplitTunnelIps (snd (routeDelete env ip g rt)) = m_dnsSplitTunnelIps rt"
  "m_dnsSplitTunnelHostCache (snd (routeAddTransient env ip g rt)) = m_dnsSplitTunnelHostCache rt"
  "m_dnsSplitTunnelHostCache (snd (routeDelete env ip g rt)) = m_dnsSplitTunnelHostCache rt"
  using leaseOf_routes(3) [of env ip g rt] leaseOf_routes(5) [of env ip g rt] unfolding leaseOf_def by simp_all

lemma rtInv_routes [simp]:
  "rtInv (snd (routeAddTransient env ip g rt)) = rtInv rt" "rtInv (snd (routeDelete env ip g rt)) = rtInv rt"
  by (rule leaseOf_inv; simp)+

lemma addMissing_inv:
  assumes "rtInv rt" and "list_all canonical ips"
  shows "rtInv (snd (addMissing env before ips rt))"
  using assms
proof (induction ips arbitrary: rt)
  case (Cons ip ips)
  let ?rt = "snd (routeAddTransient env ip (m_dnsSplitTunnelGateway rt) rt)"
  have "rtInv (?rt\<lparr>m_dnsSplitTunnelIps := appendNew (m_dnsSplitTunnelIps ?rt) [ip]\<rparr>)"
    using Cons.prems by (intro rtInv_ips) (auto simp: rtInv_def leaseInv_def list_all_iff)
  then show ?case
    using Cons.IH [of ?rt] Cons.IH [of "?rt\<lparr>m_dnsSplitTunnelIps := appendNew (m_dnsSplitTunnelIps ?rt) [ip]\<rparr>"]
      Cons.IH [of rt] Cons.prems
    by (auto simp: case_prod_beta)
qed simp

lemma dropStale_inv: "rtInv rt \<Longrightarrow> rtInv (snd (dropStale env desired ips rt))"
proof (induction ips arbitrary: rt)
  case (Cons ip ips)
  let ?rt = "snd (routeDelete env ip (m_dnsSplitTunnelGateway rt) rt)"
  have "rtInv (?rt\<lparr>m_dnsSplitTunnelIps := removeAll ip (m_dnsSplitTunnelIps ?rt)\<rparr>)"
    using Cons.prems by (intro rtInv_ips) (auto simp: rtInv_def leaseInv_def list_all_iff)
  then show ?case
    using Cons.IH [of ?rt] Cons.IH [of "?rt\<lparr>m_dnsSplitTunnelIps := removeAll ip (m_dnsSplitTunnelIps ?rt)\<rparr>"]
      Cons.IH [of rt] Cons.prems
    by (auto simp: case_prod_beta)
qed simp

lemma rtInv_killSwitch: "rtInv rt \<Longrightarrow> ksInv k \<Longrightarrow> rtInv (rt\<lparr>killSwitch := k\<rparr>)"
  by (simp add: rtInv_def leaseInv_def)

lemma sync_inv: "rtInv rt \<Longrightarrow> rtInv (syncDnsSplitTunnelIps env before rt)"
proof -
  assume inv: "rtInv rt"
  let ?rt1 = "snd (addMissing env before (activeDnsSplitTunnelIps rt) rt)"
  let ?rt2 = "snd (dropStale env (activeDnsSplitTunnelIps rt) before ?rt1)"
  have "rtInv ?rt2"
    using inv by (intro dropStale_inv addMissing_inv)
      (auto simp: activeDnsSplitTunnelIps_def rtInv_def leaseInv_def list_all_iff)
  moreover from this have "ksInv (killSwitch ?rt2)" by (simp add: rtInv_def)
  ultimately show ?thesis
    by (auto simp: syncDnsSplitTunnelIps_def allowAdded_def disallowRemoved_def Let_def case_prod_beta
        intro!: rtInv_killSwitch ksInv_addAllowedRange ksInv_removeAllowedRange)
qed

lemma schedule_inv [simp]: "rtInv (scheduleDnsSplitTunnelLeaseTimer now rt) = rtInv rt"
  by (rule leaseOf_inv) (simp_all add: scheduleDnsSplitTunnelLeaseTimer_def leaseOf_def)

lemma leaseAnswers_cache:
  "set (snd (leaseAnswers env now as leases cached)) \<subseteq> set cached \<union> set as"
  by (induction env now as leases cached rule: leaseAnswers.induct) auto

lemma cacheInv_insert:
  "cacheInv cache \<Longrightarrow> \<forall>a \<in> set as. canonical (address a) \<Longrightarrow> cacheInv (qinsert h as cache)"
  by (auto simp: cacheInv_def qmapWf_qinsert set_qinsert)

lemma cacheInv_value: "cacheInv cache \<Longrightarrow> a \<in> set (qvalueDflt [] cache h) \<Longrightarrow> canonical (address a)"
proof (cases "qvalue cache h")
  case (Some as)
  assume inv: "cacheInv cache" and a: "a \<in> set (qvalueDflt [] cache h)"
  have "(h, as) \<in> set cache" using Some inv by (simp add: qm.look_entries cacheInv_def)
  with inv a Some show ?thesis by (auto simp: cacheInv_def qvalueDflt_def)
qed (simp add: qvalueDflt_def)

lemma update_inv:
  assumes "rtInv rt" and "\<forall>a \<in> set answers. canonical (address a)"
  shows "rtInv (updateDnsSplitTunnelHostLeases env now host answers rt)"
proof -
  obtain ls cs where lc: "leaseAnswers env now answers (qvalueDflt [] (m_dnsSplitTunnelHostLeases rt) host)
      (qvalueDflt [] (m_dnsSplitTunnelHostCache rt) host) = (ls, cs)" by (meson surj_pair)
  define rt1 where "rt1 = rt\<lparr>m_dnsSplitTunnelHostLeases := qinsert host ls (m_dnsSplitTunnelHostLeases rt),
      m_dnsSplitTunnelHostCache := qinsert host cs (m_dnsSplitTunnelHostCache rt)\<rparr>"
  have "leaseInv rt1"
    using update_leases(1) [of rt answers, where env = env and now = now and host = host
        and cached = "qvalueDflt [] (m_dnsSplitTunnelHostCache rt) host"] assms
    by (simp add: lc rt1_def rtInv_def)
  moreover have "\<forall>a \<in> set cs. canonical (address a)"
    using leaseAnswers_cache [of env now answers "qvalueDflt [] (m_dnsSplitTunnelHostLeases rt) host"
        "qvalueDflt [] (m_dnsSplitTunnelHostCache rt) host"] assms cacheInv_value
    by (fastforce simp: lc rtInv_def)
  ultimately have "rtInv rt1"
    using assms(1) by (simp add: rtInv_def rt1_def cacheInv_insert)
  then show ?thesis
    using assms(1) by (simp add: updateDnsSplitTunnelHostLeases_def Let_def lc sync_inv rt1_def)
qed

lemma clear_inv: "rtInv rt \<Longrightarrow> rtInv (clearDnsSplitTunnelLeases env rt)"
proof -
  assume inv: "rtInv rt"
  have "m_dnsSplitTunnelHostCache (snd (deleteRoutes env rs rt)) = m_dnsSplitTunnelHostCache rt" for rs and rt :: rtState
    using deleteRoutes_frame(1) [of env rs rt] unfolding leaseOf_def by simp
  with inv show ?thesis
    by (auto simp: clearDnsSplitTunnelLeases_def routeDeleteList_def Let_def case_prod_beta rtInv_def leaseInv_def
        intro!: ksInv_removeAllowedRange)
qed

lemma seedHosts_inv:
  assumes "seedHosts env now rules cache n ls = Some (n', ls')"
    and "\<forall>(h, as) \<in> set cache. \<forall>a \<in> set as. canonical (address a)"
    and "qmapWf ls" and "list_all canonical (activeIps ls)"
  shows "qmapWf ls' \<and> list_all canonical (activeIps ls')"
  using assms
proof (induction env now rules cache n ls rule: seedHosts.induct)
  case (2 env now rules host answers cache n ls)
  let ?leases = "fold (\<lambda>a. qinsert (address a) (now + qBound 1 (ttlSeconds a) 86400))
      (filter (\<lambda>a. checkIPv4Format (isIPv4 env) (address a)) answers) []"
  have keys: "fst ` set (fold (\<lambda>a. qinsert (address a) (f a)) as m) = fst ` set m \<union> address ` set as"
    for f :: "dnsIpv4Answer \<Rightarrow> int" and as and m
    by (induction as arbitrary: m) (auto simp: keys_qinsert)
  have "qmapWf (qinsert host ?leases ls)" using "2.prems" by (simp add: qmapWf_qinsert)
  moreover have "list_all canonical (activeIps (qinsert host ?leases ls))"
    using "2.prems" keys [of _ "filter (\<lambda>a. checkIPv4Format (isIPv4 env) (address a)) answers" "[]"]
    by (auto simp: list_all_iff set_activeIps set_qinsert)
  ultimately show ?case
    using 2 by (auto simp: Let_def split: option.splits bool.splits if_splits)
qed simp

lemma seed_inv:
  assumes "rtInv rt" and "seedDnsSplitTunnelLeasesFromCache env now rules rt = Some rt'"
  shows "rtInv rt'"
proof -
  have "rtInv (rt\<lparr>m_dnsSplitTunnelHostLeases := ls\<rparr>)"
    if "seedHosts env now rules (m_dnsSplitTunnelHostCache rt) 0 (m_dnsSplitTunnelHostLeases rt) = Some (n, ls)" for n ls
    using seedHosts_inv [OF that] assms(1) by (auto simp: rtInv_def cacheInv_def leaseInv_def)
  then show ?thesis
    using assms by (auto simp: seedDnsSplitTunnelLeasesFromCache_def Let_def sync_inv split: if_splits option.splits)
qed

lemma rtInv_fields [simp]:
  "rtInv (rt\<lparr>m_dnsSplitTunnelGateway := g\<rparr>) = rtInv rt" "rtInv (rt\<lparr>m_dnsSplitTunnelKillSwitchEnabled := k\<rparr>) = rtInv rt"
  "rtInv (rt\<lparr>m_dnsSplitTunnelRulesKey := r\<rparr>) = rtInv rt" "rtInv (rt\<lparr>dnsUtilRules := r\<rparr>) = rtInv rt"
  "rtInv (rt\<lparr>m_dnsSplitTunnelPrewarmSucceeded := n\<rparr>) = rtInv rt" "rtInv (rt\<lparr>m_dnsSplitTunnelPrewarmFailed := n\<rparr>) = rtInv rt"
  "rtInv (rt\<lparr>m_dnsSplitTunnelPrewarmPending := n\<rparr>) = rtInv rt" "rtInv (rt\<lparr>m_dnsSplitTunnelPrewarmFinished := n\<rparr>) = rtInv rt"
  "rtInv (rt\<lparr>m_dnsSplitTunnelPrewarmStarted := n\<rparr>) = rtInv rt" "rtInv (rt\<lparr>m_dnsSplitTunnelPrewarmTotal := n\<rparr>) = rtInv rt"
  "rtInv (rt\<lparr>m_dnsSplitTunnelPrewarmGeneration := n\<rparr>) = rtInv rt" "rtInv (rt\<lparr>m_dnsSplitTunnelPrewarmQueue := q\<rparr>) = rtInv rt"
  "rtInv (rt\<lparr>lookups := l\<rparr>) = rtInv rt"
  "rtInv (rt\<lparr>m_dnsSplitTunnelLeaseTimer := ti\<rparr>) = rtInv rt" "rtInv (rt\<lparr>m_addedRoutes := ro\<rparr>) = rtInv rt"
  "rtInv (rt\<lparr>routeLog := lg\<rparr>) = rtInv rt"
  by (simp_all add: rtInv_def leaseInv_def)

lemma pump_rtInv [simp]: "rtInv (pumpDnsSplitTunnelPrewarm rt) = rtInv rt"
proof (induction rt rule: pumpDnsSplitTunnelPrewarm.induct)
  case (1 rt)
  then show ?case
    by (subst pumpDnsSplitTunnelPrewarm.simps) (auto split: list.splits)
qed

lemma configure_rtInv:
  assumes "rtInv rt" and "configureDnsSplitTunnel env now rules g ks rt = Some (ok, rt')"
  shows "rtInv rt'"
proof -
  define rt0 where "rt0 = (if m_dnsSplitTunnelGateway rt \<noteq> g \<or> m_dnsSplitTunnelRulesKey rt \<noteq> sort rules \<or> rules = []
       then clearDnsSplitTunnelLeases env rt else rt)
     \<lparr>m_dnsSplitTunnelGateway := g, m_dnsSplitTunnelKillSwitchEnabled := ks,
      m_dnsSplitTunnelRulesKey := sort rules, dnsUtilRules := rules\<rparr>"
  have "rtInv rt0" using assms(1) by (simp add: rt0_def clear_inv)
  moreover from assms(2) obtain rt1 where seed: "seedDnsSplitTunnelLeasesFromCache env now rules rt0 = Some rt1"
    and start: "startDnsSplitTunnelPrewarm rules rt1 = Some rt'"
    unfolding configureDnsSplitTunnel_def Let_def rt0_def [symmetric] by (auto split: option.splits)
  ultimately have "rtInv rt1" by (simp add: seed_inv)
  with start show ?thesis
    by (auto simp: startDnsSplitTunnelPrewarm_def Let_def split: if_splits option.splits)
qed

lemma rtStep_inv: "rtStep rt rt' \<Longrightarrow> rtInv rt \<Longrightarrow> rtInv rt'"
proof (induction rule: rtStep.induct)
  case (lookupDone g host rt addresses env now)
  then show ?case
    by (auto simp: finishDnsSplitTunnelPrewarmHost_def Let_def list_all_iff intro!: update_inv)
next
  case (hostResolved answers rt env now host)
  then show ?case
    by (intro update_inv) (auto simp: answersOk_def answerOk_def canonical_def)
next
  case (killSwitchRequest rt is4 penv op)
  then show ?case by (simp add: rtInv_def leaseInv_def ksInv_step)
next
  case (addRoutes rt env g ips)
  then show ?case using leaseOf_inv [OF routeAddList_frame] by blast
qed (auto simp: configure_rtInv expireDnsSplitTunnelLeases_def routeDeleteList_def clearSavedRoutes_def case_prod_beta
    routeAddXray_def routeDeleteXray_def runRouteCommand_def Let_def leaseOf_inv [OF deleteRoutes_frame])

lemma rtReach_inv: "rtReach rt \<Longrightarrow> rtInv rt"
proof (induction rule: rtReach.induct)
  case (start is4 k)
  then show ?case by (simp add: rtState0_def rtInv_def leaseInv_def cacheInv_def ksReach_inv)
qed (rule rtStep_inv)

section \<open>Correctness of the router\<close>

lemma router_start: "rtReach (rtState0 (ksState0 False))"
  using ksReach.start [of "\<lambda>_. True" exampleEnv False]
  by (intro rtReach.start) (simp add: ksInit_def isStrictKillSwitchEnabled_def ksState0_def)

text \<open>C36. Prewarming keeps its books in every reachable state: of no round, current or older, are more than eight look-ups
  under way, the counter of pending look-ups is the number of those of the current round, hosts wait only while eight of
  them run, and the counters of succeeded, failed, pending and waiting look-ups add up to the total of the round. (The
  limit is per round: look-ups of an older round may still be under way beside those of the current one.)\<close>

theorem prewarm_bounded:
  assumes "rtReach rt"
  shows "(\<forall>g. length (lookupsOf g rt) \<le> 8) \<and>
    m_dnsSplitTunnelPrewarmPending rt = int (length (lookupsOf (m_dnsSplitTunnelPrewarmGeneration rt) rt)) \<and>
    (m_dnsSplitTunnelPrewarmQueue rt \<noteq> [] \<longrightarrow> length (lookupsOf (m_dnsSplitTunnelPrewarmGeneration rt) rt) = 8) \<and>
    m_dnsSplitTunnelPrewarmTotal rt = m_dnsSplitTunnelPrewarmSucceeded rt + m_dnsSplitTunnelPrewarmFailed rt +
      m_dnsSplitTunnelPrewarmPending rt + int (length (m_dnsSplitTunnelPrewarmQueue rt))"
  using rtReach_prewarm [OF assms] rtReach_rounds [OF assms]
  by (auto simp: prewarmInv_def prewarmCounts_def currentLookups_def lookupsOf_def kDnsSplitTunnelPrewarmConcurrency_def)

definition exampleRouterEnv :: rtEnv where
  "exampleRouterEnv = \<lparr>isIPv4 = (\<lambda>_. True), routeExit = (\<lambda>_ _. 0), pfEnv = exampleEnv\<rparr>"

lemma examplePrewarm_hosts: "prewarmHosts [''ya.ru''] = Some [''ya.ru'']"
  by code_simp

lemma examplePrewarm:
  "\<exists>rt. configureDnsSplitTunnel exampleRouterEnv 0 [''ya.ru''] ''192.168.1.1'' True (rtState0 (ksState0 False)) = Some (True, rt) \<and>
     lookups rt = [(1, ''ya.ru'')] \<and> m_dnsSplitTunnelPrewarmGeneration rt = 1"
  by (simp add: configureDnsSplitTunnel_def seedDnsSplitTunnelLeasesFromCache_def startDnsSplitTunnelPrewarm_def
      clearDnsSplitTunnelLeases_def examplePrewarm_hosts rtState0_def removeDuplicates_def Let_def
      pumpDnsSplitTunnelPrewarm.simps kDnsSplitTunnelPrewarmConcurrency_def del: prewarmHosts.simps)

theorem prewarm_bounded_witness:
  "\<exists>rt. rtReach rt \<and> lookups rt = [(1, ''ya.ru'')] \<and> m_dnsSplitTunnelPrewarmPending rt = 1"
proof -
  obtain rt where rt: "configureDnsSplitTunnel exampleRouterEnv 0 [''ya.ru''] ''192.168.1.1'' True (rtState0 (ksState0 False)) = Some (True, rt)"
    "lookups rt = [(1, ''ya.ru'')]" "m_dnsSplitTunnelPrewarmGeneration rt = 1"
    using examplePrewarm by blast
  have reach: "rtReach rt" by (rule rtReach.step [OF router_start rtStep.configure [OF rt(1)]])
  with rt(2,3) show ?thesis using prewarm_bounded [OF reach] by (auto simp: lookupsOf_def)
qed

text \<open>Prewarming always finishes its round: once no look-up of the current round is under way, no
  host is left waiting and every host of the round has been counted as finished.\<close>

theorem prewarm_completes:
  assumes "rtReach rt" and "currentLookups rt = []"
  shows "m_dnsSplitTunnelPrewarmQueue rt = [] \<and>
    m_dnsSplitTunnelPrewarmFinished rt = m_dnsSplitTunnelPrewarmTotal rt"
  using rtReach_prewarm [OF assms(1)] assms(2)
  by (auto simp: prewarmInv_def prewarmCounts_def kDnsSplitTunnelPrewarmConcurrency_def)

theorem prewarm_completes_witness: "m_dnsSplitTunnelPrewarmQueue (rtState0 (ksState0 False)) = []"
  using prewarm_completes [OF router_start] by (simp add: currentLookups_def rtState0_def)

text \<open>An answer for a split host is routed and allowed.\<close>

lemma update_routes:
  assumes "routesWork env" and "checkIPv4Format (isIPv4 env) (m_dnsSplitTunnelGateway rt)"
    and "rtReach rt" and "answersOk answers" and "a \<in> set answers"
    and "rt' = updateDnsSplitTunnelHostLeases env now host answers rt"
  shows "address a \<in> set (m_dnsSplitTunnelIps rt') \<and>
    routeCommands (address a) (m_dnsSplitTunnelGateway rt) (routeLog rt') =
      routeCommands (address a) (m_dnsSplitTunnelGateway rt) (routeLog rt) @
      (if address a \<in> set (m_dnsSplitTunnelIps rt) then []
       else [''route add -host '' @ address a @ '' '' @ m_dnsSplitTunnelGateway rt]) \<and>
    (m_dnsSplitTunnelKillSwitchEnabled rt \<longrightarrow>
       switchFollows env (address a \<in> set (m_dnsSplitTunnelIps rt)) (address a) (killSwitch rt) (killSwitch rt'))"
proof -
  have inv: "leaseInv rt" "ksInv (killSwitch rt)" using rtReach_inv [OF assms(3)] by (simp_all add: rtInv_def)
  have canon: "\<forall>a \<in> set answers. canonical (address a)"
    using assms(4) by (auto simp: answersOk_def answerOk_def canonical_def)
  obtain ls cs where lc: "leaseAnswers env now answers (qvalueDflt [] (m_dnsSplitTunnelHostLeases rt) host)
      (qvalueDflt [] (m_dnsSplitTunnelHostCache rt) host) = (ls, cs)" by (meson surj_pair)
  define rt1 where "rt1 = rt\<lparr>m_dnsSplitTunnelHostLeases := qinsert host ls (m_dnsSplitTunnelHostLeases rt),
      m_dnsSplitTunnelHostCache := qinsert host cs (m_dnsSplitTunnelHostCache rt)\<rparr>"
  have inv1: "leaseInv rt1"
    using update_leases(1) [OF inv(1) canon, where env = env and now = now and host = host
        and cached = "qvalueDflt [] (m_dnsSplitTunnelHostCache rt) host"]
    by (simp add: lc rt1_def)
  have active: "address a \<in> set (activeIps (m_dnsSplitTunnelHostLeases rt1))"
    using update_leases(2) [OF inv(1) canon, where env = env and now = now and host = host
        and cached = "qvalueDflt [] (m_dnsSplitTunnelHostCache rt) host"]
      canonical_check(1) [OF _ assms(1)] canon assms(5) by (auto simp: lc rt1_def)
  have fields: "m_dnsSplitTunnelGateway rt1 = m_dnsSplitTunnelGateway rt" "m_dnsSplitTunnelIps rt1 = m_dnsSplitTunnelIps rt"
      "routeLog rt1 = routeLog rt" "killSwitch rt1 = killSwitch rt"
      "m_dnsSplitTunnelKillSwitchEnabled rt1 = m_dnsSplitTunnelKillSwitchEnabled rt"
    by (simp_all add: rt1_def)
  note synced = sync_works [of env rt1, unfolded fields, OF assms(1,2) inv1]
  have "ls \<noteq> []"
    using leaseAnswers_keys [of env now answers "qvalueDflt [] (m_dnsSplitTunnelHostLeases rt) host"
        "qvalueDflt [] (m_dnsSplitTunnelHostCache rt) host"] canonical_check(1) [OF _ assms(1)] canon assms(5)
    by (auto simp: lc)
  moreover have "m_dnsSplitTunnelGateway rt \<noteq> []" using assms(2) by (auto simp: checkIPv4Format_def)
  ultimately have update: "rt' = scheduleDnsSplitTunnelLeaseTimer now (syncDnsSplitTunnelIps env (m_dnsSplitTunnelIps rt) rt1)"
    using assms(5,6) by (auto simp: updateDnsSplitTunnelHostLeases_def Let_def lc rt1_def)
  show ?thesis
    unfolding update using synced(1) synced(2) [OF active] synced(3) [OF _ _ active] active inv(2)
    by (auto simp: scheduleDnsSplitTunnelLeaseTimer_def)
qed

text \<open>C28. A DNS answer for a split host takes effect. In every reachable state, when the gateway is usable and the
  \<^verbatim>\<open>route\<close> command works, every address of the answer is afterwards among the split addresses. For an address that is
  new, exactly one command about its host route is issued, \<^verbatim>\<open>route add -host\<close> via the gateway, and with the kill switch on
  it is among the allowed ranges, and in the table of the loaded \<^verbatim>\<open>110.allowNets\<close> when the filter's commands work. For
  an address that was already a split address no command about its route is issued, and it stays allowed if it was.\<close>

theorem learned_address_routed:
  assumes "routesWork env" and "checkIPv4Format (isIPv4 env) (m_dnsSplitTunnelGateway rt)"
    and "rtReach rt" and "answersOk answers" and "a \<in> set answers"
    and "rt' = updateDnsSplitTunnelHostLeases env now host answers rt"
  shows "address a \<in> set (m_dnsSplitTunnelIps rt') \<and>
    routeCommands (address a) (m_dnsSplitTunnelGateway rt) (routeLog rt') =
      routeCommands (address a) (m_dnsSplitTunnelGateway rt) (routeLog rt) @
      (if address a \<in> set (m_dnsSplitTunnelIps rt) then []
       else [''route add -host '' @ address a @ '' '' @ m_dnsSplitTunnelGateway rt]) \<and>
    (m_dnsSplitTunnelKillSwitchEnabled rt \<longrightarrow>
       (if address a \<in> set (m_dnsSplitTunnelIps rt)
        then address a \<in> set (m_allowedRanges (killSwitch rt')) \<longleftrightarrow> address a \<in> set (m_allowedRanges (killSwitch rt))
        else address a \<in> set (m_allowedRanges (killSwitch rt')) \<and>
          (works (pfEnv env) \<longrightarrow> letsThrough (killSwitch rt') (address a))))"
  using update_routes [OF assms] by (simp add: switchFollows_def split: if_splits)

definition exampleRouter :: rtState where
  "exampleRouter = (case configureDnsSplitTunnel exampleRouterEnv 0 [] ''192.168.1.1'' True (rtState0 (ksState0 False)) of
     Some (ok, rt) \<Rightarrow> rt | None \<Rightarrow> rtState0 (ksState0 False))"

lemma exampleRouter_reach: "rtReach exampleRouter"
proof -
  obtain rt where "configureDnsSplitTunnel exampleRouterEnv 0 [] ''192.168.1.1'' True (rtState0 (ksState0 False)) = Some (True, rt)"
    by (simp add: configureDnsSplitTunnel_def seedDnsSplitTunnelLeasesFromCache_def startDnsSplitTunnelPrewarm_def Let_def)
  then show ?thesis
    using rtReach.step [OF router_start rtStep.configure] by (simp add: exampleRouter_def)
qed

lemma exampleRouter_gateway: "m_dnsSplitTunnelGateway exampleRouter = ''192.168.1.1''"
  by (simp add: exampleRouter_def configureDnsSplitTunnel_def seedDnsSplitTunnelLeasesFromCache_def
      startDnsSplitTunnelPrewarm_def Let_def)

lemma exampleRouter_fields:
  "m_dnsSplitTunnelIps exampleRouter = []" "m_dnsSplitTunnelKillSwitchEnabled exampleRouter" "routeLog exampleRouter = []"
  by (simp_all add: exampleRouter_def configureDnsSplitTunnel_def seedDnsSplitTunnelLeasesFromCache_def
      startDnsSplitTunnelPrewarm_def clearDnsSplitTunnelLeases_def rtState0_def Let_def)

lemma exampleRouter_usable:
  "routesWork exampleRouterEnv" "checkIPv4Format (isIPv4 exampleRouterEnv) (m_dnsSplitTunnelGateway exampleRouter)"
  "works (pfEnv exampleRouterEnv)"
  by (simp_all add: routesWork_def exampleRouterEnv_def exampleRouter_gateway checkIPv4Format_def)

theorem learned_address_routed_witness:
  "\<exists>rt'. rt' = updateDnsSplitTunnelHostLeases exampleRouterEnv 0 ''ya.ru'' [\<lparr>address = dotted 5 6 7 8, ttlSeconds = 300\<rparr>] exampleRouter \<and>
     routeCommands (dotted 5 6 7 8) ''192.168.1.1'' (routeLog rt') = [''route add -host '' @ dotted 5 6 7 8 @ '' 192.168.1.1''] \<and>
     letsThrough (killSwitch rt') (dotted 5 6 7 8)"
proof -
  have "\<exists>b c d e. b < 256 \<and> c < 256 \<and> d < 256 \<and> e < 256 \<and> dotted 5 6 7 8 = dotted b c d e"
    by (rule exI [of _ 5], rule exI [of _ 6], rule exI [of _ 7], rule exI [of _ 8]) simp
  then have "answersOk [\<lparr>address = dotted 5 6 7 8, ttlSeconds = 300\<rparr>]" by (simp add: answersOk_def answerOk_def)
  from learned_address_routed [OF exampleRouter_usable(1,2) exampleRouter_reach this list.set_intros(1) refl, of 0 "''ya.ru''"]
  show ?thesis
    using exampleRouter_usable(3) by (simp add: exampleRouter_fields exampleRouter_gateway routeCommands_def)
qed

text \<open>Clearing the leases, on new rules or a new gateway, leaves nothing behind in the service: no
  address counts as routed, no lease or timer remains, and with the kill switch on the allowed ranges
  lose exactly the learned addresses.\<close>

theorem leases_cleared:
  assumes "rtReach rt"
  shows "m_dnsSplitTunnelIps (clearDnsSplitTunnelLeases env rt) = [] \<and>
    m_dnsSplitTunnelHostLeases (clearDnsSplitTunnelLeases env rt) = [] \<and>
    m_dnsSplitTunnelLeaseTimer (clearDnsSplitTunnelLeases env rt) = None \<and>
    (m_dnsSplitTunnelGateway rt \<noteq> [] \<and> m_dnsSplitTunnelKillSwitchEnabled rt \<longrightarrow>
       set (m_allowedRanges (killSwitch (clearDnsSplitTunnelLeases env rt))) =
       set (m_allowedRanges (killSwitch rt)) - set (m_dnsSplitTunnelIps rt))"
proof -
  have ks: "ksInv (killSwitch rt)" using rtReach_inv [OF assms] by (simp add: rtInv_def)
  have timer: "m_dnsSplitTunnelLeaseTimer (snd (deleteRoutes env rs rt)) = m_dnsSplitTunnelLeaseTimer rt \<and>
      m_dnsSplitTunnelKillSwitchEnabled (snd (deleteRoutes env rs rt)) = m_dnsSplitTunnelKillSwitchEnabled rt" for rs and rt :: rtState
    by (induction rs arbitrary: rt) (simp_all add: case_prod_beta routeDelete_def runRouteCommand_def Let_def)
  show ?thesis
    using ks timer
    by (auto simp: clearDnsSplitTunnelLeases_def routeDeleteList_def Let_def case_prod_beta removeAllowedRange_ranges)
qed

theorem leases_cleared_witness: "m_dnsSplitTunnelIps (clearDnsSplitTunnelLeases exampleRouterEnv exampleRouter) = []"
  using leases_cleared [OF exampleRouter_reach] by blast

text \<open>Clearing the saved routes forgets them all, reports success exactly when every deletion
  succeeded, and issues nothing but deletions of saved routes, never of the default route.\<close>

theorem saved_routes_cleared:
  "m_addedRoutes (snd (clearSavedRoutes env rt)) = [] \<and>
   (fst (clearSavedRoutes env rt) \<longleftrightarrow> fst (deleteRoutes env (m_addedRoutes rt) rt) = int (length (m_addedRoutes rt))) \<and>
   fst (deleteRoutes env (m_addedRoutes rt) rt) \<le> int (length (m_addedRoutes rt)) \<and>
   (\<exists>cmds. routeLog (snd (clearSavedRoutes env rt)) = routeLog rt @ cmds \<and>
      set cmds \<subseteq> (\<lambda>r. routeText ''delete'' (ipAddressFromIpWithSubnet (dst r)) (gw r) (netMaskFromIpWithSubnet (dst r))) `
        {r \<in> set (m_addedRoutes rt). dst r \<noteq> ''0.0.0.0/0''})"
proof -
  let ?cmd = "\<lambda>r. routeText ''delete'' (ipAddressFromIpWithSubnet (dst r)) (gw r) (netMaskFromIpWithSubnet (dst r))"
  have count: "fst (deleteRoutes env rs rt) \<le> int (length rs)" for rs and rt :: rtState
  proof (induction rs arbitrary: rt)
    case (Cons r rs)
    have "fst (deleteRoutes env rs (snd (routeDelete env (dst r) (gw r) rt))) \<le> int (length rs)" by (rule Cons)
    then show ?case by (simp add: case_prod_beta)
  qed simp
  have log: "\<exists>cmds. routeLog (snd (deleteRoutes env rs rt)) = routeLog rt @ cmds \<and>
      set cmds \<subseteq> ?cmd ` {r \<in> set rs. dst r \<noteq> ''0.0.0.0/0''}" for rs and rt :: rtState
  proof (induction rs arbitrary: rt)
    case (Cons r rs)
    let ?rt = "snd (routeDelete env (dst r) (gw r) rt)"
    obtain cmds where cmds: "routeLog (snd (deleteRoutes env rs ?rt)) = routeLog ?rt @ cmds"
        "set cmds \<subseteq> ?cmd ` {r \<in> set rs. dst r \<noteq> ''0.0.0.0/0''}" using Cons.IH by blast
    have "routeLog ?rt = routeLog rt \<or> dst r \<noteq> ''0.0.0.0/0'' \<and> routeLog ?rt = routeLog rt @ [?cmd r]"
      by (auto simp: routeDelete_def runRouteCommand_def Let_def)
    then show ?case
    proof (elim disjE conjE)
      assume "routeLog ?rt = routeLog rt"
      with cmds show ?thesis by (intro exI [of _ cmds]) (auto simp: case_prod_beta)
    next
      assume "dst r \<noteq> ''0.0.0.0/0''" and "routeLog ?rt = routeLog rt @ [?cmd r]"
      with cmds show ?thesis by (intro exI [of _ "?cmd r # cmds"]) (auto simp: case_prod_beta)
    qed
  qed simp
  show ?thesis using count log [of "m_addedRoutes rt" rt] by (simp add: clearSavedRoutes_def case_prod_beta)
qed

end
