(* ===== verification/Dns_Observer.thy ===== *)
theory Dns_Observer
  imports Split_Rule Dns_Message
begin

text \<open>
  \<^verbatim>\<open>client/platforms/macos/daemon/dnssplitrouteobserver.cpp\<close>: the local DNS forwarder of the service.
  It answers on 127.0.0.1:53, forwards each query to the upstream servers under an identifier of its
  own, hands the first response back under the client's identifier, and reports the addresses of the
  hosts that a rule matches.

  A datagram loop is a fold over the datagrams that are waiting. \<^verbatim>\<open>QHostAddress\<close> is the type
  variable \<open>'a\<close>. A handler that runs into undefined behaviour or never returns yields a \<open>fault\<close>.
\<close>

section \<open>State\<close>

datatype fault = Undefined | Diverges

record 'a pendingQuery =
  clientAddress :: 'a
  clientPort :: "16 word"
  originalId :: "16 word"
  pq_host :: string
  requestKey :: bytes
  matched :: bool

record 'a obState =
  clientBound :: bool
  upstreamBound :: bool
  m_upstreamServers :: "'a list"
  m_matchedUpstreamServers :: "'a list"
  m_rules :: "splitRule list"
  m_pendingQueries :: "16 word \<rightharpoonup> 'a pendingQuery"
  m_nextQueryId :: "16 word"
  sentUpstream :: "(bytes \<times> 'a) list"
  sentClient :: "(bytes \<times> 'a \<times> 16 word) list"
  hostResolved :: "(string \<times> dnsIpv4Answer list) list"   \<comment> \<open>the emitted signals\<close>

definition obState0 :: "'a obState" where
  "obState0 = \<lparr>clientBound = False, upstreamBound = False, m_upstreamServers = [], m_matchedUpstreamServers = [],
     m_rules = [], m_pendingQueries = Map.empty, m_nextQueryId = 1, sentUpstream = [], sentClient = [],
     hostResolved = []\<rparr>"

definition messageId :: "bytes \<Rightarrow> 16 word" where
  "messageId message =
     (if length message < 2 then 0 else word_of_nat (256 * unat (message ! 0) + unat (message ! 1)))"

definition setMessageId :: "bytes \<Rightarrow> 16 word \<Rightarrow> bytes" where
  "setMessageId message ident =
     (if length message < 2 then message
      else word_of_nat (unat ident div 256) # word_of_nat (unat ident mod 256) # drop 2 message)"

section \<open>Rules, start and stop\<close>

fun hostRules :: "string list \<Rightarrow> splitRule list option" where
  "hostRules [] = Some []"
| "hostRules (ruleText # rules) =
     (case fromText ruleText of
        None \<Rightarrow> None
      | Some rule \<Rightarrow> map_option (\<lambda>rs. if isValid rule \<and> rule_type rule \<noteq> IpSubnet then rule # rs else rs)
          (hostRules rules))"

definition setRules :: "string list \<Rightarrow> 'a obState \<Rightarrow> fault + 'a obState" where
  "setRules rules ob =
     (case hostRules rules of None \<Rightarrow> Inl Undefined | Some rs \<Rightarrow> Inr (ob\<lparr>m_rules := rs\<rparr>))"

definition stopObserver :: "'a obState \<Rightarrow> 'a obState" where
  "stopObserver ob = ob\<lparr>clientBound := False, upstreamBound := False, m_upstreamServers := [],
     m_matchedUpstreamServers := [], m_pendingQueries := Map.empty\<rparr>"

text \<open>\<open>usable\<close>: an IPv4 addr other than the local host.\<close>

definition appendUsableServers :: "('a \<Rightarrow> bool) \<Rightarrow> 'a list \<Rightarrow> 'a list \<Rightarrow> 'a list" where
  "appendUsableServers usable servers target = appendNew target (filter usable servers)"

definition startObserver ::
    "('a \<Rightarrow> bool) \<Rightarrow> bool \<Rightarrow> bool \<Rightarrow> 'a list \<Rightarrow> 'a list \<Rightarrow> 'a obState \<Rightarrow> bool \<times> 'a obState" where
  "startObserver usable upstreamBinds clientBinds upstreamServers matchedUpstreamServers ob =
     (let ob = stopObserver ob;
          ob = ob\<lparr>m_upstreamServers := appendUsableServers usable upstreamServers (m_upstreamServers ob),
                 m_matchedUpstreamServers := appendUsableServers usable matchedUpstreamServers (m_matchedUpstreamServers ob)\<rparr>
      in if m_rules ob = [] \<or> m_upstreamServers ob = [] then (False, ob)
         else if \<not> upstreamBinds then (False, stopObserver ob)
         else let ob = ob\<lparr>upstreamBound := True\<rparr> in
           if \<not> clientBinds then (False, stopObserver ob) else (True, ob\<lparr>clientBound := True\<rparr>))"

definition isActive :: "'a obState \<Rightarrow> bool" where
  "isActive ob \<longleftrightarrow> clientBound ob \<and> upstreamBound ob"

fun matchesRules :: "splitRule list \<Rightarrow> string \<Rightarrow> bool option" where
  "matchesRules [] h = Some False"
| "matchesRules (rule # rules) h =
     (case matchesHost rule h of None \<Rightarrow> None | Some True \<Rightarrow> Some True | Some False \<Rightarrow> matchesRules rules h)"

section \<open>Query identifiers\<close>

text \<open>The identifier after \<open>i\<close>, skipping zero, and the search for a free one. \<^const>\<open>None\<close> is a search that
  never ends.\<close>

definition stepId :: "16 word \<Rightarrow> 16 word" where
  "stepId i = (let i = i + 1 in if i = 0 then i + 1 else i)"

partial_function (option) freeId :: "(16 word \<Rightarrow> bool) \<Rightarrow> 16 word \<Rightarrow> 16 word option" where
  "freeId pending i = (let j = stepId i in if pending j then freeId pending j else Some j)"

declare freeId.simps [code]

definition nextQueryId :: "'a obState \<Rightarrow> (16 word \<times> 'a obState) option" where
  "nextQueryId ob = map_option (\<lambda>j. (j, ob\<lparr>m_nextQueryId := j\<rparr>))
     (freeId (\<lambda>i. m_pendingQueries ob i \<noteq> None) (m_nextQueryId ob))"

section \<open>Datagrams\<close>

fun forward :: "bytes \<Rightarrow> 'a pendingQuery \<Rightarrow> 'a list \<Rightarrow> 'a obState \<Rightarrow> fault + 'a obState" where
  "forward request pending [] ob = Inr ob"
| "forward request pending (upstream # upstreams) ob =
     (case nextQueryId ob of
        None \<Rightarrow> Inl Diverges
      | Some (forwardedId, ob) \<Rightarrow>
          forward request pending upstreams
            (ob\<lparr>m_pendingQueries := (m_pendingQueries ob)(forwardedId \<mapsto> pending),
                sentUpstream := sentUpstream ob @ [(setMessageId request forwardedId, upstream)]\<rparr>))"

definition clientDatagram :: "bytes \<Rightarrow> 'a \<Rightarrow> 16 word \<Rightarrow> 'a obState \<Rightarrow> fault + 'a obState" where
  "clientDatagram request addr port ob =
     (case queryHost request of
        None \<Rightarrow> Inl Undefined
      | Some h \<Rightarrow>
          if h = [] \<or> m_upstreamServers ob = [] then Inr ob
          else case matchesRules (m_rules ob) h of
              None \<Rightarrow> Inl Undefined
            | Some hit \<Rightarrow>
                let pending = \<lparr>clientAddress = addr, clientPort = port, originalId = messageId request,
                       pq_host = h, requestKey = setMessageId request 0, matched = hit\<rparr>;
                    upstreams = (if hit \<and> m_matchedUpstreamServers ob \<noteq> [] then m_matchedUpstreamServers ob
                                 else m_upstreamServers ob)
                in forward request pending upstreams ob)"

fun readClientDatagrams :: "(bytes \<times> 'a \<times> 16 word) list \<Rightarrow> 'a obState \<Rightarrow> fault + 'a obState" where
  "readClientDatagrams [] ob = Inr ob"
| "readClientDatagrams ((request, addr, port) # ds) ob =
     (case clientDatagram request addr port ob of Inl f \<Rightarrow> Inl f | Inr ob \<Rightarrow> readClientDatagrams ds ob)"

definition sameRequest :: "'a pendingQuery \<Rightarrow> 'a pendingQuery \<Rightarrow> bool" where
  "sameRequest p q \<longleftrightarrow> originalId q = originalId p \<and> clientAddress q = clientAddress p \<and>
     clientPort q = clientPort p \<and> requestKey q = requestKey p"

definition upstreamDatagram :: "bytes \<Rightarrow> 'a obState \<Rightarrow> fault + 'a obState" where
  "upstreamDatagram response ob =
     (case m_pendingQueries ob (messageId response) of
        None \<Rightarrow> Inr ob
      | Some pending \<Rightarrow>
          let rest = (m_pendingQueries ob)(messageId response := None);
              ob = ob\<lparr>m_pendingQueries :=
                (\<lambda>i. case rest i of None \<Rightarrow> None | Some other \<Rightarrow> if sameRequest pending other then None else Some other)\<rparr>
          in case responseIpv4Answers response of
              None \<Rightarrow> Inl Undefined
            | Some answers \<Rightarrow>
                let ob = (if matched pending \<and> answers \<noteq> []
                          then ob\<lparr>hostResolved := hostResolved ob @ [(pq_host pending, answers)]\<rparr> else ob)
                in Inr (ob\<lparr>sentClient := sentClient ob @
                     [(setMessageId response (originalId pending), clientAddress pending, clientPort pending)]\<rparr>))"

fun readUpstreamDatagrams :: "bytes list \<Rightarrow> 'a obState \<Rightarrow> fault + 'a obState" where
  "readUpstreamDatagrams [] ob = Inr ob"
| "readUpstreamDatagrams (response # ds) ob =
     (case upstreamDatagram response ob of Inl f \<Rightarrow> Inl f | Inr ob \<Rightarrow> readUpstreamDatagrams ds ob)"

section \<open>Runs\<close>

text \<open>The requests and datagrams that reach the observer. Whether the two sockets can be bound is part of a start.\<close>

datatype 'a obEvent =
    RulesSet "string list"
  | Started bool bool "'a list" "'a list"
  | Stopped
  | FromClient bytes 'a "16 word"
  | FromUpstream bytes

fun obStep :: "('a \<Rightarrow> bool) \<Rightarrow> 'a obEvent \<Rightarrow> 'a obState \<Rightarrow> fault + 'a obState" where
  "obStep usable (RulesSet rules) ob = setRules rules ob"
| "obStep usable (Started upstreamBinds clientBinds us ms) ob = Inr (snd (startObserver usable upstreamBinds clientBinds us ms ob))"
| "obStep usable Stopped ob = Inr (stopObserver ob)"
| "obStep usable (FromClient request addr port) ob = readClientDatagrams [(request, addr, port)] ob"
| "obStep usable (FromUpstream response) ob = readUpstreamDatagrams [response] ob"

fun obRun :: "('a \<Rightarrow> bool) \<Rightarrow> 'a obEvent list \<Rightarrow> 'a obState \<Rightarrow> fault + 'a obState" where
  "obRun usable [] ob = Inr ob"
| "obRun usable (e # es) ob = (case obStep usable e ob of Inl f \<Rightarrow> Inl f | Inr ob \<Rightarrow> obRun usable es ob)"

section \<open>Identifiers: termination\<close>

lemma unat_stepId: "unat (stepId i) = (if unat i = 65535 then 1 else unat i + 1)"
proof -
  have lt: "unat i < 65536" using unsigned_less [of i] by simp
  have "unat (i + 1) = (unat i + 1) mod 65536" by (simp add: unat_word_ariths)
  moreover have "i + 1 = 0 \<longleftrightarrow> unat (i + 1) = 0" by (simp add: unat_eq_zero)
  moreover have "stepId i = (if i + 1 = 0 then 1 else i + 1)"
    unfolding stepId_def Let_def by (metis add.left_neutral)
  ultimately show ?thesis
    using lt by (auto simp: mod_Suc split: if_splits)
qed

lemma stepId_nonzero: "stepId i \<noteq> 0"
  using unat_stepId [of i] by (metis add_is_0 one_neq_zero unat_0)

text \<open>How many steps lead from \<open>i\<close> to \<open>y\<close>.\<close>

definition idDistance :: "16 word \<Rightarrow> 16 word \<Rightarrow> nat" where
  "idDistance i y = (if unat i < unat y then unat y - unat i else 65535 + unat y - unat i)"

lemma idDistance_step:
  assumes "y \<noteq> 0" and "stepId i \<noteq> y"
  shows "idDistance (stepId i) y < idDistance i y"
proof -
  have y: "0 < unat y" "unat y < 65536" and i: "unat i < 65536"
    using assms(1) unsigned_less [of y] unsigned_less [of i] by (auto simp: unat_gt_0)
  have "unat (stepId i) \<noteq> unat y" using assms(2) by (simp add: word_unat_eq_iff)
  with y i show ?thesis by (auto simp: idDistance_def unat_stepId split: if_splits)
qed

lemma freeId_total:
  assumes "y \<noteq> 0" and "\<not> pending y"
  shows "\<exists>j. freeId pending i = Some j"
proof (induction "idDistance i y" arbitrary: i rule: less_induct)
  case less
  show ?case
  proof (cases "pending (stepId i)")
    case True
    then have "stepId i \<noteq> y" using assms(2) by auto
    then obtain j where "freeId pending (stepId i) = Some j"
      using less idDistance_step [OF assms(1)] by blast
    with True show ?thesis by (subst freeId.simps) (simp add: Let_def)
  qed (subst freeId.simps, simp add: Let_def)
qed

lemma freeId_sound: "freeId pending i = Some j \<Longrightarrow> j \<noteq> 0 \<and> \<not> pending j"
  by (rule freeId.raw_induct [where P = "\<lambda>pending i j. j \<noteq> 0 \<and> \<not> pending j"])
    (auto simp: Let_def stepId_nonzero split: if_splits)

section \<open>Messages\<close>

lemma messageId_setMessageId: "length message \<ge> 2 \<Longrightarrow> messageId (setMessageId message i) = i"
proof -
  have "unat i < 65536" using unsigned_less [of i] by simp
  then have "256 * unat (word_of_nat (unat i div 256) :: 8 word) + unat (word_of_nat (unat i mod 256) :: 8 word) = unat i"
    by (simp add: unsigned_of_nat take_bit_nat_eq_self less_mult_imp_div_less)
  then show "length message \<ge> 2 \<Longrightarrow> ?thesis"
    by (simp add: messageId_def setMessageId_def)
qed

lemma length_setMessageId [simp]: "length (setMessageId message i) = length message"
  by (auto simp: setMessageId_def)

lemma setMessageId_twice [simp]: "setMessageId (setMessageId message i) j = setMessageId message j"
  by (simp add: setMessageId_def)

lemma drop_setMessageId [simp]: "drop 2 (setMessageId message i) = drop 2 message"
  by (simp add: setMessageId_def)

section \<open>Forwarding\<close>

lemma nextQueryId_Some:
  assumes "nextQueryId ob = Some (j, ob')"
  shows "j \<noteq> 0" "m_pendingQueries ob j = None" "ob' = ob\<lparr>m_nextQueryId := j\<rparr>"
  using assms freeId_sound [of "\<lambda>i. m_pendingQueries ob i \<noteq> None" "m_nextQueryId ob" j]
  by (auto simp: nextQueryId_def)

lemma nextQueryId_None: "nextQueryId ob = None \<longleftrightarrow> (\<forall>i. i \<noteq> 0 \<longrightarrow> m_pendingQueries ob i \<noteq> None)"
proof
  assume none: "nextQueryId ob = None"
  show "\<forall>i. i \<noteq> 0 \<longrightarrow> m_pendingQueries ob i \<noteq> None"
  proof (intro allI impI notI)
    fix i :: "16 word"
    assume "i \<noteq> 0" "m_pendingQueries ob i = None"
    then obtain j where "freeId (\<lambda>i. m_pendingQueries ob i \<noteq> None) (m_nextQueryId ob) = Some j"
      using freeId_total [of i "\<lambda>i. m_pendingQueries ob i \<noteq> None"] by auto
    with none show False by (simp add: nextQueryId_def)
  qed
next
  assume all: "\<forall>i. i \<noteq> 0 \<longrightarrow> m_pendingQueries ob i \<noteq> None"
  show "nextQueryId ob = None"
  proof (cases "nextQueryId ob")
    case (Some x)
    then obtain j ob' where "nextQueryId ob = Some (j, ob')" by (cases x) simp
    from nextQueryId_Some(1,2) [OF this] all show ?thesis by blast
  qed
qed

text \<open>The state after a request was forwarded under the identifiers \<open>ids\<close>.\<close>

definition forwarded :: "bytes \<Rightarrow> 'a pendingQuery \<Rightarrow> 16 word list \<Rightarrow> 'a list \<Rightarrow> 'a obState \<Rightarrow> 'a obState \<Rightarrow> bool" where
  "forwarded request p ids ups ob ob' \<longleftrightarrow> length ids = length ups \<and> distinct ids \<and>
     (\<forall>i \<in> set ids. i \<noteq> 0 \<and> m_pendingQueries ob i = None) \<and>
     m_pendingQueries ob' = (\<lambda>i. if i \<in> set ids then Some p else m_pendingQueries ob i) \<and>
     sentUpstream ob' = sentUpstream ob @ zip (map (setMessageId request) ids) ups \<and>
     sentClient ob' = sentClient ob \<and> hostResolved ob' = hostResolved ob \<and> m_rules ob' = m_rules ob \<and>
     m_upstreamServers ob' = m_upstreamServers ob \<and> m_matchedUpstreamServers ob' = m_matchedUpstreamServers ob \<and>
     clientBound ob' = clientBound ob \<and> upstreamBound ob' = upstreamBound ob \<and>
     (m_nextQueryId ob \<noteq> 0 \<longrightarrow> m_nextQueryId ob' \<noteq> 0)"

lemma forwarded_Cons:
  assumes "forwarded request p ids ups (ob\<lparr>m_nextQueryId := j, m_pendingQueries := (m_pendingQueries ob)(j \<mapsto> p),
      sentUpstream := sentUpstream ob @ [(setMessageId request j, u)]\<rparr>) ob'"
    and "j \<noteq> 0" "m_pendingQueries ob j = None"
  shows "forwarded request p (j # ids) (u # ups) ob ob'"
proof -
  note f = assms(1) [unfolded forwarded_def, simplified]
  have fresh: "i \<noteq> j" "i \<noteq> 0" "m_pendingQueries ob i = None" if "i \<in> set ids" for i
    using f that by (auto split: if_splits)
  have "m_pendingQueries ob' = (\<lambda>i. if i \<in> set (j # ids) then Some p else m_pendingQueries ob i)"
    using f by (auto simp: fun_eq_iff)
  with f fresh assms(2,3) show ?thesis unfolding forwarded_def by auto
qed

lemma forward_result: "forward request p ups ob = Inr ob' \<Longrightarrow> \<exists>ids. forwarded request p ids ups ob ob'"
proof (induction ups arbitrary: ob)
  case Nil
  then show ?case by (intro exI [of _ "[]"]) (simp add: forwarded_def)
next
  case (Cons u ups)
  then obtain j ob1 where j: "nextQueryId ob = Some (j, ob1)" by (auto split: option.splits)
  note found = nextQueryId_Some [OF j]
  have "forward request p ups (ob\<lparr>m_nextQueryId := j, m_pendingQueries := (m_pendingQueries ob)(j \<mapsto> p),
      sentUpstream := sentUpstream ob @ [(setMessageId request j, u)]\<rparr>) = Inr ob'"
    using Cons.prems j found(3) by simp
  then obtain ids where "forwarded request p ids ups (ob\<lparr>m_nextQueryId := j, m_pendingQueries := (m_pendingQueries ob)(j \<mapsto> p),
      sentUpstream := sentUpstream ob @ [(setMessageId request j, u)]\<rparr>) ob'" using Cons.IH by blast
  from forwarded_Cons [OF this found(1,2)] show ?case by blast
qed

text \<open>The identifiers that can still be given to a query.\<close>

definition freeIds :: "'a obState \<Rightarrow> 16 word set" where
  "freeIds ob = {i. i \<noteq> 0 \<and> m_pendingQueries ob i = None}"

lemma forward_total: "length ups \<le> card (freeIds ob) \<Longrightarrow> \<exists>ob'. forward request p ups ob = Inr ob'"
proof (induction ups arbitrary: ob)
  case (Cons u ups)
  then have "freeIds ob \<noteq> {}" by auto
  then have "nextQueryId ob \<noteq> None" unfolding nextQueryId_None freeIds_def by blast
  then obtain j ob1 where j: "nextQueryId ob = Some (j, ob1)" by auto
  note found = nextQueryId_Some [OF j]
  define ob2 where "ob2 = ob\<lparr>m_nextQueryId := j, m_pendingQueries := (m_pendingQueries ob)(j \<mapsto> p),
      sentUpstream := sentUpstream ob @ [(setMessageId request j, u)]\<rparr>"
  have "freeIds ob2 = freeIds ob - {j}" by (auto simp: freeIds_def ob2_def)
  moreover have "j \<in> freeIds ob" using found by (simp add: freeIds_def)
  ultimately have "length ups \<le> card (freeIds ob2)" using Cons.prems by (simp add: card_Diff_singleton)
  then show ?case using Cons.IH [of ob2] j found(3) by (simp add: ob2_def)
qed simp

section \<open>The invariant\<close>

definition pendingOk :: "'a pendingQuery \<Rightarrow> bool" where
  "pendingOk p \<longleftrightarrow> pq_host p \<noteq> [] \<and> 12 \<le> length (requestKey p) \<and> messageId (requestKey p) = 0"

definition pendingsOk :: "(16 word \<rightharpoonup> 'a pendingQuery) \<Rightarrow> bool" where
  "pendingsOk m \<longleftrightarrow> (\<forall>i p. m i = Some p \<longrightarrow> i \<noteq> 0 \<and> pendingOk p)"

definition obInv :: "('a \<Rightarrow> bool) \<Rightarrow> 'a obState \<Rightarrow> bool" where
  "obInv usable ob \<longleftrightarrow> m_nextQueryId ob \<noteq> 0 \<and>
     pendingsOk (m_pendingQueries ob) \<and>
     (m_upstreamServers ob = [] \<longrightarrow> m_pendingQueries ob = Map.empty) \<and>
     list_all (\<lambda>r. isValid r \<and> rule_type r \<noteq> IpSubnet) (m_rules ob) \<and>
     distinct (m_upstreamServers ob) \<and> distinct (m_matchedUpstreamServers ob) \<and>
     list_all usable (m_upstreamServers ob) \<and> list_all usable (m_matchedUpstreamServers ob)"

lemma pendingsOk_empty [simp]: "pendingsOk Map.empty"
  by (simp add: pendingsOk_def)

lemma pendingsOk_subset: "pendingsOk m \<Longrightarrow> (\<And>i q. m' i = Some q \<Longrightarrow> m i = Some q) \<Longrightarrow> pendingsOk m'"
  unfolding pendingsOk_def by blast

lemma pendingsOk_forwarded:
  "pendingsOk m \<Longrightarrow> pendingOk p \<Longrightarrow> \<forall>i \<in> set ids. i \<noteq> 0 \<Longrightarrow> pendingsOk (\<lambda>i. if i \<in> set ids then Some p else m i)"
  unfolding pendingsOk_def by (auto split: if_splits)

lemma obInv_start: "obInv usable obState0"
  by (simp add: obInv_def obState0_def)

lemma hostRules_ok: "hostRules rules = Some rs \<Longrightarrow> list_all (\<lambda>r. isValid r \<and> rule_type r \<noteq> IpSubnet) rs"
  by (induction rules arbitrary: rs) (auto split: option.splits if_splits)

lemma obInv_setRules: "obInv usable ob \<Longrightarrow> setRules rules ob = Inr ob' \<Longrightarrow> obInv usable ob'"
  using hostRules_ok by (auto simp: setRules_def obInv_def split: option.splits)

lemma obInv_stop: "obInv usable ob \<Longrightarrow> obInv usable (stopObserver ob)"
  by (simp add: stopObserver_def obInv_def)

lemma obInv_startObserver:
  "obInv usable ob \<Longrightarrow> obInv usable (snd (startObserver usable upstreamBinds clientBinds us ms ob))"
proof -
  assume inv: "obInv usable ob"
  define ob1 where "ob1 = (stopObserver ob)\<lparr>m_upstreamServers := appendUsableServers usable us [],
      m_matchedUpstreamServers := appendUsableServers usable ms []\<rparr>"
  have ob1: "obInv usable ob1"
    using inv by (simp add: ob1_def obInv_def stopObserver_def appendUsableServers_def distinct_appendNew list_all_iff)
  have "obInv usable (ob1\<lparr>upstreamBound := b, clientBound := c\<rparr>) = obInv usable ob1" for b c by (simp add: obInv_def)
  with ob1 obInv_stop [OF ob1] obInv_stop [of usable "ob1\<lparr>upstreamBound := True\<rparr>"] show ?thesis
    by (auto simp: startObserver_def Let_def stopObserver_def obInv_def ob1_def)
qed

lemma queryHost_long: "queryHost m = Some h \<Longrightarrow> h \<noteq> [] \<Longrightarrow> 12 \<le> length m"
  by (auto simp: queryHost_def split: if_splits)

text \<open>What a datagram of a client does when it is accepted.\<close>

lemma clientDatagram_result:
  assumes "clientDatagram request addr port ob = Inr ob'"
  shows "ob' = ob \<or> (\<exists>p ids ups. p = \<lparr>clientAddress = addr, clientPort = port, originalId = messageId request,
      pq_host = pq_host p, requestKey = setMessageId request 0, matched = matched p\<rparr> \<and> pendingOk p \<and>
      m_upstreamServers ob \<noteq> [] \<and> forwarded request p ids ups ob ob')"
proof -
  obtain h where h: "queryHost request = Some h" using queryHost_safe by blast
  show ?thesis
  proof (cases "h = [] \<or> m_upstreamServers ob = []")
    case True
    then show ?thesis using assms h by (auto simp: clientDatagram_def)
  next
    case False
    then obtain hit where hit: "matchesRules (m_rules ob) h = Some hit"
      using assms h by (auto simp: clientDatagram_def split: option.splits)
    let ?p = "\<lparr>clientAddress = addr, clientPort = port, originalId = messageId request, pq_host = h,
        requestKey = setMessageId request 0, matched = hit\<rparr>"
    let ?ups = "if hit \<and> m_matchedUpstreamServers ob \<noteq> [] then m_matchedUpstreamServers ob else m_upstreamServers ob"
    have "forward request ?p ?ups ob = Inr ob'" using assms h False hit by (simp add: clientDatagram_def Let_def)
    then obtain ids where "forwarded request ?p ids ?ups ob ob'" using forward_result by blast
    moreover have "pendingOk ?p" using False queryHost_long [OF h] by (simp add: pendingOk_def messageId_setMessageId)
    ultimately show ?thesis using False by (intro disjI2 exI [of _ ?p]) auto
  qed
qed

lemma obInv_client:
  assumes inv: "obInv usable ob" and run: "clientDatagram request addr port ob = Inr ob'"
  shows "obInv usable ob'"
proof (cases "ob' = ob")
  case False
  then obtain p ids ups where p: "pendingOk p" "m_upstreamServers ob \<noteq> []" "forwarded request p ids ups ob ob'"
    using clientDatagram_result [OF run] by auto
  then have "pendingsOk (m_pendingQueries ob')"
    using inv pendingsOk_forwarded [of "m_pendingQueries ob" p ids] by (simp add: obInv_def forwarded_def)
  then show ?thesis using inv p by (simp add: obInv_def forwarded_def)
qed (use inv in simp)

text \<open>What a datagram of an upstream server does.\<close>

lemma upstreamDatagram_result:
  assumes "m_pendingQueries ob (messageId response) = Some p"
  shows "\<exists>answers. responseIpv4Answers response = Some answers \<and> upstreamDatagram response ob = Inr (ob\<lparr>
      m_pendingQueries := (\<lambda>i. case m_pendingQueries ob i of None \<Rightarrow> None
        | Some q \<Rightarrow> if i = messageId response \<or> sameRequest p q then None else Some q),
      hostResolved := hostResolved ob @ (if matched p \<and> answers \<noteq> [] then [(pq_host p, answers)] else []),
      sentClient := sentClient ob @ [(setMessageId response (originalId p), clientAddress p, clientPort p)]\<rparr>)"
proof -
  obtain answers where "responseIpv4Answers response = Some answers" using responseIpv4Answers_safe by blast
  moreover have "(\<lambda>i. case ((m_pendingQueries ob)(messageId response := None)) i of None \<Rightarrow> None
      | Some other \<Rightarrow> if sameRequest p other then None else Some other) =
    (\<lambda>i. case m_pendingQueries ob i of None \<Rightarrow> None
        | Some q \<Rightarrow> if i = messageId response \<or> sameRequest p q then None else Some q)"
    by (auto simp: fun_eq_iff split: option.splits)
  ultimately show ?thesis using assms by (simp add: upstreamDatagram_def Let_def)
qed

lemma upstreamDatagram_unknown: "m_pendingQueries ob (messageId response) = None \<Longrightarrow> upstreamDatagram response ob = Inr ob"
  by (simp add: upstreamDatagram_def)

lemma obInv_upstream:
  assumes inv: "obInv usable ob" and run: "upstreamDatagram response ob = Inr ob'"
  shows "obInv usable ob'"
proof (cases "m_pendingQueries ob (messageId response)")
  case None
  then show ?thesis using run inv by (simp add: upstreamDatagram_unknown)
next
  case (Some p)
  define rest where "rest = (\<lambda>i. case m_pendingQueries ob i of None \<Rightarrow> None
        | Some q \<Rightarrow> if i = messageId response \<or> sameRequest p q then None else Some q)"
  have sub: "m_pendingQueries ob i = Some q" if "rest i = Some q" for i q
    using that by (auto simp: rest_def split: option.splits if_splits)
  have "pendingsOk rest" using inv sub by (auto simp: obInv_def intro: pendingsOk_subset)
  moreover have "rest = Map.empty" if "m_pendingQueries ob = Map.empty" using that by (simp add: rest_def)
  ultimately show ?thesis
    using upstreamDatagram_result [OF Some] run inv by (auto simp: obInv_def simp flip: rest_def)
qed

lemma obInv_step: "obInv usable ob \<Longrightarrow> obStep usable e ob = Inr ob' \<Longrightarrow> obInv usable ob'"
  by (cases e) (auto simp: obInv_setRules obInv_startObserver obInv_stop split: sum.splits intro: obInv_client obInv_upstream)

lemma obRun_append:
  "obRun usable (es @ fs) ob = (case obRun usable es ob of Inl f \<Rightarrow> Inl f | Inr ob \<Rightarrow> obRun usable fs ob)"
  by (induction es arbitrary: ob) (auto split: sum.splits)

lemma obInv_run: "obInv usable ob \<Longrightarrow> obRun usable es ob = Inr ob' \<Longrightarrow> obInv usable ob'"
  by (induction es arbitrary: ob) (auto split: sum.splits intro: obInv_step)

section \<open>Questions and answers\<close>

text \<open>What identifies a client's request among the pending ones.\<close>

definition requestOf :: "'a pendingQuery \<Rightarrow> 16 word \<times> 'a \<times> 16 word \<times> bytes" where
  "requestOf p = (originalId p, clientAddress p, clientPort p, requestKey p)"

definition requests :: "'a obState \<Rightarrow> (16 word \<times> 'a \<times> 16 word \<times> bytes) set" where
  "requests ob = requestOf ` ran (m_pendingQueries ob)"

definition isQuery :: "'a obEvent \<Rightarrow> bool" where
  "isQuery e = (case e of FromClient _ _ _ \<Rightarrow> True | _ \<Rightarrow> False)"

text \<open>After the events \<open>es\<close>: answers and pending queries go back to a question of the same client with the same
  identifier, and there are at most as many of them as questions.\<close>

definition asked :: "'a obEvent list \<Rightarrow> 'a \<Rightarrow> 16 word \<Rightarrow> 16 word \<Rightarrow> bool" where
  "asked es addr port ident \<longleftrightarrow> (\<exists>request. FromClient request addr port \<in> set es \<and> messageId request = ident)"

definition accounted :: "'a obEvent list \<Rightarrow> 'a obState \<Rightarrow> bool" where
  "accounted es ob \<longleftrightarrow>
     (\<forall>(msg, addr, port) \<in> set (sentClient ob). asked es addr port (messageId msg)) \<and>
     (\<forall>(ident, addr, port, key) \<in> requests ob. asked es addr port ident) \<and>
     card (requests ob) + length (sentClient ob) \<le> length (filter isQuery es)"

lemma sameRequest_iff: "sameRequest p q \<longleftrightarrow> requestOf q = requestOf p"
  by (auto simp: sameRequest_def requestOf_def)

lemma finite_requests [simp]: "finite (requests ob)"
  by (simp add: requests_def finite_ran)

lemma asked_more: "asked es a b i \<Longrightarrow> asked (es @ fs) a b i"
  by (auto simp: asked_def)

text \<open>A step that neither adds a request nor answers one.\<close>

lemma accounted_other:
  assumes "accounted es ob" "requests ob' \<subseteq> requests ob" "sentClient ob' = sentClient ob"
  shows "accounted (es @ fs) ob'"
proof -
  have "card (requests ob') \<le> card (requests ob)" using assms(2) by (simp add: card_mono)
  with assms show ?thesis by (fastforce simp: accounted_def intro: asked_more)
qed

lemma accounted_client:
  assumes "accounted es ob" "clientDatagram request addr port ob = Inr ob'"
  shows "accounted (es @ [FromClient request addr port]) ob'"
proof (cases "ob' = ob")
  case True
  then show ?thesis using accounted_other [OF assms(1), of ob] by simp
next
  case False
  then obtain p ids ups where p: "requestOf p = (messageId request, addr, port, setMessageId request 0)"
      and f: "forwarded request p ids ups ob ob'"
    using clientDatagram_result [OF assms(2)] by (auto simp: requestOf_def) (metis pendingQuery.select_convs(1-3,5))
  have sub: "requests ob' \<subseteq> insert (messageId request, addr, port, setMessageId request 0) (requests ob)"
    using f p by (auto simp: requests_def forwarded_def ran_def split: if_splits)
  then have "card (requests ob') \<le> card (insert (messageId request, addr, port, setMessageId request 0) (requests ob))"
    by (simp add: card_mono)
  also have "\<dots> \<le> Suc (card (requests ob))" by (simp add: card_insert_if)
  finally have "card (requests ob') \<le> Suc (card (requests ob))" .
  have sent: "sentClient ob' = sentClient ob" using f by (simp add: forwarded_def)
  have new: "asked (es @ [FromClient request addr port]) addr port (messageId request)" by (auto simp: asked_def)
  have "asked (es @ [FromClient request addr port]) a b i" if "(i, a, b, k) \<in> requests ob'" for i a b k
  proof (cases "(i, a, b, k) \<in> requests ob")
    case True
    then show ?thesis using assms(1) by (auto simp: accounted_def intro: asked_more)
  next
    case False
    then have "(i, a, b, k) = (messageId request, addr, port, setMessageId request 0)" using that sub by blast
    then show ?thesis using new by simp
  qed
  moreover have "asked (es @ [FromClient request addr port]) a b (messageId msg)" if "(msg, a, b) \<in> set (sentClient ob')" for msg a b
    using that assms(1) unfolding sent by (auto simp: accounted_def intro: asked_more)
  ultimately show ?thesis
    using assms(1) \<open>card (requests ob') \<le> Suc (card (requests ob))\<close> sent by (auto simp: accounted_def isQuery_def)
qed

lemma accounted_upstream:
  assumes "accounted es ob" "obInv usable ob" "upstreamDatagram response ob = Inr ob'"
  shows "accounted (es @ [FromUpstream response]) ob'"
proof (cases "m_pendingQueries ob (messageId response)")
  case None
  then show ?thesis using accounted_other [OF assms(1), of ob] assms(3) by (simp add: upstreamDatagram_unknown)
next
  case (Some p)
  from upstreamDatagram_result [OF Some] assms(3) have
    pend: "m_pendingQueries ob' = (\<lambda>i. case m_pendingQueries ob i of None \<Rightarrow> None
        | Some q \<Rightarrow> if i = messageId response \<or> sameRequest p q then None else Some q)"
    and sent: "sentClient ob' = sentClient ob @ [(setMessageId response (originalId p), clientAddress p, clientPort p)]"
    by auto
  have mem: "requestOf p \<in> requests ob" using Some by (auto simp: requests_def ran_def)
  have "requests ob' \<subseteq> requests ob - {requestOf p}"
  proof
    fix x
    assume "x \<in> requests ob'"
    then obtain i q where q: "m_pendingQueries ob' i = Some q" and x: "x = requestOf q" by (auto simp: requests_def ran_def)
    from q have "m_pendingQueries ob i = Some q" "requestOf q \<noteq> requestOf p"
      unfolding pend sameRequest_iff by (auto split: option.splits if_splits)
    then show "x \<in> requests ob - {requestOf p}" unfolding x requests_def by (auto simp: ran_def)
  qed
  then have "card (requests ob') \<le> card (requests ob - {requestOf p})" by (simp add: card_mono)
  also have "\<dots> = card (requests ob) - 1" using mem by simp
  finally have card: "Suc (card (requests ob')) \<le> card (requests ob)"
    using mem card_gt_0_iff [of "requests ob"] by auto
  have "messageId response \<noteq> 0" using Some assms(2) by (auto simp: obInv_def pendingsOk_def)
  then have "2 \<le> length response" by (auto simp: messageId_def split: if_splits)
  then have "messageId (setMessageId response (originalId p)) = originalId p" by (rule messageId_setMessageId)
  moreover have "asked es (clientAddress p) (clientPort p) (originalId p)"
    using mem assms(1) by (fastforce simp: accounted_def requestOf_def)
  ultimately show ?thesis
    using assms(1) card sent \<open>requests ob' \<subseteq> requests ob - {requestOf p}\<close>
    by (fastforce simp: accounted_def isQuery_def intro: asked_more)
qed

lemma startObserver_fields:
  "m_pendingQueries (snd (startObserver usable ub cb us ms ob)) = Map.empty"
  "sentClient (snd (startObserver usable ub cb us ms ob)) = sentClient ob"
  by (simp_all add: startObserver_def stopObserver_def Let_def)

lemma accounted_step:
  assumes "accounted es ob" "obInv usable ob" "obStep usable e ob = Inr ob'"
  shows "accounted (es @ [e]) ob'"
proof (cases e)
  case (RulesSet rules)
  then have "requests ob' = requests ob" "sentClient ob' = sentClient ob"
    using assms(3) by (auto simp: setRules_def requests_def split: option.splits)
  then show ?thesis using accounted_other [OF assms(1)] by simp
next
  case (Started ub cb us ms)
  then have "requests ob' = {}" "sentClient ob' = sentClient ob"
    using assms(3) by (auto simp: requests_def startObserver_fields)
  then show ?thesis using accounted_other [OF assms(1)] by simp
next
  case Stopped
  then have "requests ob' = {}" "sentClient ob' = sentClient ob"
    using assms(3) by (auto simp: stopObserver_def requests_def)
  then show ?thesis using accounted_other [OF assms(1)] by simp
next
  case (FromClient request addr port)
  then show ?thesis using assms accounted_client by (auto split: sum.splits)
next
  case (FromUpstream response)
  then show ?thesis using assms accounted_upstream by (auto split: sum.splits)
qed

lemma accounted_run: "obRun usable es obState0 = Inr ob \<Longrightarrow> accounted es ob"
proof (induction es arbitrary: ob rule: rev_induct)
  case Nil
  then show ?case by (auto simp: accounted_def obState0_def requests_def)
next
  case (snoc e es)
  then obtain ob1 where run: "obRun usable es obState0 = Inr ob1" and step: "obStep usable e ob1 = Inr ob"
    by (auto simp: obRun_append split: sum.splits)
  show ?case using accounted_step [OF snoc.IH [OF run] obInv_run [OF obInv_start run] step] .
qed

text \<open>A response to a pending query is long enough to carry an identifier.\<close>

lemma pending_long: "obInv usable ob \<Longrightarrow> m_pendingQueries ob (messageId response) = Some p \<Longrightarrow> 2 \<le> length response"
  by (auto simp: obInv_def pendingsOk_def messageId_def split: if_splits)

lemma pending_response:
  "obRun usable es obState0 = Inr ob \<Longrightarrow> m_pendingQueries ob (messageId response) = Some p \<Longrightarrow> 2 \<le> length response"
  using pending_long [OF obInv_run [OF obInv_start]] .

section \<open>Faults\<close>

lemma matchesRules_None: "matchesRules rules h = None \<longleftrightarrow> rules \<noteq> [] \<and> normalizeHostText h = None"
  by (induction rules) (auto simp: matchesHost_def split: option.splits bool.splits)

lemma forward_not_undefined: "forward request p ups ob \<noteq> Inl Undefined"
  by (induction ups arbitrary: ob) (auto split: option.splits)

section \<open>Properties\<close>

text \<open>C29. The search for a query identifier ends exactly when some non-zero identifier is free, and then yields one that is not
  zero and not in use. When all 65535 identifiers are pending it never ends.\<close>

theorem query_id_search:
  "(nextQueryId ob = None \<longleftrightarrow> (\<forall>i. i \<noteq> 0 \<longrightarrow> m_pendingQueries ob i \<noteq> None)) \<and>
   (\<forall>j ob'. nextQueryId ob = Some (j, ob') \<longrightarrow> j \<noteq> 0 \<and> m_pendingQueries ob j = None \<and> ob' = ob\<lparr>m_nextQueryId := j\<rparr>)"
proof (intro conjI allI impI)
  show "nextQueryId ob = None \<longleftrightarrow> (\<forall>i. i \<noteq> 0 \<longrightarrow> m_pendingQueries ob i \<noteq> None)" by (rule nextQueryId_None)
  fix j ob'
  assume "nextQueryId ob = Some (j, ob')"
  then show "j \<noteq> 0" "m_pendingQueries ob j = None" "ob' = ob\<lparr>m_nextQueryId := j\<rparr>" by (rule nextQueryId_Some)+
qed

theorem query_id_search_witness:
  "\<exists>j ob'. nextQueryId (obState0 :: nat obState) = Some (j, ob') \<and> j \<noteq> 0"
proof -
  have "\<not> (\<forall>i. i \<noteq> 0 \<longrightarrow> m_pendingQueries (obState0 :: nat obState) i \<noteq> None)"
    by (rule notI, drule spec [of _ 1]) (simp add: obState0_def)
  then obtain j ob' where "nextQueryId (obState0 :: nat obState) = Some (j, ob')"
    using query_id_search [of "obState0 :: nat obState"] by auto
  then show ?thesis using query_id_search [of "obState0 :: nat obState"] by blast
qed

text \<open>C31. In every run the state is well formed: no pending query has the identifier zero, each one keeps the host and a
  request of at least a header whose identifier is blanked, queries are pending only while there are servers, the
  rules are valid host rules, and the servers are usable and listed once.\<close>

theorem observer_wellformed: "obRun usable es obState0 = Inr ob \<Longrightarrow> obInv usable ob"
  by (rule obInv_run [OF obInv_start])

theorem observer_wellformed_witness: "obInv (\<lambda>a. a = 8) (snd (startObserver (\<lambda>a. a = 8) True True [8, 8, 9] [] (obState0 :: nat obState)))"
  using observer_wellformed [of "\<lambda>a :: nat. a = 8" "[Started True True [8, 8, 9] []]"] by simp

text \<open>C30. A query that names a host is forwarded to every server chosen for it, in order, each time under an identifier of its
  own that is not zero and was free, with the rest of the datagram unchanged, and every one of these identifiers leads
  back to the client; this needs as many free identifiers as servers.\<close>

theorem query_forwarded:
  assumes "queryHost request = Some h" and "h \<noteq> []" and "m_upstreamServers ob \<noteq> []"
    and "matchesRules (m_rules ob) h = Some hit"
    and "ups = (if hit \<and> m_matchedUpstreamServers ob \<noteq> [] then m_matchedUpstreamServers ob else m_upstreamServers ob)"
    and "length ups \<le> card (freeIds ob)"
  shows "\<exists>ids ob'. clientDatagram request addr port ob = Inr ob' \<and> length ids = length ups \<and> distinct ids \<and>
     sentUpstream ob' = sentUpstream ob @ zip (map (setMessageId request) ids) ups \<and>
     (\<forall>i \<in> set ids. i \<noteq> 0 \<and> m_pendingQueries ob i = None \<and> messageId (setMessageId request i) = i \<and>
        drop 2 (setMessageId request i) = drop 2 request \<and>
        m_pendingQueries ob' i = Some \<lparr>clientAddress = addr, clientPort = port, originalId = messageId request, pq_host = h,
          requestKey = setMessageId request 0, matched = hit\<rparr>) \<and>
     (\<forall>i. i \<notin> set ids \<longrightarrow> m_pendingQueries ob' i = m_pendingQueries ob i)"
proof -
  let ?p = "\<lparr>clientAddress = addr, clientPort = port, originalId = messageId request, pq_host = h,
      requestKey = setMessageId request 0, matched = hit\<rparr>"
  obtain ob' where fwd: "forward request ?p ups ob = Inr ob'" using forward_total [OF assms(6)] by blast
  then obtain ids where "forwarded request ?p ids ups ob ob'" using forward_result by blast
  moreover have "clientDatagram request addr port ob = Inr ob'"
    using assms(1-5) fwd by (simp add: clientDatagram_def Let_def)
  moreover have "messageId (setMessageId request i) = i" for i
    using queryHost_long [OF assms(1,2)] by (simp add: messageId_setMessageId)
  ultimately show ?thesis by (intro exI [of _ ids] exI [of _ ob']) (simp add: forwarded_def)
qed

text \<open>A question for a host, as a datagram, and a state with one server.\<close>

definition exampleQuery :: bytes where
  "exampleQuery = encResponse 7 0x0100 [[121, 97], [114, 117]] []"

definition exampleObserver :: "nat obState" where
  "exampleObserver = obState0\<lparr>m_upstreamServers := [8]\<rparr>"

lemma exampleQuery_host: "queryHost exampleQuery = Some ''ya.ru''"
proof -
  have "nameOk [[121, 97], [114, 117]]" by (simp add: nameOk_def labelOk_def)
  then have "queryHost exampleQuery = Some (toLower (nameText [[121, 97], [114, 117]]))"
    unfolding exampleQuery_def by (intro queryHost_encResponse) simp_all
  moreover have "toLower (nameText [[121, 97], [114, 117]]) = ''ya.ru''" by code_simp
  ultimately show ?thesis by simp
qed

theorem query_forwarded_witness:
  "\<exists>i ob'. clientDatagram exampleQuery 5 4000 exampleObserver = Inr ob' \<and> i \<noteq> 0 \<and>
     sentUpstream ob' = [(setMessageId exampleQuery i, 8)]"
proof -
  have state: "m_upstreamServers exampleObserver = [8]" "m_rules exampleObserver = []" "sentUpstream exampleObserver = []"
    by (simp_all add: exampleObserver_def obState0_def)
  have "(1 :: 16 word) \<in> freeIds exampleObserver" by (simp add: freeIds_def exampleObserver_def obState0_def)
  then have free: "length [8 :: nat] \<le> card (freeIds exampleObserver)"
    using card_gt_0_iff [of "freeIds exampleObserver"] by (auto simp: Suc_le_eq)
  have "''ya.ru'' \<noteq> []" "m_upstreamServers exampleObserver \<noteq> []" "matchesRules (m_rules exampleObserver) ''ya.ru'' = Some False"
    "[8] = (if False \<and> m_matchedUpstreamServers exampleObserver \<noteq> [] then m_matchedUpstreamServers exampleObserver
       else m_upstreamServers exampleObserver)"
    by (simp_all add: state)
  from query_forwarded [OF exampleQuery_host this free, of 5 4000] obtain ids ob' where
      r: "clientDatagram exampleQuery 5 4000 exampleObserver = Inr ob'" "length ids = length [8 :: nat]"
      "sentUpstream ob' = sentUpstream exampleObserver @ zip (map (setMessageId exampleQuery) ids) [8]"
      "\<forall>i \<in> set ids. i \<noteq> 0" by (elim exE conjE) blast
  from r(2) obtain i where "ids = [i]" by (cases ids) auto
  with r show ?thesis by (intro exI [of _ i] exI [of _ ob']) (simp add: state)
qed

text \<open>C13. A response to a pending query goes to exactly the client that asked, with the client's identifier and the rest of the
  datagram unchanged; every other pending copy of the same request is dropped, so that it is answered once, and the
  requests of others stay; the host is reported with the parsed answers when a rule matched it and there are answers. A
  response with an unknown identifier changes nothing.\<close>

theorem response_translated:
  assumes "obRun usable es obState0 = Inr ob"
  shows "(m_pendingQueries ob (messageId response) = None \<longrightarrow> upstreamDatagram response ob = Inr ob) \<and>
   (\<forall>p. m_pendingQueries ob (messageId response) = Some p \<longrightarrow>
      (\<exists>ob' msg answers. upstreamDatagram response ob = Inr ob' \<and> responseIpv4Answers response = Some answers \<and>
        sentClient ob' = sentClient ob @ [(msg, clientAddress p, clientPort p)] \<and>
        messageId msg = originalId p \<and> drop 2 msg = drop 2 response \<and> length msg = length response \<and>
        (\<forall>i q. m_pendingQueries ob' i = Some q \<longleftrightarrow> m_pendingQueries ob i = Some q \<and> \<not> sameRequest p q) \<and>
        hostResolved ob' = hostResolved ob @ (if matched p \<and> answers \<noteq> [] then [(pq_host p, answers)] else [])))"
proof (intro conjI allI impI)
  fix p
  assume p: "m_pendingQueries ob (messageId response) = Some p"
  obtain answers where parsed: "responseIpv4Answers response = Some answers"
    and step: "upstreamDatagram response ob = Inr (ob\<lparr>
      m_pendingQueries := (\<lambda>i. case m_pendingQueries ob i of None \<Rightarrow> None
        | Some q \<Rightarrow> if i = messageId response \<or> sameRequest p q then None else Some q),
      hostResolved := hostResolved ob @ (if matched p \<and> answers \<noteq> [] then [(pq_host p, answers)] else []),
      sentClient := sentClient ob @ [(setMessageId response (originalId p), clientAddress p, clientPort p)]\<rparr>)"
    using upstreamDatagram_result [OF p] by blast
  have msg: "messageId (setMessageId response (originalId p)) = originalId p"
    using pending_response [OF assms p] by (rule messageId_setMessageId)
  have rest: "(case m_pendingQueries ob i of None \<Rightarrow> None
        | Some q \<Rightarrow> if i = messageId response \<or> sameRequest p q then None else Some q) = Some q \<longleftrightarrow>
      m_pendingQueries ob i = Some q \<and> \<not> sameRequest p q" for i q
    using p by (auto simp: sameRequest_iff split: option.splits if_splits)
  show "\<exists>ob' msg answers. upstreamDatagram response ob = Inr ob' \<and> responseIpv4Answers response = Some answers \<and>
        sentClient ob' = sentClient ob @ [(msg, clientAddress p, clientPort p)] \<and>
        messageId msg = originalId p \<and> drop 2 msg = drop 2 response \<and> length msg = length response \<and>
        (\<forall>i q. m_pendingQueries ob' i = Some q \<longleftrightarrow> m_pendingQueries ob i = Some q \<and> \<not> sameRequest p q) \<and>
        hostResolved ob' = hostResolved ob @ (if matched p \<and> answers \<noteq> [] then [(pq_host p, answers)] else [])"
    by (rule exI, rule exI [of _ "setMessageId response (originalId p)"], rule exI [of _ answers], rule conjI, rule step)
      (simp add: parsed msg rest)
qed (rule upstreamDatagram_unknown)

definition exampleRun :: "nat obEvent list" where
  "exampleRun = [Started True True [8] [], FromClient exampleQuery 5 4000]"

lemma exampleRun_state:
  "\<exists>ob. obRun (\<lambda>a. True) exampleRun obState0 = Inr ob \<and> m_pendingQueries ob 2 = Some \<lparr>clientAddress = 5, clientPort = 4000,
      originalId = messageId exampleQuery, pq_host = ''ya.ru'', requestKey = setMessageId exampleQuery 0, matched = False\<rparr>"
proof -
  define ob where "ob = snd (startObserver (\<lambda>a. True) True True [8] [] (obState0 :: nat obState))"
  have ob: "m_rules ob = []" "m_upstreamServers ob = [8]" "m_matchedUpstreamServers ob = []" "m_nextQueryId ob = 1"
      "m_pendingQueries ob = Map.empty"
    by (simp_all add: ob_def startObserver_def stopObserver_def obState0_def Let_def appendUsableServers_def)
  have "freeId (\<lambda>i. False) 1 = Some 2" by (subst freeId.simps) (simp add: stepId_def Let_def)
  then have "nextQueryId ob = Some (2, ob\<lparr>m_nextQueryId := 2\<rparr>)" by (simp add: nextQueryId_def ob)
  then show ?thesis
    unfolding exampleRun_def by (simp add: clientDatagram_def exampleQuery_host ob Let_def flip: ob_def)
qed

lemma messageId_example: "messageId (setMessageId exampleQuery 2) = 2"
  using queryHost_long [OF exampleQuery_host] by (simp add: messageId_setMessageId)

theorem response_translated_witness:
  "\<exists>ob ob' msg. obRun (\<lambda>a. True) exampleRun obState0 = Inr ob \<and> upstreamDatagram (setMessageId exampleQuery 2) ob = Inr ob' \<and>
     sentClient ob' = sentClient ob @ [(msg, 5, 4000)] \<and> messageId msg = messageId exampleQuery"
proof -
  obtain ob where run: "obRun (\<lambda>a. True) exampleRun obState0 = Inr ob" and pending: "m_pendingQueries ob 2 = Some \<lparr>clientAddress = 5,
      clientPort = 4000, originalId = messageId exampleQuery, pq_host = ''ya.ru'', requestKey = setMessageId exampleQuery 0,
      matched = False\<rparr>" using exampleRun_state by blast
  show ?thesis
    using conjunct2 [OF response_translated [OF run, of "setMessageId exampleQuery 2"], THEN spec, THEN mp,
        unfolded messageId_example, OF pending] run by auto
qed

text \<open>C21. The observer answers nobody who did not ask: every datagram sent to a client carries the identifier of a query that
  this client sent before, from the same address and port, and there are never more answers than queries.\<close>

theorem no_unsolicited_answers:
  assumes "obRun usable es obState0 = Inr ob"
  shows "(\<forall>(msg, addr, port) \<in> set (sentClient ob). \<exists>request. FromClient request addr port \<in> set es \<and> messageId msg = messageId request) \<and>
     length (sentClient ob) \<le> length (filter isQuery es)"
  using accounted_run [OF assms] by (fastforce simp: accounted_def asked_def)

theorem no_unsolicited_answers_witness:
  "\<exists>ob. obRun (\<lambda>a. True) exampleRun obState0 = Inr ob \<and> length (sentClient ob) \<le> 1"
proof -
  obtain ob where run: "obRun (\<lambda>a. True) exampleRun obState0 = Inr ob" using exampleRun_state by blast
  with no_unsolicited_answers [OF run] show ?thesis by (auto simp: exampleRun_def isQuery_def)
qed

text \<open>C32. A datagram of a client makes the service run into undefined behaviour exactly when the host it names normalises to
  nothing, such as a name of a single slash, while there are rules and servers.\<close>

theorem query_undefined:
  assumes "queryHost request = Some h"
  shows "clientDatagram request addr port ob = Inl Undefined \<longleftrightarrow>
     h \<noteq> [] \<and> m_upstreamServers ob \<noteq> [] \<and> m_rules ob \<noteq> [] \<and> normalizeHostText h = None"
  using assms forward_not_undefined matchesRules_None [of "m_rules ob" h]
  by (auto simp: clientDatagram_def Let_def split: option.splits)

theorem query_undefined_witness:
  "clientDatagram (encResponse 7 0x0100 [[47]] []) 5 4000 (exampleObserver\<lparr>m_rules := [exampleRule]\<rparr>) = Inl Undefined"
proof -
  have "queryHost (encResponse 7 0x0100 [[47]] []) = Some (toLower (nameText [[47]]))"
    by (rule queryHost_encResponse) (simp_all add: nameOk_def labelOk_def)
  moreover have "toLower (nameText [[47]]) = ''/''" by code_simp
  ultimately have host: "queryHost (encResponse 7 0x0100 [[47]] []) = Some ''/''" by simp
  have "normalizeHostText ''/'' = None" by code_simp
  then show ?thesis
    using query_undefined [OF host, of 5 4000 "exampleObserver\<lparr>m_rules := [exampleRule]\<rparr>"]
    by (simp add: exampleObserver_def obState0_def)
qed

end
