(* ===== verification/Dns_Utils.thy ===== *)
theory Dns_Utils
  imports Dns_Observer
begin

text \<open>
  \<^verbatim>\<open>client/platforms/macos/daemon/dnsutilsmacos.cpp\<close>: while a connection is up, the service replaces the DNS
  configuration of every network service by one that points at the DNS observer, and puts the saved one
  back afterwards.

  The dynamic store of macOS is a map from paths to dictionaries; a path is a pair of the domain (\<^const>\<open>True\<close>
  for \<^verbatim>\<open>Setup:\<close>, \<^const>\<open>False\<close> for \<^verbatim>\<open>State:\<close>) and the identifier of the network service. What the store lists and
  which writes it accepts are parameters. A \<^verbatim>\<open>QString\<close> that is read from the store is null exactly when it is
  empty, so one value models both.
\<close>

section \<open>The store\<close>

datatype cf = CFString string | CFArray "cf list" | CFOther

type_synonym dnsDict = "string \<rightharpoonup> cf"
type_synonym dnsPath = "bool \<times> string"
type_synonym dnsStore = "dnsPath \<rightharpoonup> dnsDict"

record 'a duEnv =
  serviceKeys :: "dnsStore \<Rightarrow> string list option"     \<comment> \<open>identifiers in the list of network services, or a null list\<close>
  dnsKeys :: "dnsStore \<Rightarrow> dnsPath list option"        \<comment> \<open>paths in the list of DNS entries, or a null list\<close>
  writes :: "dnsPath \<Rightarrow> bool"                         \<comment> \<open>whether the store accepts a change\<close>
  upstreamBinds :: bool
  clientBinds :: bool
  parseHost :: "string \<Rightarrow> 'a"                          \<comment> \<open>\<^verbatim>\<open>QHostAddress(text)\<close>\<close>
  hostText :: "'a \<Rightarrow> string"
  usableHost :: "'a \<Rightarrow> bool"                           \<comment> \<open>an IPv4 address other than the local host\<close>
  SERVICE_NAME :: string

record dnsBackup =
  bk_domain :: string
  bk_search :: "string list"
  bk_servers :: "string list"
  bk_sortlist :: "string list"

record 'a duState =
  m_prevServices :: "dnsBackup qmap"
  m_currentResolvers :: "'a list"
  m_splitRouteObserver :: "'a obState"
  scStore :: dnsStore
  flushes :: nat

definition localResolverDomain :: "'a duEnv \<Rightarrow> string" where
  "localResolverDomain env = (if SERVICE_NAME env = ''AmneziaVPN-service'' then ''lan'' else ''alzheimervpn.lan'')"

definition backupValid :: "dnsBackup \<Rightarrow> bool" where
  "backupValid b \<longleftrightarrow> bk_domain b \<noteq> [] \<or> bk_search b \<noteq> [] \<or> bk_servers b \<noteq> [] \<or> bk_sortlist b \<noteq> []"

definition cfParseString :: "cf option \<Rightarrow> string" where
  "cfParseString ref = (case ref of Some (CFString s) \<Rightarrow> s | _ \<Rightarrow> [])"

definition cfParseStringList :: "cf option \<Rightarrow> string list" where
  "cfParseStringList ref = (case ref of Some (CFArray xs) \<Rightarrow> map (\<lambda>x. cfParseString (Some x)) xs | _ \<Rightarrow> [])"

definition cfDictSetString :: "string \<Rightarrow> string \<Rightarrow> dnsDict \<Rightarrow> dnsDict" where
  "cfDictSetString name v d = (if v = [] then d else d(name \<mapsto> CFString v))"

definition cfDictSetStringList :: "string \<Rightarrow> string list \<Rightarrow> dnsDict \<Rightarrow> dnsDict" where
  "cfDictSetStringList name vs d = (if vs = [] then d else d(name \<mapsto> CFArray (map CFString vs)))"

definition isAmneziaLocalResolverConfig :: "'a duEnv \<Rightarrow> dnsDict option \<Rightarrow> bool" where
  "isAmneziaLocalResolverConfig env ref = (case ref of
       None \<Rightarrow> False
     | Some config \<Rightarrow> cfParseStringList (config ''ServerAddresses'') = [''127.0.0.1''] \<and>
         cfParseString (config ''DomainName'') = localResolverDomain env)"

definition storeSet :: "'a duEnv \<Rightarrow> dnsPath \<Rightarrow> dnsDict option \<Rightarrow> dnsStore \<Rightarrow> dnsStore" where
  "storeSet env path d s = (if writes env path then s(path := d) else s)"

section \<open>Saving and restoring\<close>

definition readBackup :: "dnsDict option \<Rightarrow> dnsBackup" where
  "readBackup c = (case c of
       None \<Rightarrow> \<lparr>bk_domain = [], bk_search = [], bk_servers = [], bk_sortlist = []\<rparr>
     | Some config \<Rightarrow> \<lparr>bk_domain = cfParseString (config ''DomainName''),
         bk_search = cfParseStringList (config ''SearchDomains''),
         bk_servers = cfParseStringList (config ''ServerAddresses''),
         bk_sortlist = cfParseStringList (config ''SortList'')\<rparr>)"

definition backupService :: "string \<Rightarrow> 'a duState \<Rightarrow> 'a duState" where
  "backupService uuid st =
     (if qcontains (m_prevServices st) uuid then st
      else st\<lparr>m_prevServices := qinsert uuid (readBackup (scStore st (True, uuid))) (m_prevServices st)\<rparr>)"

definition backedUpResolvers :: "'a duEnv \<Rightarrow> 'a duState \<Rightarrow> 'a list" where
  "backedUpResolvers env st =
     fold (\<lambda>(_, b) res. appendNew res (filter (usableHost env) (map (parseHost env) (bk_servers b)))) (m_prevServices st) []"

fun overrideServices :: "'a duEnv \<Rightarrow> dnsDict \<Rightarrow> string list \<Rightarrow> 'a duState \<Rightarrow> 'a duState" where
  "overrideServices env cfg [] st = st"
| "overrideServices env cfg (uuid # us) st =
     (if uuid = [] then overrideServices env cfg us st
      else let st = backupService uuid st
           in overrideServices env cfg us (st\<lparr>scStore := storeSet env (True, uuid) (Some cfg) (scStore st)\<rparr>))"

definition updateResolvers :: "'a duEnv \<Rightarrow> 'a list \<Rightarrow> 'a duState \<Rightarrow> bool \<times> 'a duState" where
  "updateResolvers env resolvers st =
     (let st = st\<lparr>m_currentResolvers := resolvers\<rparr>;
          matchedResolvers = backedUpResolvers env st;
          (started, ob) = startObserver (usableHost env) (upstreamBinds env) (clientBinds env) resolvers matchedResolvers
             (m_splitRouteObserver st);
          resolverList = (if started then [''127.0.0.1''] else map (hostText env) resolvers);
          st = st\<lparr>m_splitRouteObserver := (if started then ob else stopObserver ob)\<rparr>
      in case serviceKeys env (scStore st) of
          None \<Rightarrow> (False, st)
        | Some netServices \<Rightarrow>
            let dnsConfig = cfDictSetString ''DomainName'' (localResolverDomain env)
                  (cfDictSetStringList ''ServerAddresses'' resolverList Map.empty);
                st = overrideServices env dnsConfig netServices st
            in (True, st\<lparr>flushes := Suc (flushes st)\<rparr>))"

definition restoredConfig :: "dnsBackup \<Rightarrow> dnsDict option" where
  "restoredConfig b =
     (if backupValid b
      then Some (cfDictSetStringList ''SortList'' (bk_sortlist b) (cfDictSetStringList ''ServerAddresses'' (bk_servers b)
             (cfDictSetStringList ''SearchDomains'' (bk_search b) (cfDictSetString ''DomainName'' (bk_domain b) Map.empty))))
      else None)"

definition removeStaleLocalResolverOverrides :: "'a duEnv \<Rightarrow> dnsStore \<Rightarrow> dnsStore" where
  "removeStaleLocalResolverOverrides env s = (case dnsKeys env s of
       None \<Rightarrow> s
     | Some dnsServices \<Rightarrow>
         fold (\<lambda>path s. if isAmneziaLocalResolverConfig env (s path) then storeSet env path None s else s) dnsServices s)"

definition restoreResolvers :: "'a duEnv \<Rightarrow> 'a duState \<Rightarrow> bool \<times> 'a duState" where
  "restoreResolvers env st =
     (let st = st\<lparr>m_splitRouteObserver := stopObserver (m_splitRouteObserver st), m_currentResolvers := []\<rparr>;
          s = fold (\<lambda>(uuid, backup) s. storeSet env (True, uuid) (restoredConfig backup) s) (m_prevServices st) (scStore st)
      in (True, st\<lparr>m_prevServices := [], scStore := removeStaleLocalResolverOverrides env s\<rparr>))"

definition configureSplitTunnelRules :: "'a duEnv \<Rightarrow> string list \<Rightarrow> 'a duState \<Rightarrow> fault + 'a duState" where
  "configureSplitTunnelRules env rules st =
     (case setRules rules (m_splitRouteObserver st) of
        Inl f \<Rightarrow> Inl f
      | Inr ob \<Rightarrow>
          let st = st\<lparr>m_splitRouteObserver := ob\<rparr>
          in Inr (if m_currentResolvers st \<noteq> [] then snd (updateResolvers env (m_currentResolvers st) st) else st))"

text \<open>The constructor, when the store can be opened.\<close>

definition createDnsUtils :: "'a duEnv \<Rightarrow> dnsStore \<Rightarrow> 'a duState" where
  "createDnsUtils env s = \<lparr>m_prevServices = [], m_currentResolvers = [], m_splitRouteObserver = obState0,
     scStore = removeStaleLocalResolverOverrides env s, flushes = 0\<rparr>"

section \<open>A session\<close>

datatype 'a duEvent = UpdateResolvers "'a list" | ConfigureRules "string list"

fun duRun :: "'a duEnv \<Rightarrow> 'a duEvent list \<Rightarrow> 'a duState \<Rightarrow> fault + 'a duState" where
  "duRun env [] st = Inr st"
| "duRun env (UpdateResolvers rs # es) st = duRun env es (snd (updateResolvers env rs st))"
| "duRun env (ConfigureRules rules # es) st =
     (case configureSplitTunnelRules env rules st of Inl f \<Rightarrow> Inl f | Inr st \<Rightarrow> duRun env es st)"

section \<open>Lemmas\<close>

lemma read_restored: "readBackup (restoredConfig b) = b"
  by (cases b) (auto simp: restoredConfig_def readBackup_def backupValid_def cfDictSetString_def cfDictSetStringList_def
      cfParseString_def cfParseStringList_def comp_def)

lemma local_iff:
  "isAmneziaLocalResolverConfig env c \<longleftrightarrow>
     bk_servers (readBackup c) = [''127.0.0.1''] \<and> bk_domain (readBackup c) = localResolverDomain env"
  by (auto simp: isAmneziaLocalResolverConfig_def readBackup_def split: option.splits)

text \<open>A store over the paths \<open>keyspace\<close> that lists what it holds and accepts every change.\<close>

definition storeWorks :: "'a duEnv \<Rightarrow> dnsPath list \<Rightarrow> bool" where
  "storeWorks env keyspace \<longleftrightarrow> (\<forall>p. writes env p) \<and>
     (\<forall>s. dom s \<subseteq> set keyspace \<longrightarrow> dnsKeys env s = Some (filter (\<lambda>p. s p \<noteq> None) keyspace)) \<and>
     (\<forall>s us u. serviceKeys env s = Some us \<and> u \<in> set us \<longrightarrow> (True, u) \<in> set keyspace)"

lemma storeSet_works: "storeWorks env keyspace \<Longrightarrow> storeSet env p d s = s(p := d)"
  by (cases p) (simp add: storeWorks_def storeSet_def)

lemma sweep_fold:
  assumes "storeWorks env keyspace"
  shows "fold (\<lambda>path s. if isAmneziaLocalResolverConfig env (s path) then storeSet env path None s else s) ps s =
     (\<lambda>p. if p \<in> set ps \<and> isAmneziaLocalResolverConfig env (s p) then None else s p)"
proof (induction ps arbitrary: s)
  case (Cons p ps)
  have none: "\<not> isAmneziaLocalResolverConfig env None" by (simp add: isAmneziaLocalResolverConfig_def)
  show ?case
    by (cases "isAmneziaLocalResolverConfig env (s p)")
      (simp_all add: Cons.IH storeSet_works [OF assms], auto simp: fun_eq_iff none)
qed simp

lemma sweep_works:
  assumes "storeWorks env keyspace" "dom s \<subseteq> set keyspace"
  shows "removeStaleLocalResolverOverrides env s = (\<lambda>p. if isAmneziaLocalResolverConfig env (s p) then None else s p)"
proof -
  have "p \<in> set (filter (\<lambda>p. s p \<noteq> None) keyspace)" if "isAmneziaLocalResolverConfig env (s p)" for p
    using that assms(2) by (auto simp: isAmneziaLocalResolverConfig_def split: option.splits)
  then show ?thesis
    using assms by (auto simp: removeStaleLocalResolverOverrides_def storeWorks_def sweep_fold [OF assms(1)] fun_eq_iff)
qed

text \<open>During a session that began with the store \<open>s0\<close>: what is saved is what \<open>s0\<close> held, and what is not saved was
  not changed.\<close>

definition sessionInv :: "dnsPath list \<Rightarrow> dnsStore \<Rightarrow> dnsBackup qmap \<Rightarrow> dnsStore \<Rightarrow> bool" where
  "sessionInv keyspace s0 prev s \<longleftrightarrow> qmapWf prev \<and> dom s \<subseteq> set keyspace \<and>
     (\<forall>u. s (False, u) = s0 (False, u)) \<and>
     (\<forall>u b. qvalue prev u = Some b \<longrightarrow> b = readBackup (s0 (True, u)) \<and> (True, u) \<in> set keyspace) \<and>
     (\<forall>u. qvalue prev u = None \<longrightarrow> s (True, u) = s0 (True, u))"

abbreviation inSession :: "dnsPath list \<Rightarrow> dnsStore \<Rightarrow> 'a duState \<Rightarrow> bool" where
  "inSession keyspace s0 st \<equiv> sessionInv keyspace s0 (m_prevServices st) (scStore st)"

lemma sessionInv_save:
  assumes "sessionInv keyspace s0 prev s" "(True, u) \<in> set keyspace" "qvalue prev u = None"
  shows "sessionInv keyspace s0 (qinsert u (readBackup (s (True, u))) prev) s"
  using assms by (simp add: sessionInv_def qmapWf_qinsert)

lemma sessionInv_set:
  assumes "sessionInv keyspace s0 prev s" "qvalue prev u \<noteq> None"
  shows "sessionInv keyspace s0 prev (s((True, u) \<mapsto> cfg))"
  using assms unfolding sessionInv_def by auto

lemma session_override:
  assumes "storeWorks env keyspace" "inSession keyspace s0 st" "\<forall>u \<in> set us. (True, u) \<in> set keyspace"
  shows "inSession keyspace s0 (overrideServices env cfg us st)"
  using assms(2,3)
proof (induction us arbitrary: st)
  case (Cons u us)
  define st1 where "st1 = backupService u st"
  have "inSession keyspace s0 st1"
    using Cons.prems sessionInv_save [of keyspace s0 "m_prevServices st" "scStore st" u]
    by (auto simp: st1_def backupService_def qcontains_iff)
  moreover have "qvalue (m_prevServices st1) u \<noteq> None" by (simp add: st1_def backupService_def qcontains_iff)
  ultimately have "sessionInv keyspace s0 (m_prevServices st1) ((scStore st1)((True, u) \<mapsto> cfg))" by (rule sessionInv_set)
  then have "inSession keyspace s0 (overrideServices env cfg us (st1\<lparr>scStore := (scStore st1)((True, u) \<mapsto> cfg)\<rparr>))"
    using Cons.prems(2) by (intro Cons.IH) (simp_all add: fun_upd_def)
  moreover have "inSession keyspace s0 (overrideServices env cfg us st)" using Cons by simp
  ultimately show ?case by (simp add: Let_def storeSet_works [OF assms(1)] flip: st1_def)
qed simp

lemma session_update:
  assumes "storeWorks env keyspace" "inSession keyspace s0 st"
  shows "inSession keyspace s0 (snd (updateResolvers env rs st))"
proof -
  obtain ob list where upd: "updateResolvers env rs st =
      (let st = st\<lparr>m_currentResolvers := rs, m_splitRouteObserver := ob\<rparr>
       in case serviceKeys env (scStore st) of None \<Rightarrow> (False, st)
        | Some us \<Rightarrow> let st = overrideServices env (cfDictSetString ''DomainName'' (localResolverDomain env)
                  (cfDictSetStringList ''ServerAddresses'' list Map.empty)) us st
            in (True, st\<lparr>flushes := Suc (flushes st)\<rparr>))"
    unfolding updateResolvers_def Let_def by (simp add: case_prod_beta)
  show ?thesis
  proof (cases "serviceKeys env (scStore st)")
    case (Some us)
    then have "\<forall>u \<in> set us. (True, u) \<in> set keyspace" using assms(1) unfolding storeWorks_def by blast
    then show ?thesis
      using session_override [OF assms(1), of s0 "st\<lparr>m_currentResolvers := rs, m_splitRouteObserver := ob\<rparr>" us] assms(2) Some
      by (simp add: upd Let_def)
  qed (use assms(2) in \<open>simp add: upd Let_def\<close>)
qed

lemma session_run:
  assumes "storeWorks env keyspace" "inSession keyspace s0 st" "duRun env es st = Inr st'"
  shows "inSession keyspace s0 st'"
  using assms
proof (induction env es st rule: duRun.induct)
  case (2 env rs es st)
  from 2(1) [OF 2(2) session_update [OF 2(2,3)]] 2(4) show ?case by simp
next
  case (3 env rules es st)
  obtain st1 where run: "configureSplitTunnelRules env rules st = Inr st1" "duRun env es st1 = Inr st'"
    using "3.prems"(3) by (auto split: sum.splits)
  then obtain ob where "st1 = (let st = st\<lparr>m_splitRouteObserver := ob\<rparr>
      in if m_currentResolvers st \<noteq> [] then snd (updateResolvers env (m_currentResolvers st) st) else st)"
    by (auto simp: configureSplitTunnelRules_def Let_def split: sum.splits)
  then have "inSession keyspace s0 st1"
    using session_update [OF "3.prems"(1), of s0 "st\<lparr>m_splitRouteObserver := ob\<rparr>"] "3.prems"(2) by (simp add: Let_def)
  then show ?case using "3.IH" run "3.prems"(1) by blast
qed simp

lemma restore_fold:
  assumes "storeWorks env keyspace" "distinct (map fst prev)"
  shows "fold (\<lambda>(uuid, backup) s. storeSet env (True, uuid) (restoredConfig backup) s) prev s =
     (\<lambda>p. case p of (True, u) \<Rightarrow> (case map_of prev u of None \<Rightarrow> s p | Some b \<Rightarrow> restoredConfig b) | (False, u) \<Rightarrow> s p)"
  using assms(2)
proof (induction prev arbitrary: s)
  case (Cons ub prev)
  obtain u b where ub: "ub = (u, b)" by (cases ub)
  have "map_of prev u = None" using Cons.prems ub by (simp add: map_of_eq_None_iff)
  moreover have "distinct (map fst prev)" using Cons.prems by simp
  note Cons.IH [OF this, of "s((True, u) := restoredConfig b)"]
  ultimately show ?case
    by (intro ext) (simp add: ub storeSet_works [OF assms(1)] split: prod.splits bool.splits option.splits)
qed (auto simp: fun_eq_iff split: bool.splits)

text \<open>The servers saved so far are read before the services are saved, so the first activation of a session has no
  servers for matched hosts.\<close>

lemma overrideServices_observer: "m_splitRouteObserver (overrideServices env cfg us st) = m_splitRouteObserver st"
  by (induction us arbitrary: st) (simp_all add: Let_def backupService_def)

lemma first_update_unmatched:
  assumes "m_prevServices st = []"
  shows "m_matchedUpstreamServers (m_splitRouteObserver (snd (updateResolvers env rs st))) = []"
proof -
  have "backedUpResolvers env (st\<lparr>m_currentResolvers := rs\<rparr>) = []" using assms by (simp add: backedUpResolvers_def)
  moreover have "m_matchedUpstreamServers (snd (startObserver usable ub cb us [] ob)) = []" for usable ub cb us and ob :: "'b obState"
    by (simp add: startObserver_def stopObserver_def Let_def appendUsableServers_def)
  ultimately show ?thesis
    by (auto simp: updateResolvers_def Let_def case_prod_beta overrideServices_observer stopObserver_def split: option.splits)
qed

section \<open>Properties\<close>

text \<open>C25. When the store lists what it holds and accepts the changes, and nobody else writes to it in between, ending a session
  gives every network service back its resolvers: whatever requests came during the session, the domain, the servers, the
  search domains and the sort list read as they did when the service was created. An entry is either the one it was, or,
  for a service that was overridden, made of these four keys alone (another key of its DNS dictionary is lost). No entry
  points at the local resolver, nothing is left saved and the observer is stopped.\<close>

theorem resolvers_restored:
  assumes "storeWorks env keyspace" and "dom s \<subseteq> set keyspace"
    and "duRun env es (createDnsUtils env s) = Inr st" and "restoreResolvers env st = (ok, st')"
  shows "readBackup (scStore st' p) = readBackup (scStore (createDnsUtils env s) p) \<and>
     scStore st' p \<in> {scStore (createDnsUtils env s) p, restoredConfig (readBackup (scStore (createDnsUtils env s) p))} \<and>
     \<not> isAmneziaLocalResolverConfig env (scStore st' p) \<and> m_prevServices st' = [] \<and> \<not> isActive (m_splitRouteObserver st')"
proof -
  define s0 where "s0 = scStore (createDnsUtils env s)"
  have s0: "s0 = (\<lambda>p. if isAmneziaLocalResolverConfig env (s p) then None else s p)"
    by (simp add: s0_def createDnsUtils_def sweep_works [OF assms(1,2)])
  have clean: "\<not> isAmneziaLocalResolverConfig env (s0 p)" for p
    by (simp add: s0 isAmneziaLocalResolverConfig_def)
  have "dom s0 \<subseteq> set keyspace" using assms(2) by (auto simp: s0 split: if_splits)
  then have "inSession keyspace s0 (createDnsUtils env s)"
    by (simp add: sessionInv_def createDnsUtils_def flip: s0_def) (simp add: s0_def createDnsUtils_def)
  then have inv: "inSession keyspace s0 st" using session_run [OF assms(1) _ assms(3)] by blast
  define s1 where "s1 = fold (\<lambda>(uuid, backup) s. storeSet env (True, uuid) (restoredConfig backup) s) (m_prevServices st) (scStore st)"
  have s1: "s1 = (\<lambda>p. case p of (True, u) \<Rightarrow> (case map_of (m_prevServices st) u of None \<Rightarrow> scStore st p
      | Some b \<Rightarrow> restoredConfig b) | (False, u) \<Rightarrow> scStore st p)"
    unfolding s1_def by (rule restore_fold [OF assms(1)]) (use inv in \<open>simp add: sessionInv_def qmapWf_distinct\<close>)
  have read: "readBackup (s1 p) = readBackup (s0 p)" for p
    using inv by (cases p) (auto simp: s1 sessionInv_def qvalue_def read_restored split: option.splits bool.splits)
  have kept: "s1 p \<in> {s0 p, restoredConfig (readBackup (s0 p))}" for p
    using inv by (cases p) (auto simp: s1 sessionInv_def qvalue_def split: option.splits bool.splits)
  have "s0 p = Some d \<Longrightarrow> p \<in> set keyspace" for p d using \<open>dom s0 \<subseteq> set keyspace\<close> by blast
  then have "dom s1 \<subseteq> set keyspace"
    using inv by (auto simp: s1 sessionInv_def qvalue_def split: option.splits bool.splits)
  moreover have "\<not> isAmneziaLocalResolverConfig env (s1 p)" for p using clean [of p] read [of p] by (simp add: local_iff)
  ultimately have "removeStaleLocalResolverOverrides env s1 = s1" by (simp add: sweep_works [OF assms(1)])
  then have st': "scStore st' = s1" "m_prevServices st' = []" "\<not> isActive (m_splitRouteObserver st')"
    using assms(4) by (auto simp: restoreResolvers_def Let_def isActive_def stopObserver_def simp flip: s1_def)
  then show ?thesis using read clean kept by (simp add: local_iff flip: s0_def)
qed

definition exampleStoreEnv :: "string duEnv" where
  "exampleStoreEnv = \<lparr>serviceKeys = (\<lambda>s. Some [''A'']), dnsKeys = (\<lambda>s. Some (filter (\<lambda>p. s p \<noteq> None) [(True, ''A'')])),
     writes = (\<lambda>p. True), upstreamBinds = True, clientBinds = True, parseHost = (\<lambda>t. t), hostText = (\<lambda>t. t),
     usableHost = (\<lambda>t. t \<noteq> ''127.0.0.1''), SERVICE_NAME = ''AmneziaVPN-service''\<rparr>"

definition exampleStore :: dnsStore where
  "exampleStore = [(True, ''A'') \<mapsto> [''ServerAddresses'' \<mapsto> CFArray [CFString ''9.9.9.9'']]]"

theorem resolvers_restored_witness:
  "bk_servers (readBackup (scStore (snd (restoreResolvers exampleStoreEnv
     (snd (updateResolvers exampleStoreEnv [''10.8.0.1''] (createDnsUtils exampleStoreEnv exampleStore))))) (True, ''A''))) = [''9.9.9.9'']"
proof -
  have "storeWorks exampleStoreEnv [(True, ''A'')]" by (simp add: storeWorks_def exampleStoreEnv_def)
  moreover have "dom exampleStore \<subseteq> set [(True, ''A'')]" by (simp add: exampleStore_def)
  moreover have "bk_servers (readBackup (scStore (createDnsUtils exampleStoreEnv exampleStore) (True, ''A''))) = [''9.9.9.9'']"
    by (simp add: createDnsUtils_def removeStaleLocalResolverOverrides_def exampleStoreEnv_def exampleStore_def storeSet_def
        isAmneziaLocalResolverConfig_def readBackup_def cfParseStringList_def cfParseString_def)
  ultimately show ?thesis
    using resolvers_restored [of exampleStoreEnv "[(True, ''A'')]" exampleStore "[UpdateResolvers [''10.8.0.1'']]"
        "snd (updateResolvers exampleStoreEnv [''10.8.0.1''] (createDnsUtils exampleStoreEnv exampleStore))" _ _ "(True, ''A'')"]
    by (metis duRun.simps(1,2) prod.collapse)
qed

end
