(* ===== verification/Installer_Api.thy ===== *)
theory Installer_Api
  imports Complex_Main Net_Formats
begin

text \<open>
  What the installer scripts under \<^verbatim>\<open>deploy/installer/qif\<close> use of JavaScript and of the Qt Installer
  Framework.

  JavaScript: strings, \<^verbatim>\<open>Number\<close>, \<^verbatim>\<open>trim\<close>, \<^verbatim>\<open>split\<close>, \<^verbatim>\<open>indexOf\<close>, undefined values as \<^const>\<open>None\<close> and thrown
  type errors. Numbers are exact rationals instead of doubles.

  The framework is outside the sources. Every call of it that has an effect, waits for the user or
  looks at something that changes is logged, and every answer is a parameter that may depend on the
  whole log: \<open>instEnv\<close> holds these parameters.
\<close>

section \<open>JavaScript\<close>

datatype jsError = TypeError

datatype jsNum = NaN | Num rat | PosInfinity | NegInfinity

definition jsSpace :: "char \<Rightarrow> bool" where
  "jsSpace c \<longleftrightarrow> (of_char c :: nat) \<in> {9, 10, 11, 12, 13, 32, 160}"

definition jsTrim :: "string \<Rightarrow> string" where
  "jsTrim s = rev (dropWhile jsSpace (rev (dropWhile jsSpace s)))"

text \<open>\<^verbatim>\<open>split(/\n+/)\<close>\<close>

function splitRuns :: "char \<Rightarrow> string \<Rightarrow> string list" where
  "splitRuns c s =
     (let rest = dropWhile (\<lambda>x. x \<noteq> c) s in
      if rest = [] then [takeWhile (\<lambda>x. x \<noteq> c) s]
      else takeWhile (\<lambda>x. x \<noteq> c) s # splitRuns c (dropWhile (\<lambda>x. x = c) rest))"
  by pat_completeness auto
termination
proof (relation "measure (\<lambda>(c, s). length s)")
  fix c :: char and s rest :: string
  assume rest: "rest = dropWhile (\<lambda>x. x \<noteq> c) s" and "rest \<noteq> []"
  then have "hd rest = c" using hd_dropWhile [of "\<lambda>x. x \<noteq> c" s] by auto
  with \<open>rest \<noteq> []\<close> obtain t where "rest = c # t" by (cases rest) auto
  then have "length (dropWhile (\<lambda>x. x = c) rest) \<le> length t" by (simp add: length_dropWhile_le)
  also have "\<dots> < length s" using \<open>rest = c # t\<close> rest length_dropWhile_le [of "\<lambda>x. x \<noteq> c" s] by simp
  finally show "((c, dropWhile (\<lambda>x. x = c) rest), c, s) \<in> measure (\<lambda>(c, s). length s)" by simp
qed simp

declare splitRuns.simps [simp del]

definition jsIndexOf :: "string \<Rightarrow> string \<Rightarrow> int \<Rightarrow> int" where
  "jsIndexOf s p position =
     (case indexOfFrom p 0 s (nat (min (max position 0) (int (length s)))) of None \<Rightarrow> -1 | Some i \<Rightarrow> int i)"

text \<open>\<^verbatim>\<open>s.search(p)\<close> for a text \<open>p\<close> without special characters.\<close>

definition jsSearch :: "string \<Rightarrow> string \<Rightarrow> int" where
  "jsSearch s p = jsIndexOf s p 0"

text \<open>\<^verbatim>\<open>Number(text)\<close>.\<close>

definition radixDigit :: "nat \<Rightarrow> char \<Rightarrow> nat option" where
  "radixDigit r c = (let n = of_char c :: nat;
     v = (if 48 \<le> n \<and> n \<le> 57 then n - 48 else if 97 \<le> n \<and> n \<le> 102 then n - 87
          else if 65 \<le> n \<and> n \<le> 70 then n - 55 else 99)
     in if v < r then Some v else None)"

definition radixNumber :: "nat \<Rightarrow> string \<Rightarrow> jsNum" where
  "radixNumber r s =
     (if s = [] \<or> list_ex (\<lambda>c. radixDigit r c = None) s then NaN
      else Num (of_nat (foldl (\<lambda>n c. r * n + the (radixDigit r c)) 0 s)))"

definition exponentOf :: "string \<Rightarrow> int option" where
  "exponentOf s = (case s of
       [] \<Rightarrow> Some 0
     | c # t \<Rightarrow> if c \<noteq> CHR ''e'' \<and> c \<noteq> CHR ''E'' then None
         else let (sgn, ds) = (case t of [] \<Rightarrow> (1, []) | d # u \<Rightarrow>
                if d = CHR ''-'' then (-1, u) else if d = CHR ''+'' then (1, u) else (1, t))
              in if ds = [] \<or> \<not> list_all isDigit ds then None else Some (sgn * int (readNat ds)))"

definition unsignedDecimal :: "string \<Rightarrow> rat option" where
  "unsignedDecimal s =
     (let a = takeWhile isDigit s; r = dropWhile isDigit s;
          (b, r') = (case r of [] \<Rightarrow> ([], []) | c # t \<Rightarrow>
             if c = CHR ''.'' then (takeWhile isDigit t, dropWhile isDigit t) else ([], r))
      in if a = [] \<and> b = [] then None
         else case exponentOf r' of
             None \<Rightarrow> None
           | Some e \<Rightarrow> let k = e - int (length b); m = of_nat (readNat (a @ b)) in
               Some (if k \<ge> 0 then m * 10 ^ nat k else m / 10 ^ nat (- k)))"

definition signedDecimal :: "string \<Rightarrow> jsNum" where
  "signedDecimal s =
     (let (sgn, t) = (case s of [] \<Rightarrow> (1, []) | c # u \<Rightarrow>
        if c = CHR ''-'' then (-1, u) else if c = CHR ''+'' then (1, u) else (1, s))
      in if t = ''Infinity'' then (if sgn < (0 :: rat) then NegInfinity else PosInfinity)
         else case unsignedDecimal t of None \<Rightarrow> NaN | Some v \<Rightarrow> Num (sgn * v))"

definition jsNumber :: "string \<Rightarrow> jsNum" where
  "jsNumber text =
     (let s = jsTrim text in
      if s = [] then Num 0
      else if take 2 s = ''0x'' \<or> take 2 s = ''0X'' then radixNumber 16 (drop 2 s)
      else if take 2 s = ''0o'' \<or> take 2 s = ''0O'' then radixNumber 8 (drop 2 s)
      else if take 2 s = ''0b'' \<or> take 2 s = ''0B'' then radixNumber 2 (drop 2 s)
      else signedDecimal s)"

text \<open>Comparisons with a number are false on \<^const>\<open>NaN\<close>.\<close>

fun jsGreater :: "jsNum \<Rightarrow> rat \<Rightarrow> bool" where
  "jsGreater (Num x) y \<longleftrightarrow> x > y"
| "jsGreater PosInfinity y \<longleftrightarrow> True"
| "jsGreater _ y \<longleftrightarrow> False"

fun jsAtLeast :: "jsNum \<Rightarrow> rat \<Rightarrow> bool" where
  "jsAtLeast (Num x) y \<longleftrightarrow> x \<ge> y"
| "jsAtLeast PosInfinity y \<longleftrightarrow> True"
| "jsAtLeast _ y \<longleftrightarrow> False"

section \<open>Calls of the framework\<close>

datatype button = NextButton | FinishButton | CancelButton | CommitButton
datatype answer = AnswerOk | AnswerCancel | AnswerRetry | AnswerAbort | AnswerYes | AnswerNo

text \<open>An argument of \<^verbatim>\<open>addOperation\<close>: a text or an array of texts.\<close>

datatype opArg = Txt string | Arr "string list"

datatype call =
    SetValue string string
  | SetDefaultPageVisible string bool
  | ClickButton button
  | SetCancelled
  | AutoAcceptMessageBoxes
  | SetMessageBoxAutomaticAnswer string answer
  | Execute string "string list"
  | ExecuteDetached string "string list" string
  | FileExists "string option"
  | FindPath string "string list"
  | MessageBox string string string
  | ReadClock
  | GainAdminRights
  | DropAdminRights
  | Disconnect string string
  | Connect string string
  | HideChild string
  | SetText string
  | DefaultOperations
  | AddOperation "opArg list"
  | AddElevatedOperation "opArg list"
  | ConsoleLog string

type_synonym history = "call list"

record instEnv =
  valueOf :: "history \<Rightarrow> string \<Rightarrow> string"                  \<comment> \<open>\<^verbatim>\<open>installer.value\<close>\<close>
  isInstaller :: bool
  isUpdater :: bool
  isUninstaller :: bool
  succeeded :: "history \<Rightarrow> bool"                        \<comment> \<open>\<^verbatim>\<open>installer.status === QInstaller.Success\<close>\<close>
  fileThere :: "history \<Rightarrow> string option \<Rightarrow> bool"       \<comment> \<open>\<^verbatim>\<open>installer.fileExists\<close>, of a text or undefined\<close>
  execResult :: "history \<Rightarrow> string \<Rightarrow> string list \<Rightarrow> (string \<times> int) option"
    \<comment> \<open>\<^verbatim>\<open>installer.execute\<close>: output and exit code, or the empty array\<close>
  foundPath :: "history \<Rightarrow> string \<Rightarrow> string list \<Rightarrow> string"
  answerOf :: "history \<Rightarrow> answer"                         \<comment> \<open>the user's answer to the last message box\<close>
  targetPage :: "history \<Rightarrow> string option"               \<comment> \<open>\<^verbatim>\<open>gui.pageById(TargetDirectory)\<close>: its line edit's text, or null\<close>
  introPage :: "history \<Rightarrow> (string \<Rightarrow> bool) option"      \<comment> \<open>\<^verbatim>\<open>gui.currentPageWidget()\<close>: which children it has, or null\<close>
  adminRights :: "history \<Rightarrow> bool"
  clockAt :: "history \<Rightarrow> int"                             \<comment> \<open>\<^verbatim>\<open>new Date().getTime()\<close>\<close>
  kernelType :: string
  currentCpuArchitecture :: string
  prettyProductName :: string
  desktopLocation :: string
  numText :: "rat \<Rightarrow> string"                             \<comment> \<open>text of a number that is not a natural below \<open>10 ^ 21\<close>\<close>
  qsTr :: "string \<Rightarrow> string"

record ist =
  requestToQuitFromApp :: bool
  updaterCompleted :: int
  desktopAppProcessRunning :: bool
  appInstalledUninstallerPath :: "string option"
  appInstalledUninstallerPath_x86 :: "string option"
  calls :: history

text \<open>The values the scripts start with.\<close>

definition ist0 :: ist where
  "ist0 = \<lparr>requestToQuitFromApp = False, updaterCompleted = 0, desktopAppProcessRunning = False,
     appInstalledUninstallerPath = None, appInstalledUninstallerPath_x86 = None, calls = []\<rparr>"

definition emit :: "call \<Rightarrow> ist \<Rightarrow> ist" where
  "emit c st = st\<lparr>calls := calls st @ [c]\<rparr>"

definition instValue :: "instEnv \<Rightarrow> string \<Rightarrow> ist \<Rightarrow> string" where
  "instValue env k st = valueOf env (calls st) k"

definition instExecute :: "instEnv \<Rightarrow> string \<Rightarrow> string list \<Rightarrow> ist \<Rightarrow> (string \<times> int) option \<times> ist" where
  "instExecute env program args st =
     (let st = emit (Execute program args) st in (execResult env (calls st) program args, st))"

definition fileExists :: "instEnv \<Rightarrow> string option \<Rightarrow> ist \<Rightarrow> bool \<times> ist" where
  "fileExists env path st = (let st = emit (FileExists path) st in (fileThere env (calls st) path, st))"

definition findPath :: "instEnv \<Rightarrow> string \<Rightarrow> string list \<Rightarrow> ist \<Rightarrow> string \<times> ist" where
  "findPath env file dirs st = (let st = emit (FindPath file dirs) st in (foundPath env (calls st) file dirs, st))"

definition messageBox :: "instEnv \<Rightarrow> string \<Rightarrow> string \<Rightarrow> string \<Rightarrow> ist \<Rightarrow> answer \<times> ist" where
  "messageBox env ident title txt st = (let st = emit (MessageBox ident title txt) st in (answerOf env (calls st), st))"

definition readClock :: "instEnv \<Rightarrow> ist \<Rightarrow> int \<times> ist" where
  "readClock env st = (let st = emit ReadClock st in (clockAt env (calls st), st))"

text \<open>\<^verbatim>\<open>Number(result[0])\<close> and \<^verbatim>\<open>Number(result[1])\<close>; an element of the empty array is undefined.\<close>

definition outputNumber :: "(string \<times> int) option \<Rightarrow> jsNum" where
  "outputNumber r = (case r of None \<Rightarrow> NaN | Some (out, _) \<Rightarrow> jsNumber out)"

definition codeNumber :: "(string \<times> int) option \<Rightarrow> jsNum" where
  "codeNumber r = (case r of None \<Rightarrow> NaN | Some (_, code) \<Rightarrow> Num (of_int code))"

definition jsNumText :: "instEnv \<Rightarrow> jsNum \<Rightarrow> string" where
  "jsNumText env n = (case n of
       NaN \<Rightarrow> ''NaN'' | PosInfinity \<Rightarrow> ''Infinity'' | NegInfinity \<Rightarrow> ''-Infinity''
     | Num x \<Rightarrow> if x = of_nat (nat \<lfloor>x\<rfloor>) \<and> x < 10 ^ 21 then showNat (nat \<lfloor>x\<rfloor>) else numText env x)"

definition intText :: "int \<Rightarrow> string" where
  "intText n = (if n < 0 then CHR ''-'' # showNat (nat (- n)) else showNat (nat n))"

text \<open>\<^verbatim>\<open>text.arg(a)\<close>, the method Qt adds to strings: all occurrences of the place marker (a percent sign,
  optionally the letter L, one or two digits) with the lowest number are replaced.\<close>

definition digitsAt :: "string \<Rightarrow> (nat \<times> string) option" where
  "digitsAt s = (case s of
       [] \<Rightarrow> None
     | c # t \<Rightarrow> if \<not> isDigit c then None
         else (case t of
             [] \<Rightarrow> Some (readNat [c], t)
           | d # u \<Rightarrow> if isDigit d then Some (readNat [c, d], u) else Some (readNat [c], t)))"

definition markerAt :: "string \<Rightarrow> (nat \<times> string) option" where
  "markerAt s = (case s of
       c # t \<Rightarrow> if c \<noteq> CHR 0x25 then None
         else digitsAt (case t of d # u \<Rightarrow> if d = CHR ''L'' then u else t | [] \<Rightarrow> [])
     | [] \<Rightarrow> None)"

fun lowestMarker :: "string \<Rightarrow> nat option" where
  "lowestMarker [] = None"
| "lowestMarker (c # t) = (case (markerAt (c # t), lowestMarker t) of
       (None, r) \<Rightarrow> r
     | (Some (n, _), None) \<Rightarrow> Some n
     | (Some (n, _), Some k) \<Rightarrow> Some (min n k))"

lemma markerAt_shorter: "markerAt s = Some (n, rest) \<Longrightarrow> length rest < length s"
  by (auto simp: markerAt_def digitsAt_def split: list.splits if_splits)

function replaceMarker :: "nat \<Rightarrow> string \<Rightarrow> string \<Rightarrow> string" where
  "replaceMarker n a s = (case s of
       [] \<Rightarrow> []
     | c # t \<Rightarrow> (case markerAt s of
           Some (k, rest) \<Rightarrow> if k = n then a @ replaceMarker n a rest else c # replaceMarker n a t
         | None \<Rightarrow> c # replaceMarker n a t))"
  by pat_completeness auto
termination
  by (relation "measure (\<lambda>(n, a, s). length s)") (auto dest: markerAt_shorter)

declare replaceMarker.simps [simp del]

definition qtArg :: "string \<Rightarrow> string \<Rightarrow> string" where
  "qtArg fmt a = (case lowestMarker fmt of None \<Rightarrow> fmt | Some n \<Rightarrow> replaceMarker n a fmt)"

text \<open>The text of the array that \<^verbatim>\<open>installer.execute\<close> returns.\<close>

definition resultText :: "(string \<times> int) option \<Rightarrow> string" where
  "resultText r = (case r of None \<Rightarrow> [] | Some (out, code) \<Rightarrow> out @ '','' @ intText code)"

definition sq :: string where "sq = [CHR 0x27]"
definition dq :: string where "dq = [CHR 0x22]"
definition backslash :: string where "backslash = [CHR 0x5C]"
definition lf :: string where "lf = [CHR 0x0A]"

text \<open>A framework on macOS with an old installation whose maintenance tool exits with \<open>code\<close> and, when run,
  removes itself.\<close>

definition exampleEnv :: "int \<Rightarrow> instEnv" where
  "exampleEnv code =
     \<lparr>valueOf = (\<lambda>h k. if k = ''Name'' then ''AmneziaVPN'' else if k = ''os'' then ''mac''
        else if k = ''TargetDir'' then ''/Applications/AmneziaVPN.app'' else []),
      isInstaller = True, isUpdater = False, isUninstaller = False, succeeded = (\<lambda>h. True),
      fileThere = (\<lambda>h p. p \<noteq> None \<and> list_all (\<lambda>c. case c of Execute _ args \<Rightarrow> args \<noteq> [] | _ \<Rightarrow> True) h),
      execResult = (\<lambda>h p args. if args = [] then Some ([], code) else Some ([], 1)),
      foundPath = (\<lambda>h f ds. []), answerOf = (\<lambda>h. AnswerOk), targetPage = (\<lambda>h. Some ''/Applications''),
      introPage = (\<lambda>h. None), adminRights = (\<lambda>h. True), clockAt = (\<lambda>h. 200 * int (length h)),
      kernelType = ''darwin'', currentCpuArchitecture = ''arm64'', prettyProductName = ''macOS'',
      desktopLocation = ''/Users/a/Desktop'', numText = (\<lambda>x. []), qsTr = (\<lambda>s. s)\<rparr>"

text \<open>Calls that neither change the rights nor start the application.\<close>

definition rightsFree :: "call \<Rightarrow> bool" where
  "rightsFree c = (case c of GainAdminRights \<Rightarrow> False | DropAdminRights \<Rightarrow> False | ExecuteDetached _ _ _ \<Rightarrow> False | _ \<Rightarrow> True)"

section \<open>Lemmas\<close>

lemma calls_emit [simp]: "calls (emit c st) = calls st @ [c]"
  by (simp add: emit_def)

lemma emit_fields [simp]:
  "requestToQuitFromApp (emit c st) = requestToQuitFromApp st" "updaterCompleted (emit c st) = updaterCompleted st"
  "desktopAppProcessRunning (emit c st) = desktopAppProcessRunning st"
  "appInstalledUninstallerPath (emit c st) = appInstalledUninstallerPath st"
  "appInstalledUninstallerPath_x86 (emit c st) = appInstalledUninstallerPath_x86 st"
  by (simp_all add: emit_def)

lemma indexOfFrom_sound: "indexOfFrom p i s lo = Some k \<Longrightarrow> i \<le> k \<and> lo \<le> k \<and> k \<le> i + length s \<and> prefix p (drop (k - i) s)"
proof (induction p i s lo rule: indexOfFrom.induct)
  case (2 p i x xs lo)
  then show ?case
    by (auto split: if_splits simp: Suc_diff_le drop_Cons')
qed (auto split: if_splits)

lemma indexOfFrom_first: "lo \<le> i + j \<Longrightarrow> prefix p (drop j s) \<Longrightarrow> j \<le> length s \<Longrightarrow> \<exists>k. indexOfFrom p i s lo = Some k"
proof (induction p i s lo arbitrary: j rule: indexOfFrom.induct)
  case (2 p i x xs lo)
  show ?case
  proof (cases j)
    case 0
    with 2 show ?thesis by auto
  next
    case (Suc j')
    with 2(1) [of j'] 2(2-4) show ?thesis by auto
  qed
qed auto

lemma jsIndexOf_found:
  "jsIndexOf s p pos \<noteq> -1 \<longleftrightarrow>
     (\<exists>k \<le> length s. nat (min (max pos 0) (int (length s))) \<le> k \<and> prefix p (drop k s))"
proof -
  define lo where "lo = nat (min (max pos 0) (int (length s)))"
  have "(\<exists>k. indexOfFrom p 0 s lo = Some k) \<longleftrightarrow> (\<exists>k \<le> length s. lo \<le> k \<and> prefix p (drop k s))"
    using indexOfFrom_sound [of p 0 s lo] indexOfFrom_first [of lo 0 _ p s] by fastforce
  then show ?thesis by (auto simp: jsIndexOf_def lo_def split: option.splits)
qed

text \<open>A decimal number printed by a program, and the first of several lines.\<close>

lemma isDigit_not_jsSpace: "isDigit c \<Longrightarrow> \<not> jsSpace c"
  by (auto simp: isDigit_of_char jsSpace_def)

lemma dropWhile_none: "list_all (\<lambda>x. \<not> P x) s \<Longrightarrow> dropWhile P (s @ t) = (if s = [] then dropWhile P t else s @ t)"
  by (cases s) auto

lemma jsTrim_digits:
  assumes "list_all isDigit s" "s \<noteq> []"
  shows "jsTrim (s @ t) = s @ rev (dropWhile jsSpace (rev t))"
proof -
  have clean: "list_all (\<lambda>x. \<not> jsSpace x) s" using assms(1) by (auto simp: list_all_iff isDigit_not_jsSpace)
  have "dropWhile jsSpace (s @ t) = s @ t" using dropWhile_none [OF clean] assms(2) by simp
  moreover have "dropWhile jsSpace (rev t @ rev s) = dropWhile jsSpace (rev t) @ rev s"
  proof (cases "list_all jsSpace t")
    case True
    then have "dropWhile jsSpace (rev t @ rev s) = dropWhile jsSpace (rev s)" "dropWhile jsSpace (rev t) = []"
      using dropWhile_append2 [of "rev t" jsSpace "rev s"] by (auto simp: list_all_iff)
    moreover have "dropWhile jsSpace (rev s) = rev s" using dropWhile_none [of jsSpace "rev s" "[]"] clean assms(2) by simp
    ultimately show ?thesis by simp
  next
    case False
    then obtain x where "x \<in> set (rev t)" "\<not> jsSpace x" by (auto simp: list_all_iff)
    then show ?thesis by (simp add: dropWhile_append1)
  qed
  ultimately show ?thesis by (simp add: jsTrim_def)
qed

lemma hd_splitRuns: "hd (splitRuns c s) = takeWhile (\<lambda>x. x \<noteq> c) s"
  by (subst splitRuns.simps) (simp add: Let_def)

lemma first_line:
  assumes "list_all isDigit s" "s \<noteq> []"
  shows "hd (splitRuns CHR 0x0A (jsTrim (s @ lf @ rest))) = s"
proof -
  define u where "u = rev (dropWhile jsSpace (rev (lf @ rest)))"
  have "\<forall>x \<in> set s. x \<noteq> CHR 0x0A" using assms(1) by (auto simp: list_all_iff isDigit_of_char)
  moreover have "u = [] \<or> (\<exists>t. u = CHR 0x0A # t)"
  proof (cases "list_all jsSpace rest")
    case True
    then have "dropWhile jsSpace (rev (lf @ rest)) = []" by (auto simp: lf_def list_all_iff jsSpace_def)
    then show ?thesis by (simp add: u_def)
  next
    case False
    then obtain x where "x \<in> set (rev rest)" "\<not> jsSpace x" by (auto simp: list_all_iff)
    then show ?thesis by (simp add: u_def lf_def dropWhile_append1)
  qed
  ultimately show ?thesis
    unfolding hd_splitRuns jsTrim_digits [OF assms] u_def [symmetric] by (elim disjE exE) (simp_all add: takeWhile_append2 takeWhile_eq_all_conv)
qed

lemma jsNumber_showNat: "jsNumber (showNat n) = Num (of_nat n)"
proof -
  let ?s = "showNat n"
  have digits: "list_all isDigit ?s" by (rule showNat_digits)
  then have trim: "jsTrim ?s = ?s" using jsTrim_digits [of ?s "[]"] by simp
  have no: "CHR ''x'' \<notin> set ?s" "CHR ''X'' \<notin> set ?s" "CHR ''o'' \<notin> set ?s" "CHR ''O'' \<notin> set ?s" "CHR ''b'' \<notin> set ?s"
      "CHR ''B'' \<notin> set ?s" "CHR ''-'' \<notin> set ?s" "CHR ''+'' \<notin> set ?s" "CHR ''y'' \<notin> set ?s"
    by (rule showNat_no_char, simp add: isDigit_of_char)+
  have radix: "take 2 ?s \<noteq> [CHR ''0'', c]" if "c \<notin> set ?s" for c
    using that set_take_subset [of 2 ?s] by auto
  have all: "takeWhile isDigit ?s = ?s" "dropWhile isDigit ?s = []" using digits by (simp_all add: list_all_iff)
  have "unsignedDecimal ?s = Some (of_nat n)" unfolding unsignedDecimal_def Let_def all by (simp add: exponentOf_def)
  moreover have "?s \<noteq> ''Infinity''" using no(9) by auto
  moreover have "?s \<noteq> CHR ''-'' # t" "?s \<noteq> CHR ''+'' # t" for t using no(7,8) by auto
  ultimately have "signedDecimal ?s = Num (of_nat n)"
    by (cases ?s) (auto simp: signedDecimal_def)
  then show ?thesis using radix no by (simp add: jsNumber_def trim)
qed

end
