(* ===== verification/Installer_Control.thy ===== *)
theory Installer_Control
  imports Installer_Api
begin

text \<open>
  \<^verbatim>\<open>deploy/installer/qif/controlscript.js\<close>: the control script of the installer, updater and uninstaller.
  One definition per function of the script, over its global variables (\<^typ>\<open>ist\<close>). A function that
  may not return (the busy wait, the message loop, and what calls them) yields an option, \<^const>\<open>None\<close>
  being non-termination; a function that may throw yields a sum. A click on a wizard button is a logged
  call: the page callbacks it leads to are entered by the framework afterwards.
\<close>

section \<open>Names and platforms\<close>

definition appName :: "instEnv \<Rightarrow> ist \<Rightarrow> string" where
  "appName env st = instValue env ''Name'' st"

definition runningOnWindows :: "instEnv \<Rightarrow> ist \<Rightarrow> bool" where
  "runningOnWindows env st \<longleftrightarrow> instValue env ''os'' st = ''win''"

definition runningOnMacOS :: "instEnv \<Rightarrow> ist \<Rightarrow> bool" where
  "runningOnMacOS env st \<longleftrightarrow> instValue env ''os'' st = ''mac''"

definition runningOnLinux :: "instEnv \<Rightarrow> ist \<Rightarrow> bool" where
  "runningOnLinux env st \<longleftrightarrow> instValue env ''os'' st = ''linux'' \<or> instValue env ''os'' st = ''x11''"

definition appExecutableFileName :: "instEnv \<Rightarrow> ist \<Rightarrow> string" where
  "appExecutableFileName env st =
     (if runningOnWindows env st then appName env st @ ''.exe'' else appName env st)"

text \<open>The assignments to the two global paths.\<close>

definition setUninstallerPaths :: "instEnv \<Rightarrow> ist \<Rightarrow> ist" where
  "setUninstallerPaths env st =
     (if runningOnWindows env st then
        st\<lparr>appInstalledUninstallerPath :=
             Some (instValue env ''RootDir'' st @ ''Program Files/AmneziaVPN/maintenancetool.exe''),
           appInstalledUninstallerPath_x86 :=
             Some (instValue env ''RootDir'' st @ ''Program Files (x86)/AmneziaVPN/maintenancetool.exe'')\<rparr>
      else if runningOnMacOS env st then
        st\<lparr>appInstalledUninstallerPath :=
             Some (''/Applications/'' @ appName env st @ ''.app/maintenancetool.app/Contents/MacOS/maintenancetool'')\<rparr>
      else if runningOnLinux env st then
        st\<lparr>appInstalledUninstallerPath := Some (''/opt/'' @ appName env st @ ''/maintenancetool'')\<rparr>
      else st)"

definition appInstalled :: "instEnv \<Rightarrow> ist \<Rightarrow> bool \<times> ist" where
  "appInstalled env st =
     (let st = setUninstallerPaths env st
      in case fileExists env (appInstalledUninstallerPath st) st of (there, st) \<Rightarrow>
         if there then (True, st) else fileExists env (appInstalledUninstallerPath_x86 st) st)"

definition endsWith :: "string \<Rightarrow> string \<Rightarrow> bool" where
  "endsWith str sfx \<longleftrightarrow> jsIndexOf str sfx (int (length str) - int (length sfx)) \<noteq> -1"

section \<open>Waiting\<close>

partial_function (option) busyWait :: "instEnv \<Rightarrow> int \<Rightarrow> ist \<Rightarrow> ist option" where
  "busyWait env deadline st =
     (case readClock env st of (now, st) \<Rightarrow> if deadline \<ge> now then busyWait env deadline st else Some st)"

declare busyWait.simps [code]

definition sleep :: "instEnv \<Rightarrow> int \<Rightarrow> ist \<Rightarrow> ist option" where
  "sleep env milliseconds st =
     (case readClock env st of (currentTime, st) \<Rightarrow> busyWait env (currentTime + milliseconds) st)"

section \<open>Processes\<close>

definition raiseInstallerWindow :: "instEnv \<Rightarrow> ist \<Rightarrow> ist" where
  "raiseInstallerWindow env st =
     (if \<not> runningOnMacOS env st then st
      else case instExecute env ''/bin/bash''
             [''-c'', ''ps -A | grep -m1 '' @ sq @ appName env st @ sq @ '' | awk '' @ sq @ ''{print $1}'' @ sq] st of
        (result, st) \<Rightarrow>
          if jsGreater (outputNumber result) 0 then
            snd (instExecute env ''osascript'' [''-e'',
              ''tell application '' @ dq @ ''System Events'' @ dq @ '' '' @ lf @
              ''      set frontmost of the first process whose unix id is '' @ jsNumText env (outputNumber result) @ '' to true '' @
              lf @ ''      end tell'' @ lf @ ''       ''] st)
          else st)"

definition checkProcessIsRunning :: "instEnv \<Rightarrow> string \<Rightarrow> ist \<Rightarrow> (jsError + bool) \<times> ist" where
  "checkProcessIsRunning env arg st =
     (case instExecute env ''/bin/bash'' [''-c'', arg] st of (result, st) \<Rightarrow>
        case result of
          None \<Rightarrow> (Inl TypeError, st)
        | Some (out, _) \<Rightarrow>
            let ls = splitRuns CHR 0x0A (jsTrim out) in
            (Inr (jsAtLeast (jsNumber (hd ls)) 2), st))"

definition appProcessIsRunning :: "instEnv \<Rightarrow> ist \<Rightarrow> (jsError + bool) \<times> ist" where
  "appProcessIsRunning env st =
     (if runningOnWindows env st then
        case instExecute env ''tasklist'' [] st of (result, st) \<Rightarrow>
          (case result of
             None \<Rightarrow> (Inr False, st)
           | Some (out, code) \<Rightarrow>
               if codeNumber result = Num 0
               then (Inr (jsIndexOf out (appExecutableFileName env st) 0 \<noteq> -1), st)
               else (Inr False, st))
      else checkProcessIsRunning env (''pgrep -x '' @ sq @ appName env st @ sq) st)"

fun pollRunning :: "instEnv \<Rightarrow> nat \<Rightarrow> ist \<Rightarrow> (jsError + unit) \<times> ist" where
  "pollRunning env 0 st = (Inr (), st)"
| "pollRunning env (Suc n) st =
     (case appProcessIsRunning env st of
        (Inl e, st) \<Rightarrow> (Inl e, st)
      | (Inr running, st) \<Rightarrow>
          let st = st\<lparr>desktopAppProcessRunning := running\<rparr> in
          if \<not> running then (Inr (), st) else pollRunning env n st)"

definition activeText :: "instEnv \<Rightarrow> ist \<Rightarrow> string" where
  "activeText env st = appName env st @ '' is active. Close the app and press '' @ dq @ ''Retry'' @ dq @
     '' button to continue installation. Press '' @ dq @ ''Abort'' @ dq @ '' button to abort the installer and exit.''"

text \<open>One activation of the message loop: whether it calls itself again.\<close>

definition messageRound :: "instEnv \<Rightarrow> ist \<Rightarrow> (jsError + bool) \<times> ist" where
  "messageRound env st =
     (case (if isUpdater env then pollRunning env 400 st else (Inr (), st)) of
        (Inl e, st) \<Rightarrow> (Inl e, st)
      | (Inr _, st) \<Rightarrow>
          (case appProcessIsRunning env st of
             (Inl e, st) \<Rightarrow> (Inl e, st)
           | (Inr running, st) \<Rightarrow>
               let st = st\<lparr>desktopAppProcessRunning := running\<rparr> in
               if \<not> running then (Inr False, st)
               else case messageBox env ''QMessageBox'' (appName env st @ '' installer'') (activeText env st) st of
                 (result, st) \<Rightarrow>
                   if result = AnswerRetry then (Inr True, st)
                   else (Inr False, st\<lparr>requestToQuitFromApp := True\<rparr>)))"

partial_function (option) isDesktopAppProcessRunningMessageLoop ::
    "instEnv \<Rightarrow> ist \<Rightarrow> ((jsError + unit) \<times> ist) option" where
  "isDesktopAppProcessRunningMessageLoop env st =
     (if requestToQuitFromApp st then Some (Inr (), st)
      else case messageRound env st of
        (Inl e, st) \<Rightarrow> Some (Inl e, st)
      | (Inr again, st) \<Rightarrow> if again then isDesktopAppProcessRunningMessageLoop env st else Some (Inr (), st))"

declare isDesktopAppProcessRunningMessageLoop.simps [code]

section \<open>Quitting\<close>

definition quitPages :: "string list" where
  "quitPages = [''IntroductionPage'', ''TargetDirectory'', ''ComponentSelection'', ''LicenseCheck'',
     ''StartMenuSelection'', ''ReadyForInstallation'', ''PerformInstallation'', ''FinishedPage'']"

definition requestToQuit :: "instEnv \<Rightarrow> ist \<Rightarrow> ist" where
  "requestToQuit env st =
     (let st = st\<lparr>requestToQuitFromApp := True\<rparr>;
          st = fold (\<lambda>page. emit (SetDefaultPageVisible page False)) quitPages st;
          st = emit (ClickButton NextButton) st;
          st = emit (ClickButton FinishButton) st;
          st = emit (ClickButton CancelButton) st
      in if runningOnWindows env st then emit SetCancelled st else st)"

section \<open>Page callbacks\<close>

definition PerformInstallationPageCallback :: "ist \<Rightarrow> ist" where
  "PerformInstallationPageCallback st = emit (ClickButton NextButton) st"

definition LicenseAgreementPageCallback :: "ist \<Rightarrow> ist" where
  "LicenseAgreementPageCallback st = emit (ClickButton NextButton) st"

definition FinishedPageCallback :: "instEnv \<Rightarrow> ist \<Rightarrow> ist" where
  "FinishedPageCallback env st =
     (if desktopAppProcessRunning st then emit (ClickButton FinishButton) st
      else if isUpdater env then emit (ClickButton FinishButton) (emit AutoAcceptMessageBoxes st)
      else st)"

definition RestartPageCallback :: "ist \<Rightarrow> ist" where
  "RestartPageCallback st = emit (ClickButton FinishButton) (st\<lparr>updaterCompleted := 1\<rparr>)"

definition StartMenuDirectoryPageCallback :: "ist \<Rightarrow> ist" where
  "StartMenuDirectoryPageCallback st = emit (ClickButton NextButton) st"

definition ComponentSelectionPageCallback :: "ist \<Rightarrow> ist" where
  "ComponentSelectionPageCallback st = emit (ClickButton NextButton) st"

definition ReadyForInstallationPageCallback :: "instEnv \<Rightarrow> ist \<Rightarrow> ist" where
  "ReadyForInstallationPageCallback env st = (if isUpdater env then emit (ClickButton CommitButton) st else st)"

definition TargetDirectoryPageCallback :: "instEnv \<Rightarrow> ist \<Rightarrow> ist" where
  "TargetDirectoryPageCallback env st =
     (case targetPage env (calls st) of
        None \<Rightarrow> st
      | Some _ \<Rightarrow>
          emit (ClickButton NextButton)
            (emit (Connect ''BrowseDirectoryButton.clicked'' ''onBrowseButtonClicked'')
              (emit (Disconnect ''BrowseDirectoryButton.clicked'' ''onBrowseButtonClicked'') st)))"

text \<open>Hiding a child that is not there throws: a property of a null value is assigned.\<close>

fun hideChildren :: "(string \<Rightarrow> bool) \<Rightarrow> string list \<Rightarrow> ist \<Rightarrow> (jsError + unit) \<times> ist" where
  "hideChildren hasChild [] st = (Inr (), st)"
| "hideChildren hasChild (c # cs) st =
     (if hasChild c then hideChildren hasChild cs (emit (HideChild c) st) else (Inl TypeError, st))"

definition IntroductionPageCallback :: "instEnv \<Rightarrow> ist \<Rightarrow> (jsError + unit) \<times> ist" where
  "IntroductionPageCallback env st =
     (let widget = introPage env (calls st) in
      if isUpdater env \<and> updaterCompleted st = 1
      then (Inr (), emit (ClickButton CancelButton) (emit (ClickButton FinishButton) st))
      else case (if isUninstaller env then
               (case widget of None \<Rightarrow> (Inr (), st)
                | Some hasChild \<Rightarrow> hideChildren hasChild [''PackageManagerRadioButton'', ''UpdaterRadioButton''] st)
             else (Inr (), st)) of
          (Inl e, st) \<Rightarrow> (Inl e, st)
        | (Inr _, st) \<Rightarrow> (Inr (), if isUpdater env then emit (ClickButton NextButton) st else st))"

definition onBrowseButtonClicked :: "instEnv \<Rightarrow> ist \<Rightarrow> ist" where
  "onBrowseButtonClicked env st =
     (case targetPage env (calls st) of
        None \<Rightarrow> st
      | Some txt \<Rightarrow>
          if runningOnWindows env st then
            let targetDir = (if \<not> endsWith txt (appName env st) then txt @ backslash @ appName env st else txt);
                st = emit (SetValue ''TargetDir'' targetDir) st
            in emit (SetText (instValue env ''TargetDir'' st)) st
          else st)"

definition onNextButtonClicked :: "instEnv \<Rightarrow> ist \<Rightarrow> ist" where
  "onNextButtonClicked env st =
     (case targetPage env (calls st) of None \<Rightarrow> st | Some txt \<Rightarrow> emit (SetValue ''APP_BUNDLE_TARGET_DIR'' txt) st)"

section \<open>The controller\<close>

text \<open>The poll after a successful uninstallation: at most \<open>n\<close> times 100 ms.\<close>

fun waitGone :: "instEnv \<Rightarrow> nat \<Rightarrow> ist \<Rightarrow> ist option" where
  "waitGone env 0 st = Some st"
| "waitGone env (Suc n) st =
     (case sleep env 100 st of
        None \<Rightarrow> None
      | Some st \<Rightarrow>
          (case fileExists env (appInstalledUninstallerPath st) st of (there, st) \<Rightarrow>
             if \<not> there then Some st else waitGone env n st))"

definition pathText :: "string option \<Rightarrow> string" where
  "pathText p = (case p of None \<Rightarrow> ''undefined'' | Some s \<Rightarrow> s)"

definition codeText :: "(string \<times> int) option \<Rightarrow> string" where
  "codeText r = (case r of None \<Rightarrow> ''undefined'' | Some (_, code) \<Rightarrow> intText code)"

text \<open>Runs the maintenance tool at \<open>path\<close> if it is there; \<open>prev\<close> is the result so far.\<close>

definition runUninstaller :: "instEnv \<Rightarrow> string option \<Rightarrow> (string \<times> int) option \<Rightarrow> ist \<Rightarrow> (string \<times> int) option \<times> ist" where
  "runUninstaller env path prev st =
     (case fileExists env path st of (there, st) \<Rightarrow>
        if there then instExecute env (pathText path) [] (emit (ConsoleLog (''Starting uninstallation '' @ pathText path)) st)
        else (prev, st))"

text \<open>Removes an old installation. The boolean tells whether the controller returns at once.\<close>

definition removeOldInstallation :: "instEnv \<Rightarrow> ist \<Rightarrow> (bool \<times> ist) option" where
  "removeOldInstallation env st =
     (case messageBox env ''os.information'' (appName env st)
            (qsTr env ''The application is already installed.'' @ '' '' @
             qsTr env ''We need to remove the old installation first. Do you wish to proceed?'') st of (result, st) \<Rightarrow>
      if result \<noteq> AnswerOk
      then Some (True, emit SetCancelled (emit (ConsoleLog ''Request to quit from user'') st))
      else case appInstalled env st of (installed, st) \<Rightarrow>
        if \<not> installed then Some (False, raiseInstallerWindow env st)
        else
          (case runUninstaller env (appInstalledUninstallerPath_x86 st) None st of (r, st) \<Rightarrow>
           case runUninstaller env (appInstalledUninstallerPath st) r st of (r, st) \<Rightarrow>
           let st = emit (ConsoleLog (''Uninstaller finished with code: '' @ codeText r)) st in
           if codeNumber r \<noteq> Num 0
           then Some (True, emit SetCancelled (emit (ConsoleLog ''Uninstallation aborted by user'') st))
           else case waitGone env 300 st of
               None \<Rightarrow> None
             | Some st \<Rightarrow> Some (False, raiseInstallerWindow env st)))"

definition prepareInstallation :: "instEnv \<Rightarrow> ist \<Rightarrow> ist option" where
  "prepareInstallation env st =
     (let st = (if runningOnMacOS env st
                then emit (SetMessageBoxAutomaticAnswer ''OverwriteTargetDirectory'' AnswerYes) st else st) in
      case appInstalled env st of (installed, st) \<Rightarrow>
      if installed then map_option snd (removeOldInstallation env st) else Some st)"

definition controllerInstaller :: "instEnv \<Rightarrow> ist \<Rightarrow> ((jsError + unit) \<times> ist) option" where
  "controllerInstaller env st =
     (let st = fold (\<lambda>page. emit (SetDefaultPageVisible page False))
                 [''ComponentSelection'', ''TargetDirectory'', ''StartMenuDirectoryPage'', ''LicenseCheck''] st in
      case isDesktopAppProcessRunningMessageLoop env st of
        None \<Rightarrow> None
      | Some (Inl e, st) \<Rightarrow> Some (Inl e, st)
      | Some (Inr _, st) \<Rightarrow>
          if requestToQuitFromApp st then Some (Inr (), requestToQuit env st)
          else map_option (Pair (Inr ())) (prepareInstallation env st))"

definition controllerUninstaller :: "instEnv \<Rightarrow> ist \<Rightarrow> ((jsError + unit) \<times> ist) option" where
  "controllerUninstaller env st =
     (case isDesktopAppProcessRunningMessageLoop env st of
        None \<Rightarrow> None
      | Some (Inl e, st) \<Rightarrow> Some (Inl e, st)
      | Some (Inr _, st) \<Rightarrow>
          if requestToQuitFromApp st then Some (Inr (), requestToQuit env st) else Some (Inr (), st))"

text \<open>What the constructor does first in every mode.\<close>

definition controllerStart :: "instEnv \<Rightarrow> ist \<Rightarrow> ist" where
  "controllerStart env st =
     (let st = emit (ConsoleLog (qtArg (qtArg ''OS: %1, architecture: %2'' (prettyProductName env)) (currentCpuArchitecture env))) st;
          st = (if isInstaller env \<or> isUpdater env
                then (case appInstalled env st of (installed, st) \<Rightarrow>
                        emit (ConsoleLog (''Check if app already installed: '' @ (if installed then ''true'' else ''false''))) st)
                else st)
      in if runningOnWindows env st then emit (SetValue ''AllUsers'' ''true'') st else st)"

definition Controller :: "instEnv \<Rightarrow> ist \<Rightarrow> ((jsError + unit) \<times> ist) option" where
  "Controller env st =
     (let st = controllerStart env st
      in if isInstaller env then controllerInstaller env st
         else if isUninstaller env then controllerUninstaller env st
         else if isUpdater env then
           Some (Inr (), emit (Connect ''installer.installationFinished'' ''gui.clickButton(buttons.NextButton)'')
             (emit (SetMessageBoxAutomaticAnswer ''cancelInstallation'' AnswerNo) st))
         else Some (Inr (), st))"

section \<open>Texts and the target directory\<close>

lemma endsWith_iff_suffix: "endsWith str sfx \<longleftrightarrow> suffix sfx str"
proof (cases "length sfx \<le> length str")
  case True
  have "endsWith str sfx \<longleftrightarrow> (\<exists>k \<le> length str. length str - length sfx \<le> k \<and> prefix sfx (drop k str))"
    using True by (simp add: endsWith_def jsIndexOf_found min_def nat_diff_distrib')
  also have "\<dots> \<longleftrightarrow> drop (length str - length sfx) str = sfx"
  proof
    assume "\<exists>k \<le> length str. length str - length sfx \<le> k \<and> prefix sfx (drop k str)"
    then obtain k where k: "k \<le> length str" "length str - length sfx \<le> k" and pre: "prefix sfx (drop k str)" by blast
    have "k = length str - length sfx" using prefix_length_le [OF pre] k True by simp
    with pre show "drop (length str - length sfx) str = sfx"
      using True by (metis append_eq_conv_conj diff_diff_cancel length_drop prefix_def take_all_iff order_refl)
  qed (auto intro!: exI [of _ "length str - length sfx"])
  also have "\<dots> \<longleftrightarrow> suffix sfx str"
  proof
    assume "drop (length str - length sfx) str = sfx"
    then show "suffix sfx str" by (metis suffix_drop)
  qed (auto simp: suffix_def)
  finally show ?thesis .
next
  case False
  then have "\<not> prefix sfx (drop k str)" for k using prefix_length_le [of sfx "drop k str"] by auto
  moreover have "\<not> suffix sfx str" using False suffix_length_le by blast
  ultimately show ?thesis by (simp add: endsWith_def jsIndexOf_found)
qed

section \<open>Waiting\<close>

text \<open>The state after \<open>n\<close> further looks at the clock.\<close>

definition clockReads :: "nat \<Rightarrow> ist \<Rightarrow> ist" where
  "clockReads n st = st\<lparr>calls := calls st @ replicate n ReadClock\<rparr>"

lemma clockReads_Suc: "clockReads (Suc n) st = clockReads n (emit ReadClock st)"
  by (simp add: clockReads_def emit_def)

lemma clockReads_add: "clockReads m (clockReads n st) = clockReads (n + m) st"
  by (simp add: clockReads_def replicate_add)

lemma calls_clockReads [simp]: "calls (clockReads n st) = calls st @ replicate n ReadClock"
  by (simp add: clockReads_def)

lemma clockReads_fields [simp]:
  "requestToQuitFromApp (clockReads n st) = requestToQuitFromApp st"
  "desktopAppProcessRunning (clockReads n st) = desktopAppProcessRunning st"
  "appInstalledUninstallerPath (clockReads n st) = appInstalledUninstallerPath st"
  "appInstalledUninstallerPath_x86 (clockReads n st) = appInstalledUninstallerPath_x86 st"
  "updaterCompleted (clockReads n st) = updaterCompleted st"
  by (simp_all add: clockReads_def)

definition clockOf :: "instEnv \<Rightarrow> nat \<Rightarrow> ist \<Rightarrow> int" where
  "clockOf env n st = clockAt env (calls st @ replicate n ReadClock)"

lemma clockOf_Suc: "clockOf env (Suc n) st = clockOf env n (emit ReadClock st)"
  by (simp add: clockOf_def)

lemma busyWait_step:
  "busyWait env d st = (if clockOf env 1 st \<le> d then busyWait env d (emit ReadClock st) else Some (emit ReadClock st))"
  by (subst busyWait.simps) (simp add: readClock_def clockOf_def Let_def)

lemma busyWait_returns:
  assumes "\<forall>i < n. clockOf env (Suc i) st \<le> d" and "clockOf env (Suc n) st > d"
  shows "busyWait env d st = Some (clockReads (Suc n) st)"
  using assms
proof (induction n arbitrary: st)
  case 0
  have "clockReads (Suc 0) st = emit ReadClock st" by (simp add: clockReads_def emit_def)
  with 0 show ?case by (subst busyWait_step) simp
next
  case (Suc n)
  have "clockOf env 1 st \<le> d" using Suc.prems(1) by simp
  moreover have "busyWait env d (emit ReadClock st) = Some (clockReads (Suc n) (emit ReadClock st))"
    using Suc.prems by (intro Suc.IH) (auto simp flip: clockOf_Suc)
  ultimately show ?case by (subst busyWait_step) (simp add: clockReads_Suc)
qed

lemma busyWait_bound:
  assumes "busyWait env d st = Some st'"
  shows "\<exists>n. clockOf env (Suc n) st > d"
proof (rule busyWait.raw_induct [where P = "\<lambda>env d st st'. \<exists>n. clockOf env (Suc n) st > d", OF _ assms])
  fix rec env d st st'
  assume IH: "\<And>env d st st'. rec env d st = Some st' \<Longrightarrow> \<exists>n. clockOf env (Suc n) st > d"
    and step: "(case readClock env st of (now, st) \<Rightarrow> if d \<ge> now then rec env d st else Some st) = Some st'"
  show "\<exists>n. clockOf env (Suc n) st > d"
  proof (cases "clockOf env 1 st \<le> d")
    case True
    with step have "rec env d (emit ReadClock st) = Some st'" by (simp add: readClock_def clockOf_def Let_def)
    from IH [OF this] show ?thesis by (auto simp flip: clockOf_Suc)
  qed (auto intro: exI [of _ 0])
qed

lemma sleep_busyWait: "sleep env ms st = busyWait env (clockOf env 1 st + ms) (emit ReadClock st)"
  by (simp add: sleep_def readClock_def clockOf_def Let_def)

lemma first_above:
  fixes f :: "nat \<Rightarrow> int"
  assumes "f n > d"
  obtains k where "k \<le> n" "f k > d" "\<forall>i < k. f i \<le> d"
proof
  show "(LEAST k. f k > d) \<le> n" using assms by (rule Least_le)
  show "f (LEAST k. f k > d) > d" using assms by (rule LeastI)
  show "\<forall>i < (LEAST k. f k > d). f i \<le> d" by (meson not_less_Least linorder_not_less)
qed

lemma sleep_returns:
  assumes "clockOf env (n + 2) st > clockOf env 1 st + ms"
  obtains k where "k \<le> n" "sleep env ms st = Some (clockReads (k + 2) st)"
    "clockOf env (k + 2) st > clockOf env 1 st + ms" "\<forall>i < k. clockOf env (i + 2) st \<le> clockOf env 1 st + ms"
proof -
  obtain k where k: "k \<le> n" "clockOf env (k + 2) st > clockOf env 1 st + ms"
      "\<forall>i < k. clockOf env (i + 2) st \<le> clockOf env 1 st + ms"
    using assms first_above [of "clockOf env 1 st + ms" "\<lambda>k. clockOf env (k + 2) st" n] by auto
  have "busyWait env (clockOf env 1 st + ms) (emit ReadClock st) = Some (clockReads (Suc k) (emit ReadClock st))"
    using k by (intro busyWait_returns) (auto simp flip: clockOf_Suc)
  with k that show ?thesis by (simp add: sleep_busyWait clockReads_Suc)
qed

lemma sleep_bound: "sleep env ms st = Some st' \<Longrightarrow> \<exists>n. clockOf env (n + 2) st > clockOf env 1 st + ms"
  using busyWait_bound [of env "clockOf env 1 st + ms" "emit ReadClock st" st']
  by (auto simp: sleep_busyWait simp flip: clockOf_Suc)

lemma sleep_Some:
  assumes "sleep env ms st = Some st'"
  obtains k where "st' = clockReads (k + 2) st" "clockOf env (k + 2) st > clockOf env 1 st + ms"
    "\<forall>i < k. clockOf env (i + 2) st \<le> clockOf env 1 st + ms"
proof -
  obtain n where "clockOf env (n + 2) st > clockOf env 1 st + ms" using sleep_bound [OF assms] ..
  then obtain k where "sleep env ms st = Some (clockReads (k + 2) st)"
      "clockOf env (k + 2) st > clockOf env 1 st + ms" "\<forall>i < k. clockOf env (i + 2) st \<le> clockOf env 1 st + ms"
    by (rule sleep_returns)
  with assms show ?thesis by (intro that) auto
qed

lemma waitGone_result:
  assumes "waitGone env n st = Some st'"
  shows "\<exists>more. calls st' = calls st @ more \<and> st' = st\<lparr>calls := calls st'\<rparr> \<and>
     set more \<subseteq> {ReadClock, FileExists (appInstalledUninstallerPath st)} \<and>
     count_list more (FileExists (appInstalledUninstallerPath st)) \<le> n \<and>
     (count_list more (FileExists (appInstalledUninstallerPath st)) = n \<or>
      \<not> fileThere env (calls st') (appInstalledUninstallerPath st))"
  using assms
proof (induction n arbitrary: st)
  case (Suc n)
  let ?p = "FileExists (appInstalledUninstallerPath st)"
  obtain s1 where s1: "sleep env 100 st = Some s1" using Suc.prems by (auto split: option.splits)
  then obtain k where k: "s1 = clockReads (k + 2) st" by (rule sleep_Some)
  have none: "count_list (replicate (k + 2) ReadClock) ?p = 0" by (induction k) auto
  define s2 where "s2 = emit ?p s1"
  have s2: "calls s2 = calls st @ replicate (k + 2) ReadClock @ [?p]" "s2 = st\<lparr>calls := calls s2\<rparr>"
    "appInstalledUninstallerPath s2 = appInstalledUninstallerPath st"
    by (simp_all add: s2_def k emit_def clockReads_def)
  show ?case
  proof (cases "fileThere env (calls s2) (appInstalledUninstallerPath st)")
    case True
    then have "waitGone env n s2 = Some st'" using Suc.prems s1 by (simp add: fileExists_def k s2_def Let_def)
    from Suc.IH [OF this] obtain more where more: "calls st' = calls s2 @ more" "st' = s2\<lparr>calls := calls st'\<rparr>"
        "set more \<subseteq> {ReadClock, ?p}" "count_list more ?p \<le> n"
        "count_list more ?p = n \<or> \<not> fileThere env (calls st') (appInstalledUninstallerPath st)"
      by (auto simp: s2(3))
    show ?thesis
    proof (intro exI [of _ "(replicate (k + 2) ReadClock @ [?p]) @ more"] conjI)
      have "st' = (st\<lparr>calls := calls s2\<rparr>)\<lparr>calls := calls st'\<rparr>" using more(2) s2(2) by metis
      then show "st' = st\<lparr>calls := calls st'\<rparr>" by simp
    qed (use more s2 none in \<open>auto simp: count_list_append\<close>)
  next
    case False
    then have "st' = s2" using Suc.prems s1 by (simp add: fileExists_def k s2_def Let_def)
    with False s2 none show ?thesis
      by (intro exI [of _ "replicate (k + 2) ReadClock @ [?p]"]) (auto simp: count_list_append)
  qed
qed auto

lemma waitGone_polls:
  assumes "waitGone env (Suc n) st = Some st'"
  shows "FileExists (appInstalledUninstallerPath st) \<in> set (drop (length (calls st)) (calls st'))"
proof -
  obtain s1 where s1: "sleep env 100 st = Some s1" using assms by (auto split: option.splits)
  then obtain k where k: "s1 = clockReads (k + 2) st" by (rule sleep_Some)
  define s2 where "s2 = emit (FileExists (appInstalledUninstallerPath st)) s1"
  have "st' = s2 \<or> waitGone env n s2 = Some st'"
    using assms s1 by (auto simp: fileExists_def k s2_def Let_def split: if_splits)
  then have "prefix (calls s2) (calls st')" using waitGone_result [of env n s2 st'] by auto
  then show ?thesis by (auto simp: s2_def k prefix_def)
qed

lemma waitGone_returns: "\<forall>st. sleep env 100 st \<noteq> None \<Longrightarrow> \<exists>st'. waitGone env n st = Some st'"
proof (induction n arbitrary: st)
  case (Suc n)
  then obtain s1 where "sleep env 100 st = Some s1" by auto
  then show ?case using Suc by (simp add: case_prod_beta)
qed simp

section \<open>Properties\<close>

text \<open>The script's own \<open>endsWith\<close>, a search for the suffix from the position where it would have to stand,
  is the suffix relation for all texts, including an empty suffix and one longer than the text.\<close>

theorem endsWith_correct: "endsWith str sfx \<longleftrightarrow> suffix sfx str"
  by (rule endsWith_iff_suffix)

text \<open>On Windows the directory chosen in the browse dialog always gets the application's name as its end: the
  value stored under \<open>TargetDir\<close> ends with the name, it extends the chosen text, it is the chosen text when that
  already ends with the name, and choosing the stored directory again stores it unchanged.\<close>

theorem browse_target_directory:
  assumes "runningOnWindows env st" and "targetPage env (calls st) = Some txt"
  shows "\<exists>d. calls (onBrowseButtonClicked env st) =
       calls st @ [SetValue ''TargetDir'' d, SetText (valueOf env (calls st @ [SetValue ''TargetDir'' d]) ''TargetDir'')] \<and>
     suffix (appName env st) d \<and> prefix txt d \<and> (suffix (appName env st) txt \<longrightarrow> d = txt) \<and>
     (\<forall>st'. runningOnWindows env st' \<and> appName env st' = appName env st \<and> targetPage env (calls st') = Some d \<longrightarrow>
        (\<exists>t. calls (onBrowseButtonClicked env st') = calls st' @ [SetValue ''TargetDir'' d, SetText t]))"
proof -
  define target where "target n x = (if \<not> endsWith x n then x @ backslash @ n else x)" for n x
  have browse: "calls (onBrowseButtonClicked env s) = calls s @ [SetValue ''TargetDir'' (target (appName env s) x),
        SetText (valueOf env (calls s @ [SetValue ''TargetDir'' (target (appName env s) x)]) ''TargetDir'')]"
    if "runningOnWindows env s" "targetPage env (calls s) = Some x" for s x
    using that by (simp add: onBrowseButtonClicked_def Let_def instValue_def target_def)
  have ends: "suffix (appName env st) (target (appName env st) txt)"
    by (auto simp: target_def endsWith_iff_suffix intro: suffix_appendI)
  then have "target (appName env st) (target (appName env st) txt) = target (appName env st) txt"
    by (subst target_def) (simp add: endsWith_iff_suffix)
  with browse browse [OF assms] ends show ?thesis
    by (intro exI [of _ "target (appName env st) txt"]) (auto simp: target_def endsWith_iff_suffix)
qed

theorem browse_target_directory_witness:
  "\<exists>d. calls (onBrowseButtonClicked ((exampleEnv 0)\<lparr>valueOf := (\<lambda>h k. if k = ''os'' then ''win'' else ''VPN''),
      targetPage := (\<lambda>h. Some ''C:'')\<rparr>) ist0) = [SetValue ''TargetDir'' d, SetText ''VPN''] \<and> suffix ''VPN'' d"
  using browse_target_directory [of "(exampleEnv 0)\<lparr>valueOf := (\<lambda>h k. if k = ''os'' then ''win'' else ''VPN''),
      targetPage := (\<lambda>h. Some ''C:'')\<rparr>" ist0 "''C:''"]
  by (auto simp: runningOnWindows_def appName_def instValue_def ist0_def)

text \<open>The busy wait \<open>sleep\<close> returns exactly when the clock is ever seen later than the start plus the delay, and
  then it did nothing but look at the clock, up to the first such reading. With a clock that stands still it never
  returns.\<close>

theorem sleep_waits:
  "(sleep env ms st = None \<longleftrightarrow> (\<forall>n. clockOf env (n + 2) st \<le> clockOf env 1 st + ms)) \<and>
   (\<forall>st'. sleep env ms st = Some st' \<longrightarrow>
      (\<exists>k. st' = clockReads (k + 2) st \<and> clockOf env (k + 2) st > clockOf env 1 st + ms \<and>
         (\<forall>i < k. clockOf env (i + 2) st \<le> clockOf env 1 st + ms)))"
proof (intro conjI allI impI)
  show "sleep env ms st = None \<longleftrightarrow> (\<forall>n. clockOf env (n + 2) st \<le> clockOf env 1 st + ms)"
  proof
    assume none: "sleep env ms st = None"
    have "\<not> clockOf env (n + 2) st > clockOf env 1 st + ms" for n
      using none by (metis option.distinct(1) sleep_returns)
    then show "\<forall>n. clockOf env (n + 2) st \<le> clockOf env 1 st + ms" by (simp add: not_less)
  next
    assume "\<forall>n. clockOf env (n + 2) st \<le> clockOf env 1 st + ms"
    then show "sleep env ms st = None"
      using sleep_bound [of env ms st] by (cases "sleep env ms st") (auto simp: not_less [symmetric])
  qed
  fix st'
  assume "sleep env ms st = Some st'"
  then show "\<exists>k. st' = clockReads (k + 2) st \<and> clockOf env (k + 2) st > clockOf env 1 st + ms \<and>
      (\<forall>i < k. clockOf env (i + 2) st \<le> clockOf env 1 st + ms)"
    by (rule sleep_Some) blast
qed

theorem sleep_waits_witness:
  "sleep (exampleEnv 0) 100 ist0 \<noteq> None \<and> sleep ((exampleEnv 0)\<lparr>clockAt := (\<lambda>h. 7)\<rparr>) 100 ist0 = None"
proof
  have "\<not> (\<forall>n. clockOf (exampleEnv 0) (n + 2) ist0 \<le> clockOf (exampleEnv 0) 1 ist0 + 100)"
    by (rule notI, drule spec [of _ 0]) (simp add: clockOf_def exampleEnv_def ist0_def)
  then show "sleep (exampleEnv 0) 100 ist0 \<noteq> None" using sleep_waits [of "exampleEnv 0" 100 ist0] by blast
  have "\<forall>n. clockOf ((exampleEnv 0)\<lparr>clockAt := (\<lambda>h. 7)\<rparr>) (n + 2) ist0 \<le> clockOf ((exampleEnv 0)\<lparr>clockAt := (\<lambda>h. 7)\<rparr>) 1 ist0 + 100"
    by (simp add: clockOf_def)
  then show "sleep ((exampleEnv 0)\<lparr>clockAt := (\<lambda>h. 7)\<rparr>) 100 ist0 = None"
    using sleep_waits [of "(exampleEnv 0)\<lparr>clockAt := (\<lambda>h. 7)\<rparr>" 100 ist0] by blast
qed

text \<open>When the clock moves on, the wait for the old installation's uninstaller ends after at most 300 looks at its
  file, at least one; it does nothing but look at the clock and at that file, and it ends early only when the file is
  gone.\<close>

theorem uninstall_wait_bounded:
  assumes "\<forall>s. \<exists>n. clockOf env (n + 2) s > clockOf env 1 s + 100"
  shows "\<exists>st' more. waitGone env 300 st = Some st' \<and> st' = st\<lparr>calls := calls st @ more\<rparr> \<and>
     set more \<subseteq> {ReadClock, FileExists (appInstalledUninstallerPath st)} \<and>
     count_list more (FileExists (appInstalledUninstallerPath st)) \<in> {1..300} \<and>
     (count_list more (FileExists (appInstalledUninstallerPath st)) = 300 \<or>
      \<not> fileThere env (calls st') (appInstalledUninstallerPath st))"
proof -
  have "\<forall>s. sleep env 100 s \<noteq> None"
  proof
    fix s
    obtain n where "clockOf env (n + 2) s > clockOf env 1 s + 100" using assms by blast
    then show "sleep env 100 s \<noteq> None" by (rule sleep_returns) simp
  qed
  then obtain st' where wait: "waitGone env 300 st = Some st'" using waitGone_returns by blast
  from waitGone_result [OF this] obtain more where more: "calls st' = calls st @ more" "st' = st\<lparr>calls := calls st'\<rparr>"
      "set more \<subseteq> {ReadClock, FileExists (appInstalledUninstallerPath st)}"
      "count_list more (FileExists (appInstalledUninstallerPath st)) \<le> 300"
      "count_list more (FileExists (appInstalledUninstallerPath st)) = 300 \<or>
       \<not> fileThere env (calls st') (appInstalledUninstallerPath st)" by blast
  have "FileExists (appInstalledUninstallerPath st) \<in> set more"
    using waitGone_polls [of env 299 st st'] wait more(1) by simp
  then have "count_list more (FileExists (appInstalledUninstallerPath st)) \<ge> 1"
    by (simp add: Suc_le_eq count_list_0_iff flip: neq0_conv)
  with wait more show ?thesis by (intro exI [of _ st'] exI [of _ more]) (auto simp flip: more(1))
qed

theorem uninstall_wait_bounded_witness:
  "\<exists>st' more. waitGone (exampleEnv 0) 300 ist0 = Some st' \<and> calls st' = more \<and>
     count_list more (FileExists None) \<in> {1..300}"
proof -
  have "\<forall>s. \<exists>n. clockOf (exampleEnv 0) (n + 2) s > clockOf (exampleEnv 0) 1 s + 100"
    by (intro allI exI [of _ 0]) (simp add: clockOf_def exampleEnv_def)
  from uninstall_wait_bounded [OF this, of ist0] show ?thesis by (auto simp: ist0_def)
qed

end
