(* ===== verification/Installer_Controller.thy ===== *)
theory Installer_Controller
  imports Installer_Control
begin

text \<open>
  The behaviour of the control script: what each operation logs, when the message loop and the constructor
  \<^verbatim>\<open>Controller\<close> return, and under which conditions an old installation is removed and the wizard cancelled.
\<close>

section \<open>What the operations log\<close>

text \<open>A run of a maintenance tool: the only program started without arguments besides \<^verbatim>\<open>tasklist\<close>.\<close>

definition isUninstall :: "call \<Rightarrow> bool" where
  "isUninstall c = (case c of Execute p args \<Rightarrow> args = [] \<and> p \<noteq> ''tasklist'' | _ \<Rightarrow> False)"

definition quietCall :: "call \<Rightarrow> bool" where
  "quietCall c \<longleftrightarrow> \<not> isUninstall c \<and> c \<noteq> SetCancelled \<and> rightsFree c"

definition quietLog :: "history \<Rightarrow> history \<Rightarrow> bool" where
  "quietLog h h' \<longleftrightarrow> (\<exists>more. h' = h @ more \<and> list_all quietCall more)"

definition quietly :: "ist \<Rightarrow> ist \<Rightarrow> bool" where
  "quietly st st' \<longleftrightarrow> requestToQuitFromApp st' = requestToQuitFromApp st \<and>
     desktopAppProcessRunning st' = desktopAppProcessRunning st \<and> quietLog (calls st) (calls st')"

text \<open>The results of the maintenance tools run in \<open>t\<close>, which follows \<open>h\<close>.\<close>

fun uninstallResults :: "instEnv \<Rightarrow> history \<Rightarrow> history \<Rightarrow> (string \<times> int) option list" where
  "uninstallResults env h [] = []"
| "uninstallResults env h (c # t) =
     (case c of
        Execute p args \<Rightarrow> if isUninstall c then [execResult env (h @ [c]) p args] else []
      | _ \<Rightarrow> []) @ uninstallResults env (h @ [c]) t"

lemma quietCall_simps [simp]:
  "quietCall (SetValue a b)" "quietCall (SetDefaultPageVisible a v)" "quietCall (ClickButton k)"
  "\<not> quietCall SetCancelled" "quietCall (FileExists q)" "quietCall (MessageBox a b x)" "quietCall ReadClock"
  "quietCall (SetMessageBoxAutomaticAnswer a w)" "quietCall (ConsoleLog a)" "quietCall (Execute p (x # xs))"
  "quietCall (Execute ''tasklist'' [])"
  by (simp_all add: quietCall_def isUninstall_def rightsFree_def)

lemma quietLog_refl [simp]: "quietLog h h"
  by (auto simp: quietLog_def)

lemma quietLog_trans [trans]: "quietLog a b \<Longrightarrow> quietLog b c \<Longrightarrow> quietLog a c"
  by (auto simp: quietLog_def)

lemma quietLog_snoc [simp]: "quietCall c \<Longrightarrow> quietLog h (h @ [c])"
  by (auto simp: quietLog_def)

lemma quietly_refl [simp]: "quietly st st"
  by (simp add: quietly_def)

lemma quietly_trans [trans]: "quietly a b \<Longrightarrow> quietly b c \<Longrightarrow> quietly a c"
  using quietLog_trans by (auto simp: quietly_def)

lemma quietly_emit: "quietly a b \<Longrightarrow> quietCall c \<Longrightarrow> quietly a (emit c b)"
  by (auto simp: quietly_def quietLog_def)

lemma uninstallResults_append:
  "uninstallResults env h (s @ t) = uninstallResults env h s @ uninstallResults env (h @ s) t"
  by (induction s arbitrary: h) auto

lemma uninstallResults_quiet: "list_all quietCall t \<Longrightarrow> uninstallResults env h t = []"
  by (induction t arbitrary: h) (auto simp: quietCall_def isUninstall_def split: call.splits)

lemma quietLog_uninstallResults:
  "quietLog h h' \<Longrightarrow> uninstallResults env [] h' = uninstallResults env [] h"
  by (auto simp: quietLog_def uninstallResults_append uninstallResults_quiet)

lemma quietLog_cancelled: "quietLog h h' \<Longrightarrow> SetCancelled \<in> set h' \<longleftrightarrow> SetCancelled \<in> set h"
  by (auto simp: quietLog_def list_all_iff dest: bspec [of _ _ SetCancelled])

lemma quietly_hidePages: "quietly st (fold (\<lambda>page. emit (SetDefaultPageVisible page False)) pages st)"
proof (induction pages arbitrary: st)
  case (Cons q pages)
  have "quietly st (emit (SetDefaultPageVisible q False) st)" by (simp add: quietly_emit)
  also note Cons.IH
  finally show ?case by simp
qed simp

lemma quietly_fileExists: "quietly a st \<Longrightarrow> quietly a (snd (fileExists env q st))"
  by (simp add: fileExists_def Let_def quietly_emit)

lemma quietly_appInstalled: "quietly st (snd (appInstalled env st))"
proof -
  have "quietly st (setUninstallerPaths env st)" by (simp add: setUninstallerPaths_def quietly_def)
  moreover have "quietly (setUninstallerPaths env st) (snd (appInstalled env st))"
    by (simp add: appInstalled_def Let_def case_prod_beta quietly_fileExists)
  ultimately show ?thesis by (rule quietly_trans)
qed

lemma quietly_raiseInstallerWindow: "quietly st (raiseInstallerWindow env st)"
  by (simp add: raiseInstallerWindow_def instExecute_def Let_def quietly_emit)

lemma quietly_waitGone: "waitGone env n st = Some st' \<Longrightarrow> quietly st st'"
proof -
  assume "waitGone env n st = Some st'"
  from waitGone_result [OF this] obtain more where more: "calls st' = calls st @ more" "st' = st\<lparr>calls := calls st'\<rparr>"
      "set more \<subseteq> {ReadClock, FileExists (appInstalledUninstallerPath st)}" by blast
  have "requestToQuitFromApp st' = requestToQuitFromApp st" "desktopAppProcessRunning st' = desktopAppProcessRunning st"
    by (subst more(2), simp)+
  with more show "quietly st st'" by (auto simp: quietly_def quietLog_def list_all_iff)
qed

section \<open>The message loop\<close>

text \<open>The question a state puts to the system about the application.\<close>

definition processQuery :: "instEnv \<Rightarrow> ist \<Rightarrow> call" where
  "processQuery env st = (if runningOnWindows env st then Execute ''tasklist'' []
     else Execute ''/bin/bash'' [''-c'', ''pgrep -x '' @ sq @ appName env st @ sq])"

definition boxCount :: "history \<Rightarrow> nat" where
  "boxCount h = length (filter (\<lambda>c. case c of MessageBox _ _ _ \<Rightarrow> True | _ \<Rightarrow> False) h)"

definition queryOrBox :: "call \<Rightarrow> bool" where
  "queryOrBox c = (case c of Execute p args \<Rightarrow> p = ''tasklist'' \<and> args = [] \<or> p = ''/bin/bash'' \<and> args \<noteq> []
     | MessageBox i _ _ \<Rightarrow> i = ''QMessageBox'' | _ \<Rightarrow> False)"

lemma appProcessIsRunning_state: "snd (appProcessIsRunning env st) = emit (processQuery env st) st"
  by (simp add: appProcessIsRunning_def checkProcessIsRunning_def instExecute_def processQuery_def Let_def
      split: option.splits)

lemma appProcessIsRunning_emits: "appProcessIsRunning env st = (r, st') \<Longrightarrow> st' = emit (processQuery env st) st"
  using appProcessIsRunning_state [of env st] by simp

lemma processQuery_queryOrBox [simp]: "queryOrBox (processQuery env st)"
  by (simp add: processQuery_def queryOrBox_def)

lemma boxCount_processQuery [simp]: "boxCount (h @ [processQuery env st]) = boxCount h"
  by (simp add: processQuery_def boxCount_def)

lemma queryOrBox_quiet: "queryOrBox c \<Longrightarrow> quietCall c"
  by (auto simp: queryOrBox_def neq_Nil_conv split: call.splits)

text \<open>Only queries and message boxes are logged between \<open>st\<close> and \<open>st'\<close>, and only the two flags change.\<close>

definition asking :: "ist \<Rightarrow> ist \<Rightarrow> bool" where
  "asking st st' \<longleftrightarrow> (\<exists>more. list_all queryOrBox more \<and>
     st' = st\<lparr>requestToQuitFromApp := requestToQuitFromApp st', desktopAppProcessRunning := desktopAppProcessRunning st',
       calls := calls st @ more\<rparr>)"

lemma asking_refl [simp]: "asking st st"
  by (auto simp: asking_def intro!: exI [of _ "[]"])

lemma asking_trans [trans]:
  assumes "asking a b" "asking b c"
  shows "asking a c"
proof -
  obtain s t where "list_all queryOrBox s" "list_all queryOrBox t"
    and b: "b = a\<lparr>requestToQuitFromApp := requestToQuitFromApp b, desktopAppProcessRunning := desktopAppProcessRunning b,
       calls := calls a @ s\<rparr>"
    and c: "c = b\<lparr>requestToQuitFromApp := requestToQuitFromApp c, desktopAppProcessRunning := desktopAppProcessRunning c,
       calls := calls b @ t\<rparr>"
    using assms unfolding asking_def by blast
  have "c = a\<lparr>requestToQuitFromApp := requestToQuitFromApp c, desktopAppProcessRunning := desktopAppProcessRunning c,
       calls := calls a @ s @ t\<rparr>"
    by (subst c, subst (1 2) b) simp
  with \<open>list_all queryOrBox s\<close> \<open>list_all queryOrBox t\<close> show ?thesis
    unfolding asking_def by (intro exI [of _ "s @ t"]) simp
qed

lemma asking_emit: "queryOrBox c \<Longrightarrow> asking st (emit c st)"
  unfolding asking_def by (intro exI [of _ "[c]"]) (simp add: emit_def)

lemma asking_flags: "asking st (st\<lparr>requestToQuitFromApp := q\<rparr>)" "asking st (st\<lparr>desktopAppProcessRunning := d\<rparr>)"
  unfolding asking_def by (rule exI [of _ "[]"]; simp)+

lemma asking_calls: "asking st st' \<Longrightarrow> \<exists>more. calls st' = calls st @ more \<and> list_all queryOrBox more"
  unfolding asking_def by (metis ist.select_convs(6) ist.surjective ist.update_convs(6))

lemma asking_quietLog: "asking st st' \<Longrightarrow> quietLog (calls st) (calls st')"
  unfolding asking_def quietLog_def by (metis ist.select_convs(6) ist.surjective ist.update_convs(6) list.pred_mono_strong queryOrBox_quiet)

text \<open>One query of the system about the application, and the flag it sets.\<close>

lemma appProcessIsRunning_asks:
  assumes "appProcessIsRunning env st = (r, st')"
  shows "asking st st'" "requestToQuitFromApp st' = requestToQuitFromApp st" "boxCount (calls st') = boxCount (calls st)"
  using appProcessIsRunning_emits [OF assms] by (auto intro: asking_emit)

lemma pollRunning_asks:
  "pollRunning env n st = (r, st') \<Longrightarrow>
     asking st st' \<and> requestToQuitFromApp st' = requestToQuitFromApp st \<and> boxCount (calls st') = boxCount (calls st)"
proof (induction n arbitrary: st)
  case (Suc n)
  obtain q s1 where q: "appProcessIsRunning env st = (q, s1)" by (cases "appProcessIsRunning env st")
  note s1 = appProcessIsRunning_asks [OF q]
  have set: "asking st (s1\<lparr>desktopAppProcessRunning := d\<rparr>)" for d
    using s1(1) asking_flags(2) by (rule asking_trans)
  show ?case
  proof (cases "q = Inr True")
    case True
    with Suc.prems q have "pollRunning env n (s1\<lparr>desktopAppProcessRunning := True\<rparr>) = (r, st')" by simp
    from Suc.IH [OF this] set [of True] s1 show ?thesis by (auto intro: asking_trans)
  next
    case False
    with Suc.prems q have "st' = s1 \<or> st' = s1\<lparr>desktopAppProcessRunning := False\<rparr>"
      by (cases q) (auto simp: Let_def)
    then show ?thesis using s1 set by auto
  qed
qed simp

text \<open>A log that ends with a look at the processes that did not find the application. What the look asks and how its answer
  is read depends on the log before it alone.\<close>

definition closedCheck :: "instEnv \<Rightarrow> history \<Rightarrow> bool" where
  "closedCheck env h \<longleftrightarrow> h \<noteq> [] \<and> last h = processQuery env (ist0\<lparr>calls := butlast h\<rparr>) \<and>
     fst (appProcessIsRunning env (ist0\<lparr>calls := butlast h\<rparr>)) = Inr False"

lemma look_log:
  "processQuery env (ist0\<lparr>calls := calls st\<rparr>) = processQuery env st"
  "fst (appProcessIsRunning env (ist0\<lparr>calls := calls st\<rparr>)) = fst (appProcessIsRunning env st)"
  by (auto simp: processQuery_def appProcessIsRunning_def checkProcessIsRunning_def instExecute_def appName_def instValue_def
      runningOnWindows_def appExecutableFileName_def Let_def split: option.splits)

lemma closedCheck_look:
  assumes "appProcessIsRunning env st = (Inr False, st')"
  shows "closedCheck env (calls st')"
  using assms appProcessIsRunning_emits [OF assms] by (simp add: closedCheck_def look_log)

lemma messageRound_result:
  assumes "messageRound env st = (r, st')" and "\<not> requestToQuitFromApp st"
  shows "asking st st' \<and>
     (case r of
        Inl e \<Rightarrow> \<not> requestToQuitFromApp st'
      | Inr again \<Rightarrow> if again then \<not> requestToQuitFromApp st' \<and> boxCount (calls st') = Suc (boxCount (calls st)) \<and>
                       answerOf env (calls st') = AnswerRetry
          else requestToQuitFromApp st' \<or> \<not> desktopAppProcessRunning st' \<and> closedCheck env (calls st'))"
proof -
  obtain p s1 where p: "(if isUpdater env then pollRunning env 400 st else (Inr (), st)) = (p, s1)" by fastforce
  have s1: "asking st s1" "\<not> requestToQuitFromApp s1" "boxCount (calls s1) = boxCount (calls st)"
    using p pollRunning_asks [of env 400 st p s1] assms(2) by (auto split: if_splits)
  obtain q s2 where q: "appProcessIsRunning env s1 = (q, s2)" by fastforce
  note s2 = appProcessIsRunning_asks [OF q]
  have st2: "asking st s2" using s1(1) s2(1) by (rule asking_trans)
  show ?thesis
  proof (cases "\<exists>e. p = Inl e \<or> q = Inl e")
    case True
    then show ?thesis using assms(1) p q s1 s2 st2 by (cases p) (auto simp: messageRound_def)
  next
    case False
    then obtain running where r: "p = Inr ()" "q = Inr running" by (cases p; cases q) auto
    define s3 where "s3 = s2\<lparr>desktopAppProcessRunning := running\<rparr>"
    define s4 where "s4 = emit (MessageBox ''QMessageBox'' (appName env s3 @ '' installer'') (activeText env s3)) s3"
    have "asking st s3" using st2 asking_flags(2) unfolding s3_def by (rule asking_trans)
    moreover from this have "asking st s4" unfolding s4_def by (rule asking_trans) (simp add: asking_emit queryOrBox_def)
    moreover from this have "asking st (s4\<lparr>requestToQuitFromApp := True\<rparr>)" using asking_flags(1) by (rule asking_trans)
    moreover have "messageRound env st = (if \<not> running then (Inr False, s3) else if answerOf env (calls s4) = AnswerRetry
        then (Inr True, s4) else (Inr False, s4\<lparr>requestToQuitFromApp := True\<rparr>))"
      by (cases running) (simp_all add: messageRound_def p q r messageBox_def Let_def s3_def s4_def)
    moreover have "boxCount (calls s4) = Suc (boxCount (calls st))" "\<not> requestToQuitFromApp s4"
      "\<not> running \<longrightarrow> \<not> desktopAppProcessRunning s3 \<and> closedCheck env (calls s3)"
      using s1 s2 closedCheck_look [of env s1 s2] q r(2) by (auto simp: s4_def s3_def boxCount_def)
    ultimately show ?thesis using assms(1) by (auto split: if_splits)
  qed
qed

lemma messageLoop_step:
  "isDesktopAppProcessRunningMessageLoop env st =
     (if requestToQuitFromApp st then Some (Inr (), st)
      else case messageRound env st of
        (Inl e, st) \<Rightarrow> Some (Inl e, st)
      | (Inr again, st) \<Rightarrow> if again then isDesktopAppProcessRunningMessageLoop env st else Some (Inr (), st))"
  by (rule isDesktopAppProcessRunningMessageLoop.simps)

text \<open>What the loop has done when it returns.\<close>

definition loopDone :: "instEnv \<Rightarrow> ist \<Rightarrow> (jsError + unit) \<times> ist \<Rightarrow> bool" where
  "loopDone env st x \<longleftrightarrow> asking st (snd x) \<and>
     (case fst x of Inl e \<Rightarrow> \<not> requestToQuitFromApp (snd x)
      | Inr _ \<Rightarrow> requestToQuitFromApp (snd x) \<or> \<not> desktopAppProcessRunning (snd x) \<and> closedCheck env (calls (snd x)))"

lemma messageLoop_done:
  assumes "isDesktopAppProcessRunningMessageLoop env st = Some x"
  shows "loopDone env st x"
proof (rule isDesktopAppProcessRunningMessageLoop.raw_induct [where P = "\<lambda>env st x. loopDone env st x", OF _ assms])
  fix rec env st x
  assume IH: "\<And>env st x. rec env st = Some x \<Longrightarrow> loopDone env st x"
    and step: "(if requestToQuitFromApp st then Some (Inr (), st)
      else case messageRound env st of (Inl e, st) \<Rightarrow> Some (Inl e, st)
      | (Inr again, st) \<Rightarrow> if again then rec env st else Some (Inr (), st)) = Some x"
  show "loopDone env st x"
  proof (cases "requestToQuitFromApp st")
    case True
    with step show ?thesis by (auto simp: loopDone_def)
  next
    case False
    obtain r s1 where r: "messageRound env st = (r, s1)" by fastforce
    note res = messageRound_result [OF r False]
    show ?thesis
    proof (cases "r = Inr True")
      case True
      with step r False have "loopDone env s1 x" by (simp add: IH)
      with res show ?thesis by (auto simp: loopDone_def intro: asking_trans)
    next
      case other: False
      with step r False res show ?thesis by (auto simp: loopDone_def split: sum.splits if_splits)
    qed
  qed
qed

lemma messageLoop_returns:
  assumes "\<forall>h. boxCount h > n \<longrightarrow> answerOf env h \<noteq> AnswerRetry"
  shows "\<exists>x. isDesktopAppProcessRunningMessageLoop env st = Some x"
proof (induction "Suc n - boxCount (calls st)" arbitrary: st rule: less_induct)
  case less
  show ?case
  proof (cases "requestToQuitFromApp st")
    case False
    obtain r s1 where r: "messageRound env st = (r, s1)" by fastforce
    note res = messageRound_result [OF r False]
    show ?thesis
    proof (cases "r = Inr True")
      case True
      then have "boxCount (calls s1) = Suc (boxCount (calls st))" "boxCount (calls s1) \<le> n"
        using res assms by (auto simp: not_less [symmetric])
      then have "\<exists>x. isDesktopAppProcessRunningMessageLoop env s1 = Some x" by (intro less) simp
      with True r False show ?thesis by (subst messageLoop_step) simp
    next
      case other: False
      with r False show ?thesis by (subst messageLoop_step) (auto split: sum.splits)
    qed
  qed (subst messageLoop_step, simp)
qed

section \<open>The controller\<close>

text \<open>\<open>later st st'\<close>: the flags are as in \<open>st\<close> and the log of \<open>st\<close> was extended.\<close>

definition later :: "ist \<Rightarrow> ist \<Rightarrow> bool" where
  "later st st' \<longleftrightarrow> requestToQuitFromApp st' = requestToQuitFromApp st \<and>
     desktopAppProcessRunning st' = desktopAppProcessRunning st \<and> prefix (calls st) (calls st')"

definition pathsOk :: "ist \<Rightarrow> bool" where
  "pathsOk st \<longleftrightarrow> pathText (appInstalledUninstallerPath st) \<noteq> ''tasklist'' \<and>
     pathText (appInstalledUninstallerPath_x86 st) \<noteq> ''tasklist''"

abbreviation resultsOf :: "instEnv \<Rightarrow> ist \<Rightarrow> (string \<times> int) option list" where
  "resultsOf env st \<equiv> uninstallResults env [] (calls st)"

abbreviation cancelled :: "ist \<Rightarrow> bool" where
  "cancelled st \<equiv> SetCancelled \<in> set (calls st)"

lemma later_refl [simp]: "later st st"
  by (simp add: later_def)

lemma later_trans [trans]: "later a b \<Longrightarrow> later b c \<Longrightarrow> later a c"
  by (auto simp: later_def)

lemma later_emit [simp]: "later st (emit c st)"
  by (simp add: later_def)

lemma quietly_later: "quietly a b \<Longrightarrow> later a b"
  by (auto simp: quietly_def later_def quietLog_def)

lemma quietly_results: "quietly a b \<Longrightarrow> resultsOf env b = resultsOf env a" "quietly a b \<Longrightarrow> cancelled b = cancelled a"
  by (simp_all add: quietly_def quietLog_uninstallResults quietLog_cancelled)

lemma results_emit_uninstall:
  "p \<noteq> ''tasklist'' \<Longrightarrow> resultsOf env (emit (Execute p []) st) =
     resultsOf env st @ [execResult env (calls st @ [Execute p []]) p []]"
  by (simp add: uninstallResults_append isUninstall_def)

lemma results_emit_cancel [simp]: "resultsOf env (emit SetCancelled st) = resultsOf env st"
  by (simp add: uninstallResults_append)

lemma long_not_tasklist: "length b > 8 \<Longrightarrow> a @ b \<noteq> ''tasklist''"
  by (auto dest!: arg_cong [where f = length])

lemma pathsOk_emit [simp]: "pathsOk (emit c st) = pathsOk st"
  by (simp add: pathsOk_def)

lemma pathsOk_set: "pathsOk st \<Longrightarrow> pathsOk (setUninstallerPaths env st)"
  unfolding pathsOk_def setUninstallerPaths_def pathText_def
  by (simp add: long_not_tasklist)

lemma pathsOk_appInstalled: "pathsOk st \<Longrightarrow> pathsOk (snd (appInstalled env st))"
  using pathsOk_set [of st env] by (simp add: appInstalled_def fileExists_def Let_def pathsOk_def)

lemma runUninstaller_result:
  assumes "runUninstaller env q prev st = (r, st')" and "pathText q \<noteq> ''tasklist''"
  shows "later st st'" "cancelled st' = cancelled st"
    "appInstalledUninstallerPath st' = appInstalledUninstallerPath st"
    "r = prev \<and> resultsOf env st' = resultsOf env st \<or> resultsOf env st' = resultsOf env st @ [r]"
proof -
  define s1 where "s1 = emit (FileExists q) st"
  define s2 where "s2 = emit (ConsoleLog (''Starting uninstallation '' @ pathText q)) s1"
  have q: "quietly st s1" "quietly st s2" by (simp_all add: s1_def s2_def quietly_emit)
  note facts = q [THEN quietly_later] q [THEN quietly_results(1), of env] q [THEN quietly_results(2)]
  show "later st st'" "cancelled st' = cancelled st" "appInstalledUninstallerPath st' = appInstalledUninstallerPath st"
    "r = prev \<and> resultsOf env st' = resultsOf env st \<or> resultsOf env st' = resultsOf env st @ [r]"
    using assms(1) facts later_trans [OF _ later_emit]
    by (auto simp: runUninstaller_def fileExists_def instExecute_def Let_def results_emit_uninstall [OF assms(2)]
        simp del: calls_emit simp flip: s1_def s2_def split: if_splits) (auto simp: s1_def s2_def)
qed

text \<open>Both maintenance tools in turn; the second run decides.\<close>

lemma runUninstallers_result:
  assumes "runUninstaller env (appInstalledUninstallerPath_x86 st) None st = (r, s1)"
    and "runUninstaller env (appInstalledUninstallerPath s1) r s1 = (r', s2)"
    and "pathsOk st" "resultsOf env st = []"
  shows "later st s2" "cancelled s2 = cancelled st" "resultsOf env s2 \<noteq> [] \<Longrightarrow> last (resultsOf env s2) = r'"
proof -
  have "pathText (appInstalledUninstallerPath_x86 st) \<noteq> ''tasklist''" using assms(3) by (simp add: pathsOk_def)
  note first = runUninstaller_result [OF assms(1) this]
  have "pathText (appInstalledUninstallerPath s1) \<noteq> ''tasklist''" using assms(3) first(3) by (simp add: pathsOk_def)
  note second = runUninstaller_result [OF assms(2) this]
  show "later st s2" using first(1) second(1) by (rule later_trans)
  show "cancelled s2 = cancelled st" using first(2) second(2) by simp
  show "resultsOf env s2 \<noteq> [] \<Longrightarrow> last (resultsOf env s2) = r'" using first(4) second(4) assms(4) by auto
qed

text \<open>The question whether an old installation may be removed.\<close>

definition removalQuestion :: "instEnv \<Rightarrow> ist \<Rightarrow> call" where
  "removalQuestion env st = MessageBox ''os.information'' (appName env st)
     (qsTr env ''The application is already installed.'' @ '' '' @
      qsTr env ''We need to remove the old installation first. Do you wish to proceed?'')"

text \<open>What the removal of an old installation has done when it returns.\<close>

definition removalDone :: "instEnv \<Rightarrow> ist \<Rightarrow> bool \<Rightarrow> ist \<Rightarrow> bool" where
  "removalDone env st stop st' \<longleftrightarrow> later (emit (removalQuestion env st) st) st' \<and>
     (stop \<longleftrightarrow> cancelled st') \<and> (stop \<longrightarrow> last (calls st') = SetCancelled) \<and>
     (answerOf env (calls st @ [removalQuestion env st]) \<noteq> AnswerOk \<longrightarrow> stop \<and> resultsOf env st' = []) \<and>
     (resultsOf env st' \<noteq> [] \<longrightarrow> (stop \<longleftrightarrow> codeNumber (last (resultsOf env st')) \<noteq> Num 0))"

lemma removal_done:
  assumes "removeOldInstallation env st = Some (stop, st')" "pathsOk st" "resultsOf env st = []" "\<not> cancelled st"
  shows "removalDone env st stop st'"
proof -
  define s1 where "s1 = emit (removalQuestion env st) st"
  have quiet1: "quietly st s1" by (simp add: s1_def removalQuestion_def quietly_emit)
  then have s1: "resultsOf env s1 = []" "\<not> cancelled s1" "pathsOk s1"
    using assms by (simp_all add: quietly_results, simp add: s1_def pathsOk_def)
  have mb: "messageBox env ''os.information'' (appName env st)
     (qsTr env ''The application is already installed.'' @ '' '' @
      qsTr env ''We need to remove the old installation first. Do you wish to proceed?'') st =
      (answerOf env (calls st @ [removalQuestion env st]), s1)"
    by (simp add: messageBox_def removalQuestion_def s1_def Let_def)
  obtain installed s2 where app: "appInstalled env s1 = (installed, s2)" by fastforce
  then have quiet2: "quietly s1 s2" and ok2: "pathsOk s2"
    using quietly_appInstalled [of s1 env] pathsOk_appInstalled [OF s1(3), of env] by simp_all
  obtain r3 s3 where u3: "runUninstaller env (appInstalledUninstallerPath_x86 s2) None s2 = (r3, s3)" by fastforce
  obtain r4 s4 where u4: "runUninstaller env (appInstalledUninstallerPath s3) r3 s3 = (r4, s4)" by fastforce
  define s5 where "s5 = emit (ConsoleLog (''Uninstaller finished with code: '' @ codeText r4)) s4"
  have quiet5: "quietly s4 s5" by (simp add: s5_def quietly_emit)
  have s2: "later s1 s2" "resultsOf env s2 = []" "\<not> cancelled s2"
    using quietly_later [OF quiet2] quietly_results [OF quiet2] s1 by simp_all
  note run = runUninstallers_result [OF u3 u4 ok2 s2(2)]
  have s5: "later s1 s5" "\<not> cancelled s5" "resultsOf env s5 \<noteq> [] \<longrightarrow> last (resultsOf env s5) = r4"
    using later_trans [OF later_trans [OF s2(1) run(1)] quietly_later [OF quiet5]] quietly_results [OF quiet5] s2(3) run(2,3)
    by auto
  consider (refused) "answerOf env (calls st @ [removalQuestion env st]) \<noteq> AnswerOk"
        "stop" "st' = emit SetCancelled (emit (ConsoleLog ''Request to quit from user'') s1)"
    | (gone) "answerOf env (calls st @ [removalQuestion env st]) = AnswerOk" "\<not> stop" "st' = raiseInstallerWindow env s2"
    | (failed) "answerOf env (calls st @ [removalQuestion env st]) = AnswerOk" "codeNumber r4 \<noteq> Num 0"
        "stop" "st' = emit SetCancelled (emit (ConsoleLog ''Uninstallation aborted by user'') s5)"
    | (removed) s6 where "answerOf env (calls st @ [removalQuestion env st]) = AnswerOk" "codeNumber r4 = Num 0"
        "\<not> stop" "waitGone env 300 s5 = Some s6" "st' = raiseInstallerWindow env s6"
    using assms(1) unfolding removeOldInstallation_def mb
    by (auto simp: app u3 u4 Let_def s5_def split: if_splits option.splits)
  then show ?thesis
  proof cases
    case refused
    let ?s = "emit (ConsoleLog ''Request to quit from user'') s1"
    have "quietly s1 ?s" by (simp add: quietly_emit)
    with refused s1 show ?thesis
      by (simp add: removalDone_def quietly_results later_trans [OF quietly_later later_emit] del: calls_emit flip: s1_def)
        (simp add: calls_emit)
  next
    case gone
    have "quietly s1 st'" unfolding gone(3) using quiet2 quietly_raiseInstallerWindow by (rule quietly_trans)
    with gone s1 show ?thesis by (simp add: removalDone_def quietly_results quietly_later flip: s1_def)
  next
    case failed
    let ?s = "emit (ConsoleLog ''Uninstallation aborted by user'') s5"
    have "quietly s5 ?s" by (simp add: quietly_emit)
    with failed s5 show ?thesis
      by (simp add: removalDone_def quietly_results later_trans [OF s5(1) later_trans [OF quietly_later later_emit]] del: calls_emit flip: s1_def)
        (simp add: calls_emit)
  next
    case removed
    have "quietly s5 st'" unfolding removed(5)
      using quietly_waitGone [OF removed(4)] quietly_raiseInstallerWindow by (rule quietly_trans)
    with removed s5 show ?thesis
      by (auto simp: removalDone_def quietly_results later_trans [OF s5(1) quietly_later] simp flip: s1_def)
  qed
qed

lemma controllerStart_quiet:
  assumes "pathsOk st"
  shows "quietly st (controllerStart env st)" "pathsOk (controllerStart env st)"
proof -
  define s1 where "s1 = emit (ConsoleLog (qtArg (qtArg ''OS: %1, architecture: %2'' (prettyProductName env)) (currentCpuArchitecture env))) st"
  define s2 where "s2 = (if isInstaller env \<or> isUpdater env
                then (case appInstalled env s1 of (installed, st) \<Rightarrow>
                        emit (ConsoleLog (''Check if app already installed: '' @ (if installed then ''true'' else ''false''))) st)
                else s1)"
  have start: "controllerStart env st = (if runningOnWindows env s2 then emit (SetValue ''AllUsers'' ''true'') s2 else s2)"
    by (simp add: controllerStart_def Let_def s1_def s2_def)
  have "quietly st s1" "pathsOk s1" using assms by (simp_all add: s1_def quietly_emit pathsOk_def)
  moreover have "quietly s1 s2" "pathsOk s1 \<Longrightarrow> pathsOk s2"
    using quietly_appInstalled [of s1 env] pathsOk_appInstalled [of s1 env]
    by (auto simp: s2_def case_prod_beta quietly_emit)
  ultimately show "quietly st (controllerStart env st)" "pathsOk (controllerStart env st)"
    by (auto simp: start intro: quietly_trans quietly_emit)
qed

lemma asking_results:
  assumes "asking st st'"
  shows "resultsOf env st' = resultsOf env st" "cancelled st' = cancelled st" "pathsOk st' = pathsOk st"
proof -
  show "resultsOf env st' = resultsOf env st" "cancelled st' = cancelled st"
    using asking_quietLog [OF assms] by (simp_all add: quietLog_uninstallResults quietLog_cancelled)
  obtain more where "st' = st\<lparr>requestToQuitFromApp := requestToQuitFromApp st',
      desktopAppProcessRunning := desktopAppProcessRunning st', calls := calls st @ more\<rparr>"
    using assms by (auto simp: asking_def)
  then have "appInstalledUninstallerPath st' = appInstalledUninstallerPath st"
    "appInstalledUninstallerPath_x86 st' = appInstalledUninstallerPath_x86 st"
    by (metis ist.surjective ist.update_convs ist.select_convs)+
  then show "pathsOk st' = pathsOk st" by (simp add: pathsOk_def)
qed

lemma asking_later: "asking st st' \<Longrightarrow> prefix (calls st) (calls st')"
  using asking_quietLog [of st st'] by (auto simp: quietLog_def)

lemma pathsOk_hidePages: "pathsOk (fold (\<lambda>page. emit (SetDefaultPageVisible page False)) pages st) = pathsOk st"
  by (induction pages arbitrary: st) auto

lemma prepareInstallation_cases:
  assumes "prepareInstallation env st = Some st'"
    and st: "pathsOk st" "resultsOf env st = []" "\<not> cancelled st"
  obtains (fresh) "quietly st st'"
  | (old) s stop where "quietly st s" "removalDone env s stop st'"
proof -
  define s1 where "s1 = (if runningOnMacOS env st
      then emit (SetMessageBoxAutomaticAnswer ''OverwriteTargetDirectory'' AnswerYes) st else st)"
  obtain installed s2 where app: "appInstalled env s1 = (installed, s2)" by fastforce
  have run: "prepareInstallation env st = (if installed then map_option snd (removeOldInstallation env s2) else Some s2)"
    unfolding prepareInstallation_def Let_def s1_def [symmetric] app by simp
  have "quietly st s1" "pathsOk s1" using st by (simp_all add: s1_def quietly_emit)
  then have quiet: "quietly st s2" and ok: "pathsOk s2"
    using quietly_trans [of st s1 s2] quietly_appInstalled [of s1 env] pathsOk_appInstalled [of s1 env] app by simp_all
  have s2: "resultsOf env s2 = []" "\<not> cancelled s2" using quietly_results [OF quiet] st by simp_all
  show ?thesis
  proof (cases installed)
    case True
    then obtain stop where "removeOldInstallation env s2 = Some (stop, st')" using assms(1) unfolding run by auto
    from removal_done [OF this ok s2] quiet show ?thesis by (intro old)
  qed (use run assms(1) quiet fresh in auto)
qed

text \<open>How a run of the installer branch can end: an exception, the quit sequence, a run without an old
  installation, or one that dealt with it.\<close>

lemma controllerInstaller_cases:
  assumes "controllerInstaller env st = Some (r, st')"
    and st: "pathsOk st" "resultsOf env st = []" "\<not> cancelled st"
  obtains (thrown) e where "r = Inl e" "resultsOf env st' = []" "\<not> cancelled st'" "\<not> requestToQuitFromApp st'"
  | (quit) s where "r = Inr ()" "st' = requestToQuit env s" "resultsOf env s = []" "\<not> cancelled s"
  | (fresh) "r = Inr ()" "resultsOf env st' = []" "\<not> cancelled st'" "\<not> requestToQuitFromApp st'" "\<not> desktopAppProcessRunning st'"
  | (old) s stop h where "r = Inr ()" "removalDone env s stop st'" "resultsOf env s = []"
      "\<not> requestToQuitFromApp st'" "\<not> desktopAppProcessRunning st'" "closedCheck env h" "prefix h (calls s)"
proof -
  define s1 where "s1 = fold (\<lambda>page. emit (SetDefaultPageVisible page False))
      [''ComponentSelection'', ''TargetDirectory'', ''StartMenuDirectoryPage'', ''LicenseCheck''] st"
  have "quietly st s1" unfolding s1_def by (rule quietly_hidePages)
  then have s1: "resultsOf env s1 = []" "\<not> cancelled s1" "pathsOk s1"
    using st by (simp_all add: quietly_results, simp only: s1_def pathsOk_hidePages)
  obtain q s2 where loop: "isDesktopAppProcessRunningMessageLoop env s1 = Some (q, s2)"
    using assms(1) by (cases "isDesktopAppProcessRunningMessageLoop env s1") (auto simp: controllerInstaller_def Let_def s1_def)
  then have ends: "loopDone env s1 (q, s2)" by (rule messageLoop_done)
  then have s2: "resultsOf env s2 = []" "\<not> cancelled s2" "pathsOk s2"
    using s1 asking_results [of s1 s2] by (auto simp: loopDone_def)
  have run: "controllerInstaller env st = (case q of Inl e \<Rightarrow> Some (Inl e, s2)
      | Inr _ \<Rightarrow> if requestToQuitFromApp s2 then Some (Inr (), requestToQuit env s2)
          else map_option (Pair (Inr ())) (prepareInstallation env s2))"
    unfolding controllerInstaller_def Let_def s1_def [symmetric] loop by (simp split: sum.splits)
  show ?thesis
  proof (cases "(\<exists>e. q = Inl e) \<or> requestToQuitFromApp s2")
    case True
    with run assms(1) s2 ends show ?thesis
      by (cases q) (auto simp: loopDone_def intro: thrown quit split: if_splits)
  next
    case False
    then have prep: "prepareInstallation env s2 = Some st'" and r: "r = Inr ()"
      using assms(1) unfolding run by (auto split: sum.splits)
    have flags: "\<not> requestToQuitFromApp s2" "\<not> desktopAppProcessRunning s2" "closedCheck env (calls s2)"
      using ends False by (auto simp: loopDone_def split: sum.splits)
    from prep s2(3,1,2) show ?thesis
    proof (cases rule: prepareInstallation_cases)
      case fresh
      with flags s2 r show ?thesis using quietly_results [OF fresh] by (intro that(3)) (auto simp: quietly_def)
    next
      case (old s stop)
      have "\<not> requestToQuitFromApp st'" "\<not> desktopAppProcessRunning st'"
        using flags old by (auto simp: removalDone_def later_def quietly_def)
      moreover have "prefix (calls s2) (calls s)" using quietly_later [OF old(1)] by (simp add: later_def)
      ultimately show ?thesis
        using old r s2 flags(3) quietly_results(1) [OF old(1)] by (intro that(4) [of s stop "calls s2"]) auto
    qed
  qed
qed

lemma removalQuestion_form: "\<exists>t x. removalQuestion env st = MessageBox ''os.information'' t x"
  by (simp add: removalQuestion_def)

lemma removalDone_confirmed:
  assumes "removalDone env s stop st" "resultsOf env s = []" "resultsOf env st \<noteq> []" "prefix h (calls s)"
  shows "\<exists>h' t x rest. calls st = h @ h' @ MessageBox ''os.information'' t x # rest \<and> uninstallResults env [] (h @ h') = [] \<and>
     answerOf env (h @ h' @ [MessageBox ''os.information'' t x]) = AnswerOk"
proof -
  obtain rest where "calls st = calls s @ removalQuestion env s # rest"
    using assms(1) by (auto simp: removalDone_def later_def prefix_def)
  moreover have "answerOf env (calls s @ [removalQuestion env s]) = AnswerOk"
    using assms(1,3) by (auto simp: removalDone_def)
  moreover obtain h' where "calls s = h @ h'" using assms(4) by (auto simp: prefix_def)
  ultimately show ?thesis using assms(2) removalQuestion_form [of env s] by (metis append_assoc)
qed

lemma ist0_start: "pathsOk ist0" "resultsOf env ist0 = []" "\<not> cancelled ist0"
  by (simp_all add: ist0_def pathsOk_def pathText_def)

lemma resultsOf_requestToQuit: "resultsOf env (requestToQuit env st) = resultsOf env st"
proof -
  define s1 where "s1 = fold (\<lambda>page. emit (SetDefaultPageVisible page False)) quitPages (st\<lparr>requestToQuitFromApp := True\<rparr>)"
  define s2 where "s2 = emit (ClickButton CancelButton) (emit (ClickButton FinishButton) (emit (ClickButton NextButton) s1))"
  have "quietly s1 s2" by (simp add: s2_def quietly_emit)
  moreover have "quietly (st\<lparr>requestToQuitFromApp := True\<rparr>) s1" unfolding s1_def by (rule quietly_hidePages)
  ultimately have "resultsOf env s2 = resultsOf env st" using quietly_results(1) by fastforce
  then show ?thesis
    by (simp add: requestToQuit_def Let_def del: calls_emit flip: s1_def s2_def)
qed

lemma requestToQuit_flag: "requestToQuitFromApp (requestToQuit env st)"
proof -
  have "requestToQuitFromApp (fold (\<lambda>page. emit (SetDefaultPageVisible page False)) pages s) = requestToQuitFromApp s" for pages s
    by (induction pages arbitrary: s) auto
  then show ?thesis by (simp add: requestToQuit_def Let_def)
qed

lemma controllerUninstaller_results:
  assumes "controllerUninstaller env st = Some (r, st')" "resultsOf env st = []"
  shows "resultsOf env st' = []"
proof -
  obtain q s2 where loop: "isDesktopAppProcessRunningMessageLoop env st = Some (q, s2)"
    using assms(1) by (cases "isDesktopAppProcessRunningMessageLoop env st") (auto simp: controllerUninstaller_def)
  have "resultsOf env s2 = []"
    using messageLoop_done [OF loop] asking_results(1) [of st s2 env] assms(2) by (simp add: loopDone_def)
  moreover have "st' = s2 \<or> st' = requestToQuit env s2"
    using assms(1) loop by (auto simp: controllerUninstaller_def split: sum.splits if_splits)
  ultimately show ?thesis by (auto simp: resultsOf_requestToQuit)
qed

lemma controllerUninstaller_quit:
  assumes "controllerUninstaller env st = Some (r, st')" "resultsOf env st = []" "requestToQuitFromApp st'"
  shows "r = Inr () \<and> (\<exists>s. st' = requestToQuit env s \<and> resultsOf env s = [])"
proof -
  obtain q s2 where loop: "isDesktopAppProcessRunningMessageLoop env st = Some (q, s2)"
    using assms(1) by (cases "isDesktopAppProcessRunningMessageLoop env st") (auto simp: controllerUninstaller_def)
  note ends = messageLoop_done [OF loop]
  have "resultsOf env s2 = []" using ends asking_results(1) [of st s2 env] assms(2) by (simp add: loopDone_def)
  then show ?thesis
    using assms(1,3) loop ends by (auto simp: controllerUninstaller_def loopDone_def split: sum.splits if_splits)
qed

text \<open>An uninstaller is only run by the installer branch.\<close>

lemma Controller_uninstalls:
  assumes run: "Controller env ist0 = Some (r, st)" and results: "resultsOf env st \<noteq> []"
  obtains s stop h where "isInstaller env" "r = Inr ()" "removalDone env s stop st" "resultsOf env s = []"
    "\<not> requestToQuitFromApp st" "\<not> desktopAppProcessRunning st" "closedCheck env h" "prefix h (calls s)"
proof -
  note start = controllerStart_quiet [OF ist0_start(1), of env]
  have s1: "resultsOf env (controllerStart env ist0) = []" "\<not> cancelled (controllerStart env ist0)"
    using quietly_results [OF start(1)] ist0_start by simp_all
  have inst: "isInstaller env"
  proof (rule ccontr)
    assume no: "\<not> isInstaller env"
    then consider "controllerUninstaller env (controllerStart env ist0) = Some (r, st)"
      | "st = emit (Connect ''installer.installationFinished'' ''gui.clickButton(buttons.NextButton)'')
             (emit (SetMessageBoxAutomaticAnswer ''cancelInstallation'' AnswerNo) (controllerStart env ist0))"
      | "st = controllerStart env ist0"
      using run by (auto simp: Controller_def Let_def split: if_splits)
    then show False
      using results s1 controllerUninstaller_results
      by cases (auto simp: uninstallResults_append)
  qed
  then have "controllerInstaller env (controllerStart env ist0) = Some (r, st)"
    using run by (simp add: Controller_def Let_def)
  from this start(2) s1 show ?thesis
    by (cases rule: controllerInstaller_cases) (use results inst that in \<open>auto simp: resultsOf_requestToQuit\<close>)
qed

text \<open>When every wait ends, the constructor returns.\<close>

lemma removeOldInstallation_returns:
  assumes "\<forall>s. sleep env 100 s \<noteq> None"
  shows "removeOldInstallation env st \<noteq> None"
  using waitGone_returns [OF assms, of 300]
  by (auto simp: removeOldInstallation_def Let_def case_prod_beta split: option.splits) (metis option.distinct(1))

lemma prepareInstallation_returns:
  assumes "\<forall>s. sleep env 100 s \<noteq> None"
  shows "prepareInstallation env st \<noteq> None"
  using removeOldInstallation_returns [OF assms] by (simp add: prepareInstallation_def Let_def case_prod_beta del: not_None_eq)

lemma controllerInstaller_returns:
  assumes "\<forall>h. boxCount h > n \<longrightarrow> answerOf env h \<noteq> AnswerRetry" "\<forall>s. sleep env 100 s \<noteq> None"
  shows "controllerInstaller env st \<noteq> None"
proof -
  define s1 where "s1 = fold (\<lambda>page. emit (SetDefaultPageVisible page False))
      [''ComponentSelection'', ''TargetDirectory'', ''StartMenuDirectoryPage'', ''LicenseCheck''] st"
  obtain q s2 where "isDesktopAppProcessRunningMessageLoop env s1 = Some (q, s2)"
    using messageLoop_returns [OF assms(1), of s1] by (metis surj_pair)
  then show ?thesis
    using prepareInstallation_returns [OF assms(2), of s2]
    unfolding controllerInstaller_def Let_def s1_def [symmetric] by (simp split: sum.splits del: not_None_eq)
qed

lemma controllerUninstaller_returns:
  assumes "\<forall>h. boxCount h > n \<longrightarrow> answerOf env h \<noteq> AnswerRetry"
  shows "controllerUninstaller env st \<noteq> None"
proof -
  obtain q s2 where "isDesktopAppProcessRunningMessageLoop env st = Some (q, s2)"
    using messageLoop_returns [OF assms, of st] by (metis surj_pair)
  then show ?thesis unfolding controllerUninstaller_def by (simp split: sum.splits)
qed

lemma calls_hidePages:
  "calls (fold (\<lambda>page. emit (SetDefaultPageVisible page False)) pages st) =
     calls st @ map (\<lambda>page. SetDefaultPageVisible page False) pages"
  by (induction pages arbitrary: st) auto

text \<open>The calls with which the wizard is left.\<close>

definition quitCalls :: "bool \<Rightarrow> history" where
  "quitCalls windows = map (\<lambda>page. SetDefaultPageVisible page False) quitPages @
     [ClickButton NextButton, ClickButton FinishButton, ClickButton CancelButton] @ (if windows then [SetCancelled] else [])"

lemma requestToQuit_calls:
  "\<exists>windows. calls (requestToQuit env st) = calls st @ quitCalls windows \<and>
     (windows \<longleftrightarrow> valueOf env (calls st @ quitCalls False) ''os'' = ''win'')"
  by (simp add: requestToQuit_def Let_def calls_hidePages runningOnWindows_def instValue_def quitCalls_def)

text \<open>Only a shell that cannot be started makes the script throw.\<close>

definition shellFails :: "instEnv \<Rightarrow> bool" where
  "shellFails env \<longleftrightarrow> (\<exists>h args. execResult env h ''/bin/bash'' args = None)"

lemma appProcessIsRunning_throws: "appProcessIsRunning env st = (Inl e, st') \<Longrightarrow> shellFails env"
  by (auto simp: appProcessIsRunning_def checkProcessIsRunning_def instExecute_def Let_def shellFails_def
      split: option.splits if_splits)

lemma pollRunning_throws: "pollRunning env n st = (Inl e, st') \<Longrightarrow> shellFails env"
  by (induction n arbitrary: st) (auto simp: Let_def dest: appProcessIsRunning_throws split: prod.splits sum.splits if_splits)

lemma messageRound_throws: "messageRound env st = (Inl e, st') \<Longrightarrow> shellFails env"
  by (auto simp: messageRound_def Let_def dest: appProcessIsRunning_throws pollRunning_throws
      split: prod.splits sum.splits if_splits)

lemma messageLoop_throws:
  assumes "isDesktopAppProcessRunningMessageLoop env st = Some (Inl e, st')"
  shows "shellFails env"
proof -
  have "fst x = Inl e \<longrightarrow> shellFails env" if "isDesktopAppProcessRunningMessageLoop env st = Some x" for x
  proof (rule isDesktopAppProcessRunningMessageLoop.raw_induct
      [where P = "\<lambda>env st x. fst x = Inl e \<longrightarrow> shellFails env", OF _ that])
  qed (auto dest: messageRound_throws split: prod.splits sum.splits if_splits)
  then show ?thesis using assms by fastforce
qed

lemma Controller_throws:
  assumes "Controller env st = Some (Inl e, st')"
  shows "shellFails env"
proof -
  have "\<exists>s s'. isDesktopAppProcessRunningMessageLoop env s = Some (Inl e, s')"
    using assms unfolding Controller_def Let_def controllerInstaller_def controllerUninstaller_def
    by (auto split: option.splits prod.splits sum.splits if_splits)
  then show ?thesis by (auto dest: messageLoop_throws)
qed

section \<open>Properties\<close>

text \<open>C6. The uninstaller of an old installation is started only by the installer, and only after two things, in this order:
  a look at the running processes whose answer was that the application is not running (\<open>closedCheck\<close> reads the question
  and the answer from the log), and the user's confirmation of the removal. No uninstaller ran before the confirmation, and
  the user did not choose to quit.\<close>

theorem uninstall_guarded:
  assumes "Controller env ist0 = Some (r, st)" and "resultsOf env st \<noteq> []"
  shows "isInstaller env \<and> r = Inr () \<and> \<not> requestToQuitFromApp st \<and> \<not> desktopAppProcessRunning st \<and>
     (\<exists>h h' t x rest. calls st = h @ h' @ MessageBox ''os.information'' t x # rest \<and> closedCheck env h \<and>
        uninstallResults env [] (h @ h') = [] \<and> answerOf env (h @ h' @ [MessageBox ''os.information'' t x]) = AnswerOk)"
proof -
  obtain s stop h where "isInstaller env" "r = Inr ()" "removalDone env s stop st" "resultsOf env s = []"
      "\<not> requestToQuitFromApp st" "\<not> desktopAppProcessRunning st" "closedCheck env h" "prefix h (calls s)"
    using assms by (rule Controller_uninstalls)
  with removalDone_confirmed [of env s stop st h] assms(2) show ?thesis by blast
qed

theorem uninstall_guarded_witness:
  "resultsOf (exampleEnv 0) (snd (the (Controller (exampleEnv 0) ist0))) = [Some ([], 0)] \<and>
   (\<exists>h. prefix h (calls (snd (the (Controller (exampleEnv 0) ist0)))) \<and> closedCheck (exampleEnv 0) h)"
proof -
  have run: "Controller (exampleEnv 0) ist0 = Some (Inr (), snd (the (Controller (exampleEnv 0) ist0)))" by code_simp
  have res: "resultsOf (exampleEnv 0) (snd (the (Controller (exampleEnv 0) ist0))) = [Some ([], 0)]" by code_simp
  with uninstall_guarded [OF run] show ?thesis by (metis append_assoc list.distinct(1) prefixI)
qed

text \<open>C10. An installation goes on after the old one was uninstalled exactly when the last uninstaller that was run exited
  with code 0: with any other code, or when it could not be started, the wizard is cancelled, and cancelling is the last
  thing the script does.\<close>

theorem uninstall_failure_cancels:
  assumes "Controller env ist0 = Some (r, st)" and "resultsOf env st \<noteq> []"
  shows "(cancelled st \<longleftrightarrow> codeNumber (last (resultsOf env st)) \<noteq> Num 0) \<and>
     (cancelled st \<longrightarrow> last (calls st) = SetCancelled)"
proof -
  obtain s stop where "removalDone env s stop st" using assms by (rule Controller_uninstalls)
  with assms(2) show ?thesis by (auto simp: removalDone_def)
qed

theorem uninstall_failure_cancels_witness:
  "\<not> cancelled (snd (the (Controller (exampleEnv 0) ist0))) \<and> cancelled (snd (the (Controller (exampleEnv 1) ist0)))"
proof -
  have run: "Controller (exampleEnv 0) ist0 = Some (Inr (), snd (the (Controller (exampleEnv 0) ist0)))"
    "Controller (exampleEnv 1) ist0 = Some (Inr (), snd (the (Controller (exampleEnv 1) ist0)))" by code_simp+
  have res: "resultsOf (exampleEnv 0) (snd (the (Controller (exampleEnv 0) ist0))) = [Some ([], 0)]"
    "resultsOf (exampleEnv 1) (snd (the (Controller (exampleEnv 1) ist0))) = [Some ([], 1)]" by code_simp+
  show ?thesis
    using uninstall_failure_cancels [OF run(1)] uninstall_failure_cancels [OF run(2)] res by (simp add: codeNumber_def)
qed

text \<open>The message loop returns when the user presses Retry at most \<open>n\<close> times, and then it either threw, or the user
  chose to quit, or the application is no longer running; it did nothing but look at the processes and ask the user.\<close>

theorem message_loop_terminates:
  assumes "\<forall>h. boxCount h > n \<longrightarrow> answerOf env h \<noteq> AnswerRetry"
  shows "\<exists>r st'. isDesktopAppProcessRunningMessageLoop env st = Some (r, st') \<and>
     (\<exists>more. calls st' = calls st @ more \<and> list_all queryOrBox more) \<and>
     (r = Inl TypeError \<or> requestToQuitFromApp st' \<or> \<not> desktopAppProcessRunning st')"
proof -
  obtain r st' where loop: "isDesktopAppProcessRunningMessageLoop env st = Some (r, st')"
    using messageLoop_returns [OF assms, of st] by (metis surj_pair)
  have "asking st st'" "r = Inl TypeError \<or> requestToQuitFromApp st' \<or> \<not> desktopAppProcessRunning st'"
    using messageLoop_done [OF loop] by (auto simp: loopDone_def split: sum.splits) (metis jsError.exhaust)
  with loop asking_calls show ?thesis by blast
qed

theorem message_loop_terminates_witness:
  "\<exists>r st'. isDesktopAppProcessRunningMessageLoop (exampleEnv 0) ist0 = Some (r, st') \<and>
     (r = Inl TypeError \<or> requestToQuitFromApp st' \<or> \<not> desktopAppProcessRunning st')"
proof -
  have "\<forall>h. boxCount h > 0 \<longrightarrow> answerOf (exampleEnv 0) h \<noteq> AnswerRetry" by (simp add: exampleEnv_def)
  from message_loop_terminates [OF this, of ist0] show ?thesis by blast
qed

text \<open>C24. The constructor of the script returns in every mode when the clock moves on and the user presses Retry at most
  \<open>n\<close> times, and it throws only when the shell that lists the processes cannot be started.\<close>

theorem controller_returns:
  assumes "\<forall>h. boxCount h > n \<longrightarrow> answerOf env h \<noteq> AnswerRetry"
    and "\<forall>s. \<exists>k. clockOf env (k + 2) s > clockOf env 1 s + 100"
  shows "\<exists>r st'. Controller env st = Some (r, st') \<and>
     (r = Inr () \<or> r = Inl TypeError \<and> (\<exists>h args. execResult env h ''/bin/bash'' args = None))"
proof -
  have sleeps: "\<forall>s. sleep env 100 s \<noteq> None" using assms(2) by (metis option.distinct(1) sleep_returns)
  have "Controller env st \<noteq> None"
    using controllerInstaller_returns [OF assms(1) sleeps] controllerUninstaller_returns [OF assms(1)]
    by (simp add: Controller_def Let_def del: not_None_eq)
  then obtain r st' where "Controller env st = Some (r, st')" by auto
  moreover from this have "r = Inr () \<or> r = Inl TypeError \<and> shellFails env"
    by (cases r) (auto intro: jsError.exhaust dest: Controller_throws)
  ultimately show ?thesis unfolding shellFails_def by blast
qed

theorem controller_returns_witness: "\<exists>st'. Controller (exampleEnv 5) ist0 = Some (Inr (), st')"
proof -
  have "execResult (exampleEnv 5) h ''/bin/bash'' args \<noteq> None" for h args by (simp add: exampleEnv_def)
  moreover
  have "\<forall>h. boxCount h > 0 \<longrightarrow> answerOf (exampleEnv 5) h \<noteq> AnswerRetry" by (simp add: exampleEnv_def)
  moreover have "\<forall>s. \<exists>k. clockOf (exampleEnv 5) (k + 2) s > clockOf (exampleEnv 5) 1 s + 100"
    by (intro allI exI [of _ 0]) (simp add: clockOf_def exampleEnv_def)
  ultimately show ?thesis using controller_returns [of 0 "exampleEnv 5" ist0] by blast
qed

text \<open>When the user chooses to quit, the script hides every page of the wizard and presses its buttons to leave it,
  as the last thing it does, and no uninstaller was run; on Windows it also cancels the installation.\<close>

theorem abort_quits:
  assumes "Controller env ist0 = Some (r, st)" and "requestToQuitFromApp st"
  shows "r = Inr () \<and> (\<exists>h windows. calls st = h @ quitCalls windows \<and> uninstallResults env [] h = [] \<and>
     (windows \<longleftrightarrow> valueOf env (h @ quitCalls False) ''os'' = ''win''))"
proof -
  note start = controllerStart_quiet [OF ist0_start(1), of env]
  have s1: "resultsOf env (controllerStart env ist0) = []" "\<not> cancelled (controllerStart env ist0)"
      "\<not> requestToQuitFromApp (controllerStart env ist0)"
    using quietly_results [OF start(1)] ist0_start start(1) by (simp_all add: quietly_def ist0_def)
  have "r = Inr () \<and> (\<exists>s. st = requestToQuit env s \<and> resultsOf env s = [])"
  proof (cases "isInstaller env")
    case True
    then have "controllerInstaller env (controllerStart env ist0) = Some (r, st)"
      using assms(1) by (simp add: Controller_def Let_def)
    from this start(2) s1(1,2) show ?thesis by (cases rule: controllerInstaller_cases) (use assms(2) in auto)
  next
    case False
    then have "controllerUninstaller env (controllerStart env ist0) = Some (r, st)"
      using assms s1(3) by (auto simp: Controller_def Let_def split: if_splits)
    then show ?thesis using s1(1) assms(2) by (rule controllerUninstaller_quit)
  qed
  then show ?thesis using requestToQuit_calls by metis
qed

theorem abort_quits_witness:
  "\<exists>st h. Controller ((exampleEnv 0)\<lparr>execResult := (\<lambda>h p args. Some (''42'', 0)), answerOf := (\<lambda>h. AnswerAbort)\<rparr>) ist0 =
     Some (Inr (), st) \<and> calls st = h @ quitCalls False"
proof -
  let ?env = "(exampleEnv 0)\<lparr>execResult := (\<lambda>h p args. Some (''42'', 0)), answerOf := (\<lambda>h. AnswerAbort)\<rparr>"
  have run: "Controller ?env ist0 = Some (Inr (), snd (the (Controller ?env ist0)))" by code_simp
  have "requestToQuitFromApp (snd (the (Controller ?env ist0)))" by code_simp
  with abort_quits [OF run] run show ?thesis by (auto simp: exampleEnv_def)
qed

text \<open>On macOS and Linux the application counts as running exactly when the first line that the process search prints is
  a process identifier of at least 2; no output means that it is not running; and a shell that cannot be started makes
  the function throw.\<close>

theorem process_check:
  assumes "\<not> runningOnWindows env st"
    and "out = execResult env (calls st @ [processQuery env st]) ''/bin/bash'' [''-c'', ''pgrep -x '' @ sq @ appName env st @ sq]"
  shows "(out = None \<longrightarrow> fst (appProcessIsRunning env st) = Inl TypeError) \<and>
     (\<forall>p rest code. out = Some (showNat p @ lf @ rest, code) \<longrightarrow> fst (appProcessIsRunning env st) = Inr (2 \<le> p)) \<and>
     (\<forall>code. out = Some ([], code) \<longrightarrow> fst (appProcessIsRunning env st) = Inr False)"
proof -
  have run: "fst (appProcessIsRunning env st) = (case out of None \<Rightarrow> Inl TypeError
      | Some (o1, _) \<Rightarrow> Inr (jsAtLeast (jsNumber (hd (splitRuns CHR 0x0A (jsTrim o1)))) 2))"
    using assms by (simp add: appProcessIsRunning_def checkProcessIsRunning_def instExecute_def processQuery_def Let_def
        split: option.splits)
  have "hd (splitRuns CHR 0x0A (jsTrim (showNat p @ lf @ rest))) = showNat p" for p rest
    by (rule first_line [OF showNat_digits showNat_neq_Nil])
  then have "jsAtLeast (jsNumber (hd (splitRuns CHR 0x0A (jsTrim (showNat p @ lf @ rest))))) 2 = (2 \<le> p)" for p rest
    by (simp add: jsNumber_showNat)
  moreover have "\<not> jsAtLeast (jsNumber (hd (splitRuns CHR 0x0A (jsTrim [])))) 2"
    by (simp add: hd_splitRuns jsTrim_def jsNumber_def)
  ultimately show ?thesis by (simp add: run)
qed

theorem process_check_witness:
  "fst (appProcessIsRunning ((exampleEnv 0)\<lparr>execResult := (\<lambda>h p args. Some (showNat 431 @ lf @ showNat 502 @ lf, 0))\<rparr>) ist0) =
     Inr True"
  using process_check [of "(exampleEnv 0)\<lparr>execResult := (\<lambda>h p args. Some (showNat 431 @ lf @ showNat 502 @ lf, 0))\<rparr>" ist0
      "Some (showNat 431 @ lf @ showNat 502 @ lf, 0)"]
  by (auto simp: runningOnWindows_def instValue_def exampleEnv_def simp del: showNat.simps)

end
