(* ===== verification/Installer_Component.thy ===== *)
theory Installer_Component
  imports Installer_Api
begin

text \<open>
  \<^verbatim>\<open>deploy/installer/qif/componentscript.js\<close>: the script of the installed component, which adds the
  operations of the installation and starts the service and the application when the wizard finishes.
  One definition per function of the script. The result of \<^verbatim>\<open>executeDetached\<close>, which the script stores and
  never reads, is left out.
\<close>

section \<open>Names and platforms\<close>

definition appName :: "instEnv \<Rightarrow> ist \<Rightarrow> string" where
  "appName env st = instValue env ''Name'' st"

definition serviceName :: "instEnv \<Rightarrow> ist \<Rightarrow> string" where
  "serviceName env st = appName env st @ ''-service''"

definition runningOnWindows :: "instEnv \<Rightarrow> bool" where
  "runningOnWindows env \<longleftrightarrow> kernelType env = ''winnt''"

definition runningOnMacOS :: "instEnv \<Rightarrow> bool" where
  "runningOnMacOS env \<longleftrightarrow> kernelType env = ''darwin''"

definition runningOnLinux :: "instEnv \<Rightarrow> bool" where
  "runningOnLinux env \<longleftrightarrow> kernelType env = ''linux''"

definition appExecutableFileName :: "instEnv \<Rightarrow> ist \<Rightarrow> string" where
  "appExecutableFileName env st = (if runningOnWindows env then appName env st @ ''.exe'' else appName env st)"

definition vcRuntimeIsInstalled :: "instEnv \<Rightarrow> ist \<Rightarrow> bool \<times> ist" where
  "vcRuntimeIsInstalled env st =
     (case findPath env ''msvcp140.dll''
         [instValue env ''RootDir'' st @ backslash @ ''Windows'' @ backslash @ ''System32'' @ backslash] st of
        (found, st) \<Rightarrow> (length found \<noteq> 0, st))"

section \<open>The component\<close>

definition Component :: "ist \<Rightarrow> ist" where
  "Component st =
     (let st = emit (Connect ''component.loaded'' ''componentLoaded'') st;
          st = emit (Connect ''installer.installationFinished'' ''installationFinishedPageIsShown'') st
      in emit (Connect ''installer.finishButtonClicked'' ''installationFinished'') st)"

definition componentLoaded :: "ist \<Rightarrow> ist" where
  "componentLoaded st = st"

definition installationFinishedPageIsShown :: "instEnv \<Rightarrow> ist \<Rightarrow> ist" where
  "installationFinishedPageIsShown env st =
     (if isInstaller env \<and> succeeded env (calls st) then emit (ClickButton FinishButton) st else st)"

section \<open>The operations of the installation\<close>

definition toBackslashes :: "string \<Rightarrow> string" where
  "toBackslashes s = map (\<lambda>c. if c = CHR ''/'' then CHR 0x5C else c) s"

definition shortcutArgs :: "instEnv \<Rightarrow> string \<Rightarrow> ist \<Rightarrow> opArg list" where
  "shortcutArgs env dir st =
     [Txt ''CreateShortcut'', Txt (''@TargetDir@/'' @ appExecutableFileName env st),
      Txt (dir @ ''/'' @ appName env st @ ''.lnk''),
      Txt ''workingDirectory=@TargetDir@'',
      Txt (''iconPath=@TargetDir@'' @ backslash @ appExecutableFileName env st), Txt ''iconId=0'']"

definition addShortcuts :: "instEnv \<Rightarrow> ist \<Rightarrow> ist" where
  "addShortcuts env st =
     (let st = emit (AddOperation (shortcutArgs env (desktopLocation env) st)) st
      in emit (AddElevatedOperation (shortcutArgs env (instValue env ''AllUsersStartMenuProgramsPath'' st) st)) st)"

definition vcRedistFileName :: "instEnv \<Rightarrow> string" where
  "vcRedistFileName env =
     (if jsSearch (currentCpuArchitecture env) ''64'' < 0 then ''vc_redist.x86.exe'' else ''vc_redist.x64.exe'')"

definition addVcRedist :: "instEnv \<Rightarrow> ist \<Rightarrow> ist" where
  "addVcRedist env st =
     (case vcRuntimeIsInstalled env st of (installed, st) \<Rightarrow>
      if \<not> installed then
        (case findPath env (vcRedistFileName env) [toBackslashes (instValue env ''TargetDir'' st)] st of (found, st) \<Rightarrow>
           if length found \<noteq> 0 then
             emit (AddElevatedOperation [Txt ''Execute'', Txt (''@TargetDir@'' @ backslash @ vcRedistFileName env),
               Txt ''/install'', Txt ''/quiet'', Txt ''/norestart'', Txt ''/log'', Txt ''vc_redist.log'']) st
           else emit (ConsoleLog (vcRedistFileName env @ '' is not bundled, relying on the application-local MSVC runtime'')) st)
      else emit (ConsoleLog ''Microsoft Visual C++ Redistributable already installed'') st)"

definition createOperations :: "instEnv \<Rightarrow> ist \<Rightarrow> ist" where
  "createOperations env st =
     (let st = emit DefaultOperations st in
      if runningOnWindows env then
        let st = addShortcuts env st;
            st = addVcRedist env st;
            pu_path = toBackslashes (instValue env ''TargetDir'' st) @ backslash;
            st = emit (AddElevatedOperation [Txt ''Execute'',
                   Arr [''sc'', ''create'', serviceName env st, ''binpath='', pu_path @ serviceName env st @ ''.exe'',
                        ''start='', ''auto'', ''depend='', ''BFE/nsi''],
                   Txt ''UNDOEXECUTE'', Txt ''cmd'', Txt ''/c'', Txt (pu_path @ ''post_uninstall.cmd'')]) st
        in emit (AddElevatedOperation [Txt ''Execute'', Txt ''cmd'', Txt ''/c'', Txt (pu_path @ ''post_install.cmd'')]) st
      else if runningOnMacOS env then
        emit (AddElevatedOperation [Txt ''Execute'', Txt ''@TargetDir@/post_install.sh'',
               Txt ''UNDOEXECUTE'', Txt ''@TargetDir@/post_uninstall.sh'']) st
      else if runningOnLinux env then
        emit (AddElevatedOperation [Txt ''Execute'', Txt ''bash'', Txt ''@TargetDir@/post_install.sh'',
               Txt ''UNDOEXECUTE'', Txt ''bash'', Txt ''@TargetDir@/post_uninstall.sh'']) st
      else st)"

section \<open>The end of the installation\<close>

definition startService :: "instEnv \<Rightarrow> ist \<Rightarrow> ist" where
  "startService env st =
     (case instExecute env ''net'' [''start'', serviceName env st] st of (status1, st) \<Rightarrow>
      let st = emit (ConsoleLog (qtArg (qtArg ''%1 started with status: %2 '' (serviceName env st)) (resultText status1))) st in
      case instExecute env ''sc'' [''failure'', serviceName env st, ''reset='', ''100'', ''actions='',
             ''restart/2000/restart/2000/restart/2000''] st of (status2, st) \<Rightarrow>
      emit (ConsoleLog (qtArg (qtArg ''Changed settings for %1 with status: %2 '' (serviceName env st)) (resultText status2))) st)"

definition launchCommand :: "instEnv \<Rightarrow> ist \<Rightarrow> string" where
  "launchCommand env st =
     (if runningOnWindows env then ''@TargetDir@/'' @ appExecutableFileName env st
      else if runningOnMacOS env then ''/Applications/'' @ appName env st @ ''.app/Contents/MacOS/'' @ appName env st
      else if runningOnLinux env then ''@TargetDir@/client/'' @ appName env st
      else [])"

definition installationFinished :: "instEnv \<Rightarrow> ist \<Rightarrow> ist" where
  "installationFinished env st =
     (if succeeded env (calls st) \<and> (isInstaller env \<or> isUpdater env) then
        let st = emit GainAdminRights st in
        if \<not> adminRights env (calls st) then emit (ConsoleLog ''Fatal error! Cannot get admin rights!'') st
        else
          let command = launchCommand env st;
              st = (if runningOnWindows env then startService env st else st);
              st = emit DropAdminRights st
          in emit (ExecuteDetached command [] (instValue env ''TargetDir'' st)) st
      else st)"

section \<open>Rights\<close>

text \<open>Whether the installer has administrator rights after \<open>t\<close>, which follows \<open>h\<close>, when \<open>e\<close> tells whether it had
  them before.\<close>

fun elevatedFrom :: "instEnv \<Rightarrow> history \<Rightarrow> bool \<Rightarrow> history \<Rightarrow> bool" where
  "elevatedFrom env h e [] = e"
| "elevatedFrom env h e (c # t) = elevatedFrom env (h @ [c])
     (case c of GainAdminRights \<Rightarrow> e \<or> adminRights env (h @ [c]) | DropAdminRights \<Rightarrow> False | _ \<Rightarrow> e) t"

definition elevated :: "instEnv \<Rightarrow> history \<Rightarrow> bool" where
  "elevated env h = elevatedFrom env [] False h"

text \<open>Programs started in a history: the application is started detached, without rights, everything else that the
  component starts with rights.\<close>

definition launches :: "call \<Rightarrow> bool" where
  "launches c = (case c of ExecuteDetached _ _ _ \<Rightarrow> True | _ \<Rightarrow> False)"

definition runs :: "call \<Rightarrow> bool" where
  "runs c = (case c of Execute _ _ \<Rightarrow> True | _ \<Rightarrow> False)"

lemma elevatedFrom_append: "elevatedFrom env h e (s @ t) = elevatedFrom env (h @ s) (elevatedFrom env h e s) t"
  by (induction s arbitrary: h e) auto

lemma elevated_append: "elevated env (h @ t) = elevatedFrom env h (elevated env h) t"
  by (simp add: elevated_def elevatedFrom_append)

lemma findPath_state [simp]: "snd (findPath env file dirs st) = emit (FindPath file dirs) st"
  by (simp add: findPath_def Let_def)

lemma findPath_found [simp]: "fst (findPath env file dirs st) = foundPath env (calls st @ [FindPath file dirs]) file dirs"
  by (simp add: findPath_def Let_def)

text \<open>The calls of the end of the installation, and those of the two commands for the service.\<close>

lemma startService_calls:
  "\<exists>a b l k. calls (startService env st) = calls st @ [Execute ''net'' a, ConsoleLog l, Execute ''sc'' b, ConsoleLog k]"
  by (simp add: startService_def instExecute_def Let_def)

lemma installationFinished_calls:
  assumes "succeeded env (calls st)" "isInstaller env \<or> isUpdater env" "adminRights env (calls st @ [GainAdminRights])"
  shows "\<exists>service command dir. calls (installationFinished env st) =
       calls st @ GainAdminRights # service @ [DropAdminRights, ExecuteDetached command [] dir] \<and>
     (service = [] \<or> (\<exists>a b l k. service = [Execute ''net'' a, ConsoleLog l, Execute ''sc'' b, ConsoleLog k]))"
proof (cases "runningOnWindows env")
  case True
  obtain a b l k where "calls (startService env (emit GainAdminRights st)) =
      calls st @ GainAdminRights # [Execute ''net'' a, ConsoleLog l, Execute ''sc'' b, ConsoleLog k]"
    using startService_calls [of env "emit GainAdminRights st"] by auto
  with True assms show ?thesis
    by (intro exI [of _ "[Execute ''net'' a, ConsoleLog l, Execute ''sc'' b, ConsoleLog k]"])
      (simp add: installationFinished_def Let_def)
qed (use assms in \<open>simp add: installationFinished_def Let_def\<close>)

section \<open>Registered operations\<close>

definition opArgs :: "call \<Rightarrow> opArg list" where
  "opArgs c = (case c of AddOperation as \<Rightarrow> as | AddElevatedOperation as \<Rightarrow> as | _ \<Rightarrow> [])"

definition hasUndo :: "call \<Rightarrow> bool" where
  "hasUndo c \<longleftrightarrow> Txt ''UNDOEXECUTE'' \<in> set (opArgs c)"

definition installsRuntime :: "call \<Rightarrow> bool" where
  "installsRuntime c \<longleftrightarrow> Txt ''/quiet'' \<in> set (opArgs c)"

text \<open>The arguments of an \<^verbatim>\<open>Execute\<close> operation up to \<^verbatim>\<open>UNDOEXECUTE\<close> are the command of the installation, those
  after it the command of the removal. A command runs a script when the script's path is its last argument.\<close>

definition installCommand :: "call \<Rightarrow> opArg list" where
  "installCommand c = (case c of
       AddElevatedOperation (op # as) \<Rightarrow> if op = Txt ''Execute'' then takeWhile (\<lambda>a. a \<noteq> Txt ''UNDOEXECUTE'') as else []
     | _ \<Rightarrow> [])"

definition undoCommand :: "call \<Rightarrow> opArg list" where
  "undoCommand c = (case c of
       AddElevatedOperation (op # as) \<Rightarrow> if op = Txt ''Execute'' then drop 1 (dropWhile (\<lambda>a. a \<noteq> Txt ''UNDOEXECUTE'') as) else []
     | _ \<Rightarrow> [])"

definition runsScript :: "string \<Rightarrow> opArg list \<Rightarrow> bool" where
  "runsScript path cmd \<longleftrightarrow> cmd \<noteq> [] \<and> (case last cmd of Txt x \<Rightarrow> suffix path x | Arr xs \<Rightarrow> False)"

definition scriptPath :: "instEnv \<Rightarrow> string \<Rightarrow> string" where
  "scriptPath env name = (if runningOnWindows env then backslash @ name @ ''.cmd'' else ''/'' @ name @ ''.sh'')"

lemma member_neq: "c \<in> set s \<Longrightarrow> c \<notin> set t \<Longrightarrow> s \<noteq> t"
  by auto

lemma shortcut_plain:
  "opArgs (AddOperation as) = as" "opArgs (AddElevatedOperation as) = as"
  "Txt ''UNDOEXECUTE'' \<notin> set (shortcutArgs env dir st)" "Txt ''/quiet'' \<notin> set (shortcutArgs env dir st)"
proof -
  have "dir @ CHR ''/'' # n @ ''.lnk'' \<noteq> ''UNDOEXECUTE''" for n by (rule member_neq [of "CHR ''/''"]) auto
  moreover have "dir @ CHR ''/'' # n @ ''.lnk'' \<noteq> ''/quiet''" for n by (rule member_neq [of "CHR ''.''"]) auto
  ultimately show "Txt ''UNDOEXECUTE'' \<notin> set (shortcutArgs env dir st)" "Txt ''/quiet'' \<notin> set (shortcutArgs env dir st)"
    by (simp_all add: shortcutArgs_def)
qed (simp_all add: opArgs_def)

text \<open>When the runtime of the compiler is missing and its installer is part of the package.\<close>

definition needsRuntime :: "instEnv \<Rightarrow> ist \<Rightarrow> bool" where
  "needsRuntime env st \<longleftrightarrow> \<not> fst (vcRuntimeIsInstalled env st) \<and>
     fst (findPath env (vcRedistFileName env)
       [toBackslashes (instValue env ''TargetDir'' (snd (vcRuntimeIsInstalled env st)))] (snd (vcRuntimeIsInstalled env st))) \<noteq> []"

lemma addVcRedist_calls:
  "\<exists>more. calls (addVcRedist env st) = calls st @ more \<and> (list_ex installsRuntime more \<longleftrightarrow> needsRuntime env st) \<and>
     filter hasUndo more = [] \<and> \<not> list_ex (\<lambda>c. runsScript (backslash @ ''post_uninstall.cmd'') (installCommand c)) more"
  by (auto simp: addVcRedist_def vcRuntimeIsInstalled_def case_prod_beta needsRuntime_def installsRuntime_def hasUndo_def opArgs_def
      runsScript_def installCommand_def backslash_def suffix_to_prefix)

lemma finished_rights:
  assumes "\<not> elevated env (calls st)"
  shows "\<exists>more. calls (installationFinished env st) = calls st @ more \<and>
     (list_ex launches more \<longleftrightarrow>
        succeeded env (calls st) \<and> (isInstaller env \<or> isUpdater env) \<and> adminRights env (calls st @ [GainAdminRights])) \<and>
     (\<forall>h c t. more = h @ c # t \<longrightarrow> (launches c \<longrightarrow> \<not> elevated env (calls st @ h)) \<and> (runs c \<longrightarrow> elevated env (calls st @ h))) \<and>
     \<not> elevated env (calls (installationFinished env st))"
proof (cases "succeeded env (calls st) \<and> (isInstaller env \<or> isUpdater env) \<and> adminRights env (calls st @ [GainAdminRights])")
  case True
  then obtain service command dir where
    calls: "calls (installationFinished env st) =
       calls st @ GainAdminRights # service @ [DropAdminRights, ExecuteDetached command [] dir]"
    and service: "service = [] \<or> (\<exists>a b l k. service = [Execute ''net'' a, ConsoleLog l, Execute ''sc'' b, ConsoleLog k])"
    using installationFinished_calls [of env st] by blast
  have rights: "adminRights env (calls st @ [GainAdminRights])" using True by simp
  show ?thesis
    unfolding calls using assms True rights service
    by (intro exI [of _ "GainAdminRights # service @ [DropAdminRights, ExecuteDetached command [] dir]"])
      (auto simp: launches_def runs_def elevated_append Cons_eq_append_conv)
next
  case False
  then have "calls (installationFinished env st) = calls st \<or>
      \<not> adminRights env (calls st @ [GainAdminRights]) \<and>
      (\<exists>l. calls (installationFinished env st) = calls st @ [GainAdminRights, ConsoleLog l])"
    by (auto simp: installationFinished_def Let_def)
  then show ?thesis
  proof (elim disjE conjE exE)
    fix l
    assume "\<not> adminRights env (calls st @ [GainAdminRights])"
      "calls (installationFinished env st) = calls st @ [GainAdminRights, ConsoleLog l]"
    with False assms show ?thesis
      by (intro exI [of _ "[GainAdminRights, ConsoleLog l]"])
        (auto simp: launches_def runs_def elevated_append Cons_eq_append_conv)
  qed (use False assms in auto)
qed

section \<open>Properties\<close>

text \<open>When the wizard finishes, the application is started exactly when the installation or update succeeded and the
  administrator rights were granted, and it is started after the rights were dropped; the commands that set up the
  service run with the rights; and no rights are left at the end.\<close>

theorem launch_without_rights:
  assumes "\<not> elevated env (calls st)"
  shows "\<exists>more. calls (installationFinished env st) = calls st @ more \<and>
     (list_ex launches more \<longleftrightarrow>
        succeeded env (calls st) \<and> (isInstaller env \<or> isUpdater env) \<and> adminRights env (calls st @ [GainAdminRights])) \<and>
     (\<forall>h c t. more = h @ c # t \<longrightarrow> (launches c \<longrightarrow> \<not> elevated env (calls st @ h)) \<and> (runs c \<longrightarrow> elevated env (calls st @ h))) \<and>
     \<not> elevated env (calls (installationFinished env st))"
  using assms by (rule finished_rights)

theorem launch_without_rights_witness:
  "\<exists>more. calls (installationFinished ((exampleEnv 0)\<lparr>kernelType := ''winnt''\<rparr>) ist0) = more \<and> list_ex launches more \<and>
     \<not> elevated ((exampleEnv 0)\<lparr>kernelType := ''winnt''\<rparr>) more"
  using launch_without_rights [of "(exampleEnv 0)\<lparr>kernelType := ''winnt''\<rparr>" ist0]
  by (auto simp: elevated_def ist0_def exampleEnv_def)

text \<open>C37. On every supported platform the framework's own operations come first, the last operation runs the
  post-installation script when it is installed, and exactly one operation registers an undo, which runs the
  post-uninstallation script when it is removed; no operation runs the post-uninstallation script at installation. The
  runtime of the compiler is installed exactly on Windows when it is missing and bundled.\<close>

theorem operations_registered:
  assumes "runningOnWindows env \<or> runningOnMacOS env \<or> runningOnLinux env"
  shows "\<exists>ops undo. calls (createOperations env st) = calls st @ DefaultOperations # ops \<and>
     runsScript (scriptPath env ''post_install'') (installCommand (last ops)) \<and>
     filter hasUndo ops = [undo] \<and> runsScript (scriptPath env ''post_uninstall'') (undoCommand undo) \<and>
     \<not> list_ex (\<lambda>c. runsScript (scriptPath env ''post_uninstall'') (installCommand c)) ops \<and>
     (list_ex installsRuntime ops \<longleftrightarrow>
        runningOnWindows env \<and> needsRuntime env (addShortcuts env (emit DefaultOperations st)))"
proof (cases "runningOnWindows env")
  case True
  define s2 where "s2 = addShortcuts env (emit DefaultOperations st)"
  obtain a b where s2: "calls s2 = calls st @ DefaultOperations # [AddOperation a, AddElevatedOperation b]"
      "\<not> hasUndo (AddOperation a)" "\<not> hasUndo (AddElevatedOperation b)"
      "\<not> installsRuntime (AddOperation a)" "\<not> installsRuntime (AddElevatedOperation b)"
    and shortcut: "installCommand (AddElevatedOperation b) = []"
    by (auto simp: s2_def addShortcuts_def Let_def hasUndo_def installsRuntime_def shortcut_plain installCommand_def shortcutArgs_def)
  obtain more where more: "calls (addVcRedist env s2) = calls s2 @ more" "list_ex installsRuntime more \<longleftrightarrow> needsRuntime env s2"
      "filter hasUndo more = []" "\<not> list_ex (\<lambda>c. runsScript (backslash @ ''post_uninstall.cmd'') (installCommand c)) more"
    using addVcRedist_calls by blast
  define p where "p = toBackslashes (instValue env ''TargetDir'' (addVcRedist env s2)) @ backslash"
  obtain xs where calls: "calls (createOperations env st) = calls (addVcRedist env s2) @
      [AddElevatedOperation [Txt ''Execute'', Arr xs, Txt ''UNDOEXECUTE'', Txt ''cmd'', Txt ''/c'', Txt (p @ ''post_uninstall.cmd'')],
       AddElevatedOperation [Txt ''Execute'', Txt ''cmd'', Txt ''/c'', Txt (p @ ''post_install.cmd'')]]"
    using True by (simp add: createOperations_def Let_def s2_def p_def)
  let ?undo = "AddElevatedOperation [Txt ''Execute'', Arr xs, Txt ''UNDOEXECUTE'', Txt ''cmd'', Txt ''/c'', Txt (p @ ''post_uninstall.cmd'')]"
    and ?post = "AddElevatedOperation [Txt ''Execute'', Txt ''cmd'', Txt ''/c'', Txt (p @ ''post_install.cmd'')]"
  have tail: "hasUndo ?undo" "\<not> hasUndo ?post" "\<not> installsRuntime ?undo" "\<not> installsRuntime ?post"
    by (simp_all add: hasUndo_def installsRuntime_def opArgs_def p_def backslash_def)
  have scripts: "runsScript (backslash @ ''post_install.cmd'') (installCommand ?post)"
      "runsScript (backslash @ ''post_uninstall.cmd'') (undoCommand ?undo)"
    by (simp_all add: runsScript_def installCommand_def undoCommand_def p_def suffix_def)
  have clean: "\<not> runsScript (backslash @ ''post_uninstall.cmd'') (installCommand c)"
    if "c \<in> {AddOperation a, AddElevatedOperation b, ?undo, ?post}" for c
    using that shortcut by (auto simp: runsScript_def installCommand_def suffix_to_prefix backslash_def)
  show ?thesis unfolding s2_def [symmetric] calls more(1) s2(1)
    using True tail scripts s2 more clean
    by (intro exI [of _ "[AddOperation a, AddElevatedOperation b] @ more @ [?undo, ?post]"] exI [of _ ?undo])
      (simp add: scriptPath_def)
next
  case False
  then have "runningOnMacOS env \<or> runningOnLinux env" using assms by simp
  with False show ?thesis
    by (auto simp: createOperations_def Let_def runsScript_def installCommand_def undoCommand_def scriptPath_def hasUndo_def
        installsRuntime_def opArgs_def suffix_to_prefix)
qed

theorem operations_registered_witness:
  "\<exists>ops undo. calls (createOperations (exampleEnv 0) ist0) = DefaultOperations # ops \<and> filter hasUndo ops = [undo] \<and>
     runsScript ''/post_uninstall.sh'' (undoCommand undo) \<and> \<not> list_ex installsRuntime ops"
proof -
  have "runningOnMacOS (exampleEnv 0)" "\<not> runningOnWindows (exampleEnv 0)"
    by (simp_all add: runningOnMacOS_def runningOnWindows_def exampleEnv_def)
  with operations_registered [of "exampleEnv 0" ist0] show ?thesis by (auto simp: ist0_def scriptPath_def)
qed

end
