(* ===== verification/Installer_Run.thy ===== *)
theory Installer_Run
  imports Installer_Controller Installer_Component
begin

text \<open>
  A run of the wizard: the constructor of the control script, then the callbacks of both scripts in any order
  in which the framework may enter them. The invariants here hold in every state of such a run.
\<close>

section \<open>Steps\<close>

inductive wizardStep :: "instEnv \<Rightarrow> ist \<Rightarrow> ist \<Rightarrow> bool" for env where
  "wizardStep env st (PerformInstallationPageCallback st)"
| "wizardStep env st (LicenseAgreementPageCallback st)"
| "wizardStep env st (FinishedPageCallback env st)"
| "wizardStep env st (RestartPageCallback st)"
| "wizardStep env st (StartMenuDirectoryPageCallback st)"
| "wizardStep env st (ComponentSelectionPageCallback st)"
| "wizardStep env st (ReadyForInstallationPageCallback env st)"
| "wizardStep env st (TargetDirectoryPageCallback env st)"
| "wizardStep env st (snd (IntroductionPageCallback env st))"
| "wizardStep env st (onBrowseButtonClicked env st)"
| "wizardStep env st (onNextButtonClicked env st)"
| "wizardStep env st (Component st)"
| "wizardStep env st (componentLoaded st)"
| "wizardStep env st (createOperations env st)"
| "wizardStep env st (installationFinishedPageIsShown env st)"
| "wizardStep env st (installationFinished env st)"

inductive wizardReachable :: "instEnv \<Rightarrow> ist \<Rightarrow> bool" for env where
  start: "Controller env ist0 = Some (Inr (), st) \<Longrightarrow> wizardReachable env st"
| step: "wizardReachable env st \<Longrightarrow> wizardStep env st st' \<Longrightarrow> wizardReachable env st'"

section \<open>The contract of a callback\<close>

text \<open>What a callback logs: nothing that changes the rights, starts a program, asks the user or cancels.\<close>

definition plainCall :: "call \<Rightarrow> bool" where
  "plainCall c \<longleftrightarrow> rightsFree c \<and> (case c of Execute _ _ \<Rightarrow> False | MessageBox _ _ _ \<Rightarrow> False | SetCancelled \<Rightarrow> False | _ \<Rightarrow> True)"

text \<open>An updater has pressed Cancel only after the restart page.\<close>

definition cancelOk :: "ist \<Rightarrow> bool" where
  "cancelOk st \<longleftrightarrow> updaterCompleted st \<in> {0, 1} \<and> (ClickButton CancelButton \<in> set (calls st) \<longrightarrow> updaterCompleted st = 1)"

text \<open>The application was started only without rights, and after a successful installation.\<close>

definition launchesOk :: "instEnv \<Rightarrow> history \<Rightarrow> bool" where
  "launchesOk env h0 \<longleftrightarrow> \<not> elevated env h0 \<and>
     (\<forall>h c t. h0 = h @ c # t \<and> launches c \<longrightarrow> \<not> elevated env h \<and> (\<exists>h1. prefix h1 h \<and> succeeded env h1))"

lemma elevatedFrom_rightsFree: "list_all rightsFree t \<Longrightarrow> elevatedFrom env h e t = e"
  by (induction t arbitrary: h) (auto simp: rightsFree_def split: call.splits)

lemma launches_rightsFree: "launches c \<Longrightarrow> \<not> rightsFree c"
  by (auto simp: launches_def rightsFree_def split: call.splits)

lemma launchesOk_rightsFree:
  assumes "launchesOk env h" "list_all rightsFree ext"
  shows "launchesOk env (h @ ext)"
  unfolding launchesOk_def
proof (intro conjI allI impI)
  show "\<not> elevated env (h @ ext)" using assms by (simp add: launchesOk_def elevated_append elevatedFrom_rightsFree)
  fix h' c t
  assume eq: "h @ ext = h' @ c # t \<and> launches c"
  then have "c \<notin> set ext" using assms(2) launches_rightsFree by (auto simp: list_all_iff)
  with eq obtain t' where "h = h' @ c # t'" by (auto simp: append_eq_append_conv2 append_eq_Cons_conv)
  with eq assms(1) show "\<not> elevated env h'" "\<exists>h1. prefix h1 h' \<and> succeeded env h1" by (auto simp: launchesOk_def)
qed

lemma plainCall_rightsFree: "list_all plainCall t \<Longrightarrow> list_all rightsFree t"
  by (auto simp: list_all_iff plainCall_def)

lemma boxCount_plain: "list_all plainCall t \<Longrightarrow> boxCount (h @ t) = boxCount h"
proof -
  assume "list_all plainCall t"
  then have "boxCount t = 0" by (induction t) (auto simp: boxCount_def plainCall_def split: call.splits)
  then show ?thesis by (simp add: boxCount_def)
qed

lemma cancelled_plain: "list_all plainCall t \<Longrightarrow> SetCancelled \<notin> set t"
  by (auto simp: list_all_iff plainCall_def dest: bspec [of _ _ SetCancelled])

locale page_callback =
  fixes f :: "instEnv \<Rightarrow> ist \<Rightarrow> ist"
  assumes logs: "\<exists>more. calls (f env st) = calls st @ more \<and> list_all plainCall more"
    and flags: "requestToQuitFromApp (f env st) = requestToQuitFromApp st"
      "desktopAppProcessRunning (f env st) = desktopAppProcessRunning st"
    and cancels: "isUpdater env \<Longrightarrow> cancelOk st \<Longrightarrow> cancelOk (f env st)"
begin

lemma keeps_launches: "launchesOk env (calls st) \<Longrightarrow> launchesOk env (calls (f env st))"
proof -
  obtain ext where "calls (f env st) = calls st @ ext" "list_all plainCall ext" using logs by blast
  then show "launchesOk env (calls st) \<Longrightarrow> ?thesis"
    by (simp add: launchesOk_rightsFree plainCall_rightsFree)
qed

lemma keeps_boxes: "boxCount (calls (f env st)) = boxCount (calls st)"
  using logs [of env st] by (auto simp: boxCount_plain)

lemma keeps_cancelled: "cancelled (f env st) = cancelled st"
  using logs [of env st] by (auto dest: cancelled_plain)

end

section \<open>The callbacks of the scripts\<close>

lemma plainCall_simps [simp]:
  "plainCall (SetValue a b)" "plainCall (ClickButton k)" "plainCall AutoAcceptMessageBoxes" "plainCall (FindPath a ds)"
  "plainCall (Disconnect a b)" "plainCall (Connect a b)" "plainCall (HideChild a)" "plainCall (SetText a)"
  "plainCall DefaultOperations" "plainCall (AddOperation as)" "plainCall (AddElevatedOperation as)" "plainCall (ConsoleLog a)"
  by (simp_all add: plainCall_def rightsFree_def)

lemmas callback_defs =
  PerformInstallationPageCallback_def LicenseAgreementPageCallback_def FinishedPageCallback_def RestartPageCallback_def
  StartMenuDirectoryPageCallback_def ComponentSelectionPageCallback_def ReadyForInstallationPageCallback_def
  TargetDirectoryPageCallback_def onBrowseButtonClicked_def onNextButtonClicked_def Component_def componentLoaded_def
  installationFinishedPageIsShown_def IntroductionPageCallback_def Let_def cancelOk_def

interpretation perform: page_callback "\<lambda>env. PerformInstallationPageCallback"
  by unfold_locales (auto simp: callback_defs)

interpretation license: page_callback "\<lambda>env. LicenseAgreementPageCallback"
  by unfold_locales (auto simp: callback_defs)

interpretation finishedPage: page_callback FinishedPageCallback
  by unfold_locales (auto simp: callback_defs)

interpretation restart: page_callback "\<lambda>env. RestartPageCallback"
  by unfold_locales (auto simp: callback_defs)

interpretation startMenu: page_callback "\<lambda>env. StartMenuDirectoryPageCallback"
  by unfold_locales (auto simp: callback_defs)

interpretation selection: page_callback "\<lambda>env. ComponentSelectionPageCallback"
  by unfold_locales (auto simp: callback_defs)

interpretation ready: page_callback ReadyForInstallationPageCallback
  by unfold_locales (auto simp: callback_defs)

interpretation targetDirectory: page_callback TargetDirectoryPageCallback
  by unfold_locales (auto simp: callback_defs split: option.splits)

lemma hideChildren_calls:
  "\<exists>ext. snd (hideChildren has cs st) = st\<lparr>calls := calls st @ ext\<rparr> \<and> list_all plainCall ext \<and>
     ClickButton CancelButton \<notin> set ext"
proof (induction cs arbitrary: st)
  case Nil
  show ?case by (intro exI [of _ "[]"]) simp
next
  case (Cons c cs)
  obtain ext where "snd (hideChildren has cs (emit (HideChild c) st)) =
      (emit (HideChild c) st)\<lparr>calls := calls (emit (HideChild c) st) @ ext\<rparr>" "list_all plainCall ext"
      "ClickButton CancelButton \<notin> set ext" using Cons.IH by blast
  then show ?case
    by (cases "has c") (auto simp: emit_def intro: exI [of _ "HideChild c # ext"] exI [of _ "[]"])
qed

interpretation introduction: page_callback "\<lambda>env st. snd (IntroductionPageCallback env st)"
proof
  fix env :: instEnv and st :: ist
  define first where "first = (case introPage env (calls st) of None \<Rightarrow> (Inr (), st)
      | Some has \<Rightarrow> if isUninstaller env then hideChildren has [''PackageManagerRadioButton'', ''UpdaterRadioButton''] st else (Inr (), st))"
  have "\<exists>ext. snd first = st\<lparr>calls := calls st @ ext\<rparr> \<and> list_all plainCall ext \<and> ClickButton CancelButton \<notin> set ext"
  proof (cases "isUninstaller env \<and> introPage env (calls st) \<noteq> None")
    case True
    then obtain has where "first = hideChildren has [''PackageManagerRadioButton'', ''UpdaterRadioButton''] st"
      by (auto simp: first_def)
    then show ?thesis using hideChildren_calls by metis
  next
    case False
    then have "snd first = st" by (auto simp: first_def split: option.splits)
    then show ?thesis by (intro exI [of _ "[]"]) simp
  qed
  then obtain ext where ext: "snd first = st\<lparr>calls := calls st @ ext\<rparr>" "list_all plainCall ext" "ClickButton CancelButton \<notin> set ext"
    by blast
  have "IntroductionPageCallback env st = (if isUpdater env \<and> updaterCompleted st = 1
      then (Inr (), emit (ClickButton CancelButton) (emit (ClickButton FinishButton) st))
      else case first of (Inl e, st) \<Rightarrow> (Inl e, st)
        | (Inr _, st) \<Rightarrow> (Inr (), if isUpdater env then emit (ClickButton NextButton) st else st))"
    by (auto simp: IntroductionPageCallback_def first_def Let_def split: option.splits)
  then have "snd (IntroductionPageCallback env st) \<in>
      {snd first, emit (ClickButton NextButton) (snd first)} \<or> updaterCompleted st = 1 \<and>
      snd (IntroductionPageCallback env st) = emit (ClickButton CancelButton) (emit (ClickButton FinishButton) st)"
    by (auto split: prod.splits sum.splits)
  with ext show "\<exists>more. calls (snd (IntroductionPageCallback env st)) = calls st @ more \<and> list_all plainCall more"
    "requestToQuitFromApp (snd (IntroductionPageCallback env st)) = requestToQuitFromApp st"
    "desktopAppProcessRunning (snd (IntroductionPageCallback env st)) = desktopAppProcessRunning st"
    "isUpdater env \<Longrightarrow> cancelOk st \<Longrightarrow> cancelOk (snd (IntroductionPageCallback env st))"
    by (auto simp: cancelOk_def)
qed

interpretation browse: page_callback onBrowseButtonClicked
  by unfold_locales (auto simp: callback_defs split: option.splits)

interpretation nextButton: page_callback onNextButtonClicked
  by unfold_locales (auto simp: callback_defs split: option.splits)

interpretation component: page_callback "\<lambda>env. Component"
  by unfold_locales (auto simp: callback_defs)

interpretation loaded: page_callback "\<lambda>env. componentLoaded"
  by unfold_locales (auto simp: callback_defs)

interpretation finishShown: page_callback installationFinishedPageIsShown
  by unfold_locales (auto simp: callback_defs)

lemma addVcRedist_plain:
  "\<exists>ext. addVcRedist env st = st\<lparr>calls := calls st @ ext\<rparr> \<and> list_all plainCall ext \<and> ClickButton CancelButton \<notin> set ext"
  by (auto simp: addVcRedist_def vcRuntimeIsInstalled_def findPath_def Let_def emit_def)

lemma createOperations_plain:
  "\<exists>ext. createOperations env st = st\<lparr>calls := calls st @ ext\<rparr> \<and> list_all plainCall ext \<and> ClickButton CancelButton \<notin> set ext"
proof (cases "Installer_Component.runningOnWindows env")
  case True
  define s1 where "s1 = addShortcuts env (emit DefaultOperations st)"
  obtain ext where ext: "addVcRedist env s1 = s1\<lparr>calls := calls s1 @ ext\<rparr>" "list_all plainCall ext"
      "ClickButton CancelButton \<notin> set ext" using addVcRedist_plain by blast
  obtain a b where s1: "s1 = st\<lparr>calls := calls st @ [DefaultOperations, AddOperation a, AddElevatedOperation b]\<rparr>"
    by (simp add: s1_def addShortcuts_def Let_def emit_def)
  obtain c d where "createOperations env st = emit (AddElevatedOperation d) (emit (AddElevatedOperation c) (addVcRedist env s1))"
    using True by (simp add: createOperations_def Let_def s1_def)
  with ext s1 show ?thesis
    by (intro exI [of _ "[DefaultOperations, AddOperation a, AddElevatedOperation b] @ ext @
        [AddElevatedOperation c, AddElevatedOperation d]"]) (simp add: emit_def)
qed (auto simp: createOperations_def Let_def emit_def)

interpretation operations: page_callback createOperations
proof
  fix env :: instEnv and st :: ist
  obtain ext where "createOperations env st = st\<lparr>calls := calls st @ ext\<rparr>" "list_all plainCall ext"
      "ClickButton CancelButton \<notin> set ext" using createOperations_plain by blast
  then show "\<exists>more. calls (createOperations env st) = calls st @ more \<and> list_all plainCall more"
    "requestToQuitFromApp (createOperations env st) = requestToQuitFromApp st"
    "desktopAppProcessRunning (createOperations env st) = desktopAppProcessRunning st"
    "isUpdater env \<Longrightarrow> cancelOk st \<Longrightarrow> cancelOk (createOperations env st)"
    by (simp_all add: cancelOk_def)
qed

section \<open>The constructor\<close>

text \<open>The log grows by calls that neither change the rights nor start the application.\<close>

definition tame :: "ist \<Rightarrow> ist \<Rightarrow> bool" where
  "tame st st' \<longleftrightarrow> (\<exists>ext. calls st' = calls st @ ext \<and> list_all rightsFree ext)"

lemma tame_trans [trans]: "tame a b \<Longrightarrow> tame b c \<Longrightarrow> tame a c"
  by (auto simp: tame_def)

lemma tame_emit: "tame a b \<Longrightarrow> rightsFree c \<Longrightarrow> tame a (emit c b)"
  by (auto simp: tame_def)

lemma tame_quietLog: "quietLog (calls a) (calls b) \<Longrightarrow> tame a b"
  by (auto simp: quietLog_def tame_def quietCall_def list_all_iff)

lemma tame_quietly: "quietly a b \<Longrightarrow> tame a b"
  by (simp add: quietly_def tame_quietLog)

lemma tame_refl [simp]: "tame a a"
  by (simp add: tame_def)

lemma rightsFree_simps [simp]:
  "rightsFree (Execute p args)" "rightsFree (ConsoleLog l)" "rightsFree SetCancelled" "rightsFree (FileExists q)"
  "rightsFree (MessageBox a b x)" "rightsFree (SetDefaultPageVisible a v)" "rightsFree (ClickButton k)"
  "rightsFree (Connect a b)" "rightsFree (SetMessageBoxAutomaticAnswer a w)"
  by (simp_all add: rightsFree_def)

lemma tame_runUninstaller: "tame a st \<Longrightarrow> tame a (snd (runUninstaller env q prev st))"
  by (simp add: runUninstaller_def fileExists_def instExecute_def Let_def tame_emit)

lemma tame_appInstalled: "tame a st \<Longrightarrow> tame a (snd (appInstalled env st))"
  using quietly_appInstalled tame_quietly tame_trans by blast

lemma tame_raise: "tame a st \<Longrightarrow> tame a (raiseInstallerWindow env st)"
  using quietly_raiseInstallerWindow tame_quietly tame_trans by blast

lemma tame_waitGone: "tame a st \<Longrightarrow> waitGone env n st = Some st' \<Longrightarrow> tame a st'"
  using quietly_waitGone tame_quietly tame_trans by blast

lemma tame_loop: "tame a st \<Longrightarrow> isDesktopAppProcessRunningMessageLoop env st = Some (r, st') \<Longrightarrow> tame a st'"
  using messageLoop_done [of env st "(r, st')"] asking_quietLog [of st st'] tame_quietLog tame_trans
  by (fastforce simp: loopDone_def)

lemma tame_hidePages: "tame a st \<Longrightarrow> tame a (fold (\<lambda>page. emit (SetDefaultPageVisible page False)) pages st)"
  using quietly_hidePages tame_quietly tame_trans by blast

lemma tame_requestToQuit: "tame a st \<Longrightarrow> tame a (requestToQuit env st)"
proof -
  assume "tame a st"
  then have "tame a (st\<lparr>requestToQuitFromApp := True\<rparr>)" by (simp add: tame_def)
  then show ?thesis by (simp add: requestToQuit_def Let_def tame_hidePages tame_emit)
qed

lemma tame_removeOldInstallation:
  assumes "tame a st" "removeOldInstallation env st = Some (stop, st')"
  shows "tame a st'"
proof -
  define s1 where "s1 = emit (removalQuestion env st) st"
  have s1: "tame a s1" using assms(1) by (simp add: s1_def removalQuestion_def tame_emit)
  note steps = tame_appInstalled tame_runUninstaller tame_raise tame_emit
  show ?thesis
    using assms(2) s1 unfolding removeOldInstallation_def messageBox_def Let_def removalQuestion_def [symmetric] s1_def [symmetric]
    by (auto simp: case_prod_beta steps split: if_splits option.splits) (auto intro!: steps elim: tame_waitGone [rotated])
qed

lemma tame_prepareInstallation:
  assumes "tame a st" "prepareInstallation env st = Some st'"
  shows "tame a st'"
proof -
  define s1 where "s1 = (if Installer_Control.runningOnMacOS env st
      then emit (SetMessageBoxAutomaticAnswer ''OverwriteTargetDirectory'' AnswerYes) st else st)"
  have s1: "tame a (snd (appInstalled env s1))" using assms(1) by (simp add: s1_def tame_emit tame_appInstalled)
  show ?thesis
    using assms(2) s1 tame_removeOldInstallation unfolding prepareInstallation_def Let_def s1_def [symmetric]
    by (auto simp: case_prod_beta split: if_splits)
qed

lemma tame_controllerInstaller:
  assumes "tame a st" "controllerInstaller env st = Some (r, st')"
  shows "tame a st'"
proof -
  define s1 where "s1 = fold (\<lambda>page. emit (SetDefaultPageVisible page False))
      [''ComponentSelection'', ''TargetDirectory'', ''StartMenuDirectoryPage'', ''LicenseCheck''] st"
  obtain q s2 where loop: "isDesktopAppProcessRunningMessageLoop env s1 = Some (q, s2)"
    using assms(2) by (cases "isDesktopAppProcessRunningMessageLoop env s1") (auto simp: controllerInstaller_def Let_def s1_def)
  have "tame a s1" unfolding s1_def using assms(1) by (rule tame_hidePages)
  then have s2: "tame a s2" using loop by (rule tame_loop)
  have "st' = s2 \<or> st' = requestToQuit env s2 \<or> prepareInstallation env s2 = Some st'"
    using assms(2) unfolding controllerInstaller_def Let_def s1_def [symmetric] loop by (auto split: sum.splits if_splits)
  then show ?thesis using s2 tame_requestToQuit tame_prepareInstallation by blast
qed

lemma tame_controllerUninstaller:
  assumes "tame a st" "controllerUninstaller env st = Some (r, st')"
  shows "tame a st'"
proof -
  obtain q s2 where loop: "isDesktopAppProcessRunningMessageLoop env st = Some (q, s2)"
    using assms(2) by (cases "isDesktopAppProcessRunningMessageLoop env st") (auto simp: controllerUninstaller_def)
  have "st' = s2 \<or> st' = requestToQuit env s2"
    using assms(2) unfolding controllerUninstaller_def loop by (auto split: sum.splits if_splits)
  then show ?thesis using tame_loop [OF assms(1) loop] tame_requestToQuit by blast
qed

lemma tame_Controller:
  assumes "Controller env ist0 = Some (r, st)"
  shows "tame ist0 st"
proof -
  have start: "tame ist0 (controllerStart env ist0)" using controllerStart_quiet ist0_start(1) tame_quietly by blast
  then show ?thesis
    using assms tame_controllerInstaller [OF start] tame_controllerUninstaller [OF start]
    by (auto simp: Controller_def Let_def tame_emit split: if_splits)
qed

section \<open>Rights\<close>

lemma launchesOk_installationFinished:
  assumes "launchesOk env (calls st)"
  shows "launchesOk env (calls (installationFinished env st))"
proof -
  have none: "\<not> elevated env (calls st)" using assms by (simp add: launchesOk_def)
  obtain ext where ext: "calls (installationFinished env st) = calls st @ ext"
      "list_ex launches ext \<longrightarrow> succeeded env (calls st)"
      "\<forall>h c t. ext = h @ c # t \<longrightarrow> launches c \<longrightarrow> \<not> elevated env (calls st @ h)"
      "\<not> elevated env (calls (installationFinished env st))"
    using finished_rights [OF none] by blast
  show ?thesis unfolding launchesOk_def
  proof (intro conjI allI impI)
    show "\<not> elevated env (calls (installationFinished env st))" by (fact ext(4))
    fix h c t
    assume eq: "calls (installationFinished env st) = h @ c # t \<and> launches c"
    then consider (before) t' where "calls st = h @ c # t'" | (new) h' where "h = calls st @ h'" "ext = h' @ c # t"
      unfolding ext(1) by (auto simp: append_eq_append_conv2 append_eq_Cons_conv Cons_eq_append_conv)
    then have "\<not> elevated env h \<and> (\<exists>h1. prefix h1 h \<and> succeeded env h1)"
    proof cases
      case before
      with eq assms show ?thesis unfolding launchesOk_def by blast
    next
      case new
      then have "list_ex launches ext" using eq by simp
      with new ext(2,3) eq show ?thesis by (metis prefixI)
    qed
    then show "\<not> elevated env h" "\<exists>h1. prefix h1 h \<and> succeeded env h1" by simp_all
  qed
qed

lemma wizardStep_launches: "wizardStep env st st' \<Longrightarrow> launchesOk env (calls st) \<Longrightarrow> launchesOk env (calls st')"
  by (induction rule: wizardStep.induct)
    (rule perform.keeps_launches license.keeps_launches finishedPage.keeps_launches restart.keeps_launches
      startMenu.keeps_launches selection.keeps_launches ready.keeps_launches targetDirectory.keeps_launches
      introduction.keeps_launches browse.keeps_launches nextButton.keeps_launches component.keeps_launches
      loaded.keeps_launches operations.keeps_launches finishShown.keeps_launches launchesOk_installationFinished, assumption)+

lemma wizardReachable_launches: "wizardReachable env st \<Longrightarrow> launchesOk env (calls st)"
proof (induction rule: wizardReachable.induct)
  case (start st)
  have "launchesOk env (calls ist0)" by (simp add: launchesOk_def elevated_def ist0_def)
  then show ?case using tame_Controller [OF start] launchesOk_rightsFree by (auto simp: tame_def)
qed (rule wizardStep_launches)

section \<open>The updater\<close>

definition updaterOk :: "ist \<Rightarrow> bool" where
  "updaterOk st \<longleftrightarrow> \<not> requestToQuitFromApp st \<and> \<not> desktopAppProcessRunning st \<and> boxCount (calls st) = 0 \<and>
     \<not> cancelled st \<and> cancelOk st"

context page_callback
begin

lemma keeps_updater: "isUpdater env \<Longrightarrow> updaterOk st \<Longrightarrow> updaterOk (f env st)"
  using cancels [of env st] by (simp add: updaterOk_def flags keeps_boxes keeps_cancelled)

end

lemma installationFinished_updater: "updaterOk st \<Longrightarrow> updaterOk (installationFinished env st)"
  by (auto simp: installationFinished_def Let_def updaterOk_def cancelOk_def boxCount_def startService_def instExecute_def)

lemma wizardStep_updater: "wizardStep env st st' \<Longrightarrow> isUpdater env \<Longrightarrow> updaterOk st \<Longrightarrow> updaterOk st'"
  by (induction rule: wizardStep.induct)
    (rule perform.keeps_updater license.keeps_updater finishedPage.keeps_updater restart.keeps_updater
      startMenu.keeps_updater selection.keeps_updater ready.keeps_updater targetDirectory.keeps_updater
      introduction.keeps_updater browse.keeps_updater nextButton.keeps_updater component.keeps_updater
      loaded.keeps_updater operations.keeps_updater finishShown.keeps_updater installationFinished_updater; assumption)+

lemma controllerStart_updater: "updaterOk (controllerStart env ist0)"
proof -
  have "updaterOk (snd (appInstalled env st))" if "updaterOk st" for st
    using that by (simp add: appInstalled_def fileExists_def Let_def updaterOk_def cancelOk_def boxCount_def setUninstallerPaths_def)
  moreover have "updaterOk (emit (ConsoleLog l) st) = updaterOk st" "updaterOk (emit (SetValue a b) st) = updaterOk st" for l a b st
    by (simp_all add: updaterOk_def cancelOk_def boxCount_def)
  moreover have "updaterOk ist0" by (simp add: updaterOk_def cancelOk_def boxCount_def ist0_def)
  ultimately show ?thesis by (simp add: controllerStart_def Let_def case_prod_beta)
qed

section \<open>Properties\<close>

text \<open>C11. In every state of a run of the wizard, whatever order the framework enters the callbacks in, the scripts hold no
  administrator rights between two callbacks, and the application was only ever started without them and after the
  framework had reported success.\<close>

theorem application_never_elevated:
  assumes "wizardReachable env st"
  shows "\<not> elevated env (calls st) \<and>
     (\<forall>h c t. calls st = h @ c # t \<and> launches c \<longrightarrow> \<not> elevated env h \<and> (\<exists>h1. prefix h1 h \<and> succeeded env h1))"
  using wizardReachable_launches [OF assms] unfolding launchesOk_def .

theorem application_never_elevated_witness:
  "\<exists>st. wizardReachable (exampleEnv 0) st \<and> list_ex launches (calls st) \<and> \<not> elevated (exampleEnv 0) (calls st)"
proof -
  let ?st = "snd (the (Controller (exampleEnv 0) ist0))"
  have "Controller (exampleEnv 0) ist0 = Some (Inr (), ?st)" by code_simp
  then have "wizardReachable (exampleEnv 0) (installationFinished (exampleEnv 0) ?st)"
    by (intro wizardReachable.step [OF wizardReachable.start]) (auto intro: wizardStep.intros)
  moreover have "list_ex launches (calls (installationFinished (exampleEnv 0) ?st))" by code_simp
  ultimately show ?thesis using application_never_elevated by blast
qed

text \<open>C38. An update runs unattended: in every state of a run of the updater no question was put to the user, the wizard was
  not cancelled, and its Cancel button was pressed only after the restart page was reached.\<close>

theorem update_unattended:
  assumes "wizardReachable env st" and "isUpdater env" "\<not> isInstaller env" "\<not> isUninstaller env"
  shows "boxCount (calls st) = 0 \<and> \<not> cancelled st \<and> \<not> requestToQuitFromApp st \<and>
     (ClickButton CancelButton \<in> set (calls st) \<longrightarrow> updaterCompleted st = 1)"
proof -
  have "updaterOk st"
    using assms(1)
  proof (induction rule: wizardReachable.induct)
    case (start st)
    then have "st = emit (Connect ''installer.installationFinished'' ''gui.clickButton(buttons.NextButton)'')
        (emit (SetMessageBoxAutomaticAnswer ''cancelInstallation'' AnswerNo) (controllerStart env ist0))"
      using assms(2-4) by (simp add: Controller_def Let_def)
    then show ?case using controllerStart_updater [of env] by (simp add: updaterOk_def cancelOk_def boxCount_def)
  qed (use wizardStep_updater assms(2) in blast)
  then show ?thesis by (simp add: updaterOk_def cancelOk_def)
qed

theorem update_unattended_witness:
  "\<exists>st. wizardReachable ((exampleEnv 0)\<lparr>isInstaller := False, isUpdater := True\<rparr>) st \<and>
     ClickButton CancelButton \<in> set (calls st) \<and> updaterCompleted st = 1"
proof -
  let ?env = "(exampleEnv 0)\<lparr>isInstaller := False, isUpdater := True\<rparr>"
  let ?st = "snd (the (Controller ?env ist0))"
  have "Controller ?env ist0 = Some (Inr (), ?st)" by code_simp
  then have "wizardReachable ?env (RestartPageCallback ?st)"
    by (intro wizardReachable.step [OF wizardReachable.start]) (auto intro: wizardStep.intros)
  then have reach: "wizardReachable ?env (snd (IntroductionPageCallback ?env (RestartPageCallback ?st)))"
    by (rule wizardReachable.step) (rule wizardStep.intros)
  have "ClickButton CancelButton \<in> set (calls (snd (IntroductionPageCallback ?env (RestartPageCallback ?st))))" by code_simp
  with reach update_unattended [OF reach] show ?thesis by (auto simp: exampleEnv_def)
qed

end
