(* ===== verification/App_Settings.thy ===== *)
theory App_Settings
  imports Split_Rule
begin

text \<open>
  The settings that steer split tunnelling, as \<^verbatim>\<open>client/core/repositories/secureAppSettingsRepository.cpp\<close> keeps
  them, and \<^verbatim>\<open>client/core/controllers/allowedDnsController.cpp\<close>, which edits the list of allowed DNS servers.
  The repository writes every change to the encrypted settings file and announces it with a signal. The file
  is modelled by the record \<open>appSettings\<close>, the signals by the list \<open>emitted\<close>.
\<close>

section \<open>Stored values\<close>

datatype routeMode = VpnAllSites | VpnOnlyForwardSites | VpnAllExceptSites

datatype appsRouteMode = VpnAllApps | VpnOnlyForwardApps | VpnAllExceptApps

record installedApp =
  appName :: string
  packageName :: string
  appPath :: string

text \<open>What a site list stores for a site: the legacy format is one address, the present one a list. A missing
  entry reads as the invalid variant.\<close>

datatype qvariant = VInvalid | VString string | VStringList "string list"

fun toStringList :: "qvariant \<Rightarrow> string list" where
  "toStringList VInvalid = []"
| "toStringList (VString s) = [s]"
| "toStringList (VStringList xs) = xs"

datatype settingsSignal =
    SitesChanged routeMode
  | RouteModeChanged routeMode
  | SitesSplitTunnelingEnabledChanged bool
  | AllowedDnsServersChanged "string list"
  | AppsRouteModeChanged appsRouteMode
  | AppsChanged appsRouteMode
  | AppsSplitTunnelingEnabledChanged bool

record appSettings =
  storedRouteMode :: routeMode
  storedSites :: "routeMode \<Rightarrow> qvariant qmap"
  isSitesSplitTunnelingEnabled :: bool
  useAmneziaDns :: bool
  isKillSwitchEnabled :: bool
  storedDnsServers :: "string list"
  isAppsSplitTunnelingEnabled :: bool
  appsRouteMode :: appsRouteMode
  vpnApps :: "appsRouteMode \<Rightarrow> installedApp list"
  emitted :: "settingsSignal list"

definition signal :: "settingsSignal \<Rightarrow> appSettings \<Rightarrow> appSettings" where
  "signal x st = st\<lparr>emitted := emitted st @ [x]\<rparr>"

section \<open>The site lists\<close>

definition vpnSites :: "appSettings \<Rightarrow> routeMode \<Rightarrow> qvariant qmap" where
  "vpnSites st mode = storedSites st mode"

definition setVpnSites :: "routeMode \<Rightarrow> qvariant qmap \<Rightarrow> appSettings \<Rightarrow> appSettings" where
  "setVpnSites mode sites st = st\<lparr>storedSites := (storedSites st)(mode := sites)\<rparr>"

definition setRouteMode :: "routeMode \<Rightarrow> appSettings \<Rightarrow> appSettings" where
  "setRouteMode mode st = signal (RouteModeChanged mode) (st\<lparr>storedRouteMode := mode\<rparr>)"

definition setSitesSplitTunnelingEnabled :: "bool \<Rightarrow> appSettings \<Rightarrow> appSettings" where
  "setSitesSplitTunnelingEnabled enabled st =
     signal (SitesSplitTunnelingEnabledChanged enabled) (st\<lparr>isSitesSplitTunnelingEnabled := enabled\<rparr>)"

definition siteIpList :: "qvariant \<Rightarrow> string list" where
  "siteIpList value = removeDuplicates (removeAll [] (toStringList value))"

text \<open>\<^verbatim>\<open>QVariantMap::value\<close>\<close>

definition siteValue :: "qvariant qmap \<Rightarrow> string \<Rightarrow> qvariant" where
  "siteValue sites site = (case qvalue sites site of None \<Rightarrow> VInvalid | Some v \<Rightarrow> v)"

text \<open>The loop that adds the addresses of a list to another list unless they are empty or there already.\<close>

definition mergeIps :: "string list \<Rightarrow> string list \<Rightarrow> string list" where
  "mergeIps merged ips = fold (\<lambda>ip merged. if ip \<noteq> [] \<and> ip \<notin> set merged then merged @ [ip] else merged) ips merged"

definition addVpnSite :: "routeMode \<Rightarrow> string \<Rightarrow> string list \<Rightarrow> appSettings \<Rightarrow> bool \<times> appSettings" where
  "addVpnSite mode site ips st =
     (let sites = vpnSites st mode; siteExisted = qcontains sites site in
      if siteExisted \<and> ips = [] then (False, st)
      else let previous = siteIpList (siteValue sites site);
               mergedIps = mergeIps previous ips;
               changed = (\<not> siteExisted \<or> mergedIps \<noteq> previous)
           in if \<not> changed then (False, st)
              else (True, signal (SitesChanged mode) (setVpnSites mode (qinsert site (VStringList mergedIps) sites) st)))"

definition addVpnSitesStep :: "string \<times> string list \<Rightarrow> qvariant qmap \<times> bool \<Rightarrow> qvariant qmap \<times> bool" where
  "addVpnSitesStep i acc = (case (i, acc) of ((site, ips), (allSites, changed)) \<Rightarrow>
     let previousIps = siteIpList (siteValue allSites site);
         mergedIps = mergeIps previousIps ips
     in if \<not> qcontains allSites site \<or> mergedIps \<noteq> previousIps
        then (qinsert site (VStringList mergedIps) allSites, True) else (allSites, changed))"

definition addVpnSites :: "routeMode \<Rightarrow> string list qmap \<Rightarrow> appSettings \<Rightarrow> appSettings" where
  "addVpnSites mode sites st =
     (case fold addVpnSitesStep sites (vpnSites st mode, False) of (allSites, changed) \<Rightarrow>
        if \<not> changed then st else signal (SitesChanged mode) (setVpnSites mode allSites st))"

definition removeVpnSite :: "routeMode \<Rightarrow> string \<Rightarrow> appSettings \<Rightarrow> appSettings" where
  "removeVpnSite mode site st =
     (let sites = vpnSites st mode in
      if \<not> qcontains sites site then st
      else signal (SitesChanged mode) (setVpnSites mode (qremove site sites) st))"

definition removeAllVpnSites :: "routeMode \<Rightarrow> appSettings \<Rightarrow> appSettings" where
  "removeAllVpnSites mode st = signal (SitesChanged mode) (setVpnSites mode [] st)"

section \<open>Allowed DNS servers\<close>

definition getAllowedDnsServers :: "appSettings \<Rightarrow> string list" where
  "getAllowedDnsServers st = storedDnsServers st"

definition setAllowedDnsServers :: "string list \<Rightarrow> appSettings \<Rightarrow> appSettings" where
  "setAllowedDnsServers servers st = signal (AllowedDnsServersChanged servers) (st\<lparr>storedDnsServers := servers\<rparr>)"

text \<open>The state of \<^verbatim>\<open>AllowedDnsController\<close> is its copy of the list and the repository.\<close>

type_synonym dnsController = "string list \<times> appSettings"

definition fillDnsServers :: "appSettings \<Rightarrow> dnsController" where
  "fillDnsServers st = (getAllowedDnsServers st, st)"

fun addDns :: "string \<Rightarrow> dnsController \<Rightarrow> bool \<times> dnsController" where
  "addDns ip (m_dnsServers, st) =
     (if ip \<in> set m_dnsServers then (False, m_dnsServers, st)
      else let servers = m_dnsServers @ [ip] in (True, servers, setAllowedDnsServers servers st))"

fun addDnsList :: "string list \<Rightarrow> bool \<Rightarrow> dnsController \<Rightarrow> dnsController" where
  "addDnsList dnsServers replaceExisting (m_dnsServers, st) =
     (let servers = appendNew (if replaceExisting then [] else m_dnsServers) dnsServers
      in (servers, setAllowedDnsServers servers st))"

fun removeDns :: "int \<Rightarrow> dnsController \<Rightarrow> dnsController" where
  "removeDns index (m_dnsServers, st) =
     (if index < 0 \<or> index \<ge> int (length m_dnsServers) then (m_dnsServers, st)
      else let servers = take (nat index) m_dnsServers @ drop (Suc (nat index)) m_dnsServers
           in (servers, setAllowedDnsServers servers st))"

section \<open>Lemmas on the site lists\<close>

lemma signal_fields [simp]:
  "storedSites (signal x st) = storedSites st" "storedRouteMode (signal x st) = storedRouteMode st"
  "isSitesSplitTunnelingEnabled (signal x st) = isSitesSplitTunnelingEnabled st"
  "isKillSwitchEnabled (signal x st) = isKillSwitchEnabled st" "storedDnsServers (signal x st) = storedDnsServers st"
  by (simp_all add: signal_def)

lemma vpnSites_signal [simp]: "vpnSites (signal x st) = vpnSites st"
  by (simp add: vpnSites_def fun_eq_iff)

lemma vpnSites_set [simp]: "vpnSites (setVpnSites mode sites st) = (vpnSites st)(mode := sites)"
  by (simp add: vpnSites_def setVpnSites_def fun_eq_iff)

lemma mergeIps_Nil [simp]: "mergeIps merged [] = merged"
  by (simp add: mergeIps_def)

lemma mergeIps_appendNew: "mergeIps merged ips = appendNew merged (filter (\<lambda>ip. ip \<noteq> []) ips)"
  unfolding mergeIps_def by (rule fold_appendNew)

lemma set_mergeIps [simp]: "set (mergeIps merged ips) = set merged \<union> (set ips - {[]})"
  by (auto simp: mergeIps_appendNew)

lemma mergeIps_Cons:
  "mergeIps merged (ip # ips) = mergeIps (if ip \<noteq> [] \<and> ip \<notin> set merged then merged @ [ip] else merged) ips"
  by (simp add: mergeIps_def)

text \<open>An address list as the code keeps it: without duplicates and without empty entries.\<close>

definition ipsOk :: "string list \<Rightarrow> bool" where
  "ipsOk ips \<longleftrightarrow> distinct ips \<and> [] \<notin> set ips"

lemma ipsOk_Nil [simp]: "ipsOk []"
  by (simp add: ipsOk_def)

lemma ipsOk_mergeIps [wf_intros]: "ipsOk merged \<Longrightarrow> ipsOk (mergeIps merged ips)"
  by (auto simp: ipsOk_def mergeIps_appendNew intro: distinct_appendNew)

lemma ipsOk_siteIpList [simp]: "ipsOk (siteIpList v)"
  by (simp add: ipsOk_def siteIpList_def)

lemma mergeIps_fresh: "ipsOk ips \<Longrightarrow> mergeIps [] ips = ips"
proof -
  assume ok: "ipsOk ips"
  then have "filter (\<lambda>ip. ip \<noteq> []) ips = ips" by (auto simp: ipsOk_def intro: filter_True)
  then show ?thesis using ok appendNew_distinct [of "[]" ips] by (simp add: mergeIps_appendNew ipsOk_def)
qed

lemma siteIpList_list: "ipsOk ips \<Longrightarrow> siteIpList (VStringList ips) = ips"
  by (simp add: siteIpList_def ipsOk_def removeDuplicates_id)

lemma siteIpList_Invalid [simp]: "siteIpList VInvalid = []"
  by (simp add: siteIpList_def removeDuplicates_def)

text \<open>What a site list says about a site: nothing, or the addresses of the site.\<close>

definition siteIps :: "qvariant qmap \<Rightarrow> string \<Rightarrow> string list option" where
  "siteIps sites site = map_option siteIpList (qvalue sites site)"

lemma siteIps_Nil [simp]: "siteIps [] site = None"
  by (simp add: siteIps_def)

lemma siteIps_qinsert [simp]:
  "siteIps (qinsert site v sites) site' = (if site' = site then Some (siteIpList v) else siteIps sites site')"
  by (simp add: siteIps_def)

lemma siteIps_qremove [simp]:
  "siteIps (qremove site sites) site' = (if site' = site then None else siteIps sites site')"
  by (simp add: siteIps_def)

lemma siteValue_ips: "siteIpList (siteValue sites site) = (case siteIps sites site of None \<Rightarrow> [] | Some ips \<Rightarrow> ips)"
  by (simp add: siteValue_def siteIps_def split: option.splits)

lemma qcontains_siteIps: "qcontains sites site \<longleftrightarrow> siteIps sites site \<noteq> None"
  by (simp add: qcontains_iff siteIps_def)

lemma siteIps_ok: "siteIps sites site = Some ips \<Longrightarrow> ipsOk ips"
  by (auto simp: siteIps_def)

text \<open>The effect of the repository's operations on what the lists say.\<close>

definition mergedWith :: "string list option \<Rightarrow> string list \<Rightarrow> string list" where
  "mergedWith old ips = mergeIps (case old of None \<Rightarrow> [] | Some xs \<Rightarrow> xs) ips"

lemma ipsOk_old: "ipsOk (case siteIps sites site of None \<Rightarrow> [] | Some ips \<Rightarrow> ips)"
  using siteIps_ok by (auto split: option.splits)

lemma ipsOk_mergedWith: "ipsOk (mergedWith (siteIps sites site) ips)"
  unfolding mergedWith_def by (rule ipsOk_mergeIps [OF ipsOk_old])

lemma addVpnSite_siteIps:
  "siteIps (vpnSites (snd (addVpnSite mode site ips st)) mode') site' =
     (if mode' = mode \<and> site' = site then Some (mergedWith (siteIps (vpnSites st mode) site) ips)
      else siteIps (vpnSites st mode') site')"
  using ipsOk_mergedWith [of "vpnSites st mode" site ips]
  by (auto simp: addVpnSite_def Let_def siteValue_ips qcontains_siteIps siteIpList_list mergedWith_def split: option.splits)

lemma addVpnSitesStep_siteIps:
  "siteIps (fst (addVpnSitesStep (site, ips) (sites, changed))) site' =
     (if site' = site then Some (mergedWith (siteIps sites site) ips) else siteIps sites site')"
  using ipsOk_mergedWith [of sites site ips]
  by (auto simp: addVpnSitesStep_def Let_def siteValue_ips qcontains_siteIps siteIpList_list mergedWith_def split: option.splits)

lemma addVpnSitesStep_unchanged:
  "\<not> snd (addVpnSitesStep i (sites, changed)) \<Longrightarrow> addVpnSitesStep i (sites, changed) = (sites, False) \<and> \<not> changed"
  by (auto simp: addVpnSitesStep_def Let_def split: prod.splits if_splits)

lemma fold_addVpnSites_siteIps:
  assumes "distinct (map fst new)"
  shows "siteIps (fst (fold addVpnSitesStep new (sites, changed))) site =
     (case map_of new site of None \<Rightarrow> siteIps sites site | Some ips \<Rightarrow> Some (mergedWith (siteIps sites site) ips))"
  using assms
proof (induction new arbitrary: sites changed)
  case (Cons i new)
  obtain k ips where i: "i = (k, ips)" by (cases i)
  obtain sites' changed' where s: "addVpnSitesStep i (sites, changed) = (sites', changed')" by fastforce
  have "siteIps sites' site = (if site = k then Some (mergedWith (siteIps sites k) ips) else siteIps sites site)"
    using addVpnSitesStep_siteIps [of k ips sites changed site] s i by simp
  moreover have "map_of new k = None" using Cons.prems i by (simp add: map_of_eq_None_iff)
  ultimately show ?case using Cons i s by (auto split: option.splits)
qed simp

lemma fold_addVpnSites_unchanged:
  "\<not> snd (fold addVpnSitesStep new (sites, changed)) \<Longrightarrow> fst (fold addVpnSitesStep new (sites, changed)) = sites"
proof (induction new arbitrary: sites changed)
  case (Cons i new)
  obtain sites' changed' where s: "addVpnSitesStep i (sites, changed) = (sites', changed')" by fastforce
  have mono: "changed'' \<Longrightarrow> snd (fold addVpnSitesStep new (sites'', changed''))" for sites'' changed''
    by (induction new arbitrary: sites'' changed'')
       (auto simp: addVpnSitesStep_def Let_def split: prod.splits if_splits)
  have "\<not> changed'" using Cons.prems s mono by auto
  then have "sites' = sites" using addVpnSitesStep_unchanged [of i sites changed] s by simp
  with Cons s show ?case by simp
qed simp

lemma addVpnSites_siteIps:
  assumes "distinct (map fst new)"
  shows "siteIps (vpnSites (addVpnSites mode new st) mode') site =
     (if mode' = mode then
        (case map_of new site of None \<Rightarrow> siteIps (vpnSites st mode) site
         | Some ips \<Rightarrow> Some (mergedWith (siteIps (vpnSites st mode) site) ips))
      else siteIps (vpnSites st mode') site)"
  using fold_addVpnSites_siteIps [OF assms, of "vpnSites st mode" False site]
    fold_addVpnSites_unchanged [of new "vpnSites st mode" False]
  by (auto simp: addVpnSites_def split: prod.splits)

lemma removeVpnSite_siteIps:
  "siteIps (vpnSites (removeVpnSite mode site st) mode') site' =
     (if mode' = mode \<and> site' = site then None else siteIps (vpnSites st mode') site')"
  by (auto simp: removeVpnSite_def Let_def qcontains_siteIps)

lemma removeAllVpnSites_siteIps:
  "siteIps (vpnSites (removeAllVpnSites mode st) mode') site =
     (if mode' = mode then None else siteIps (vpnSites st mode') site)"
  by (simp add: removeAllVpnSites_def)

lemma vpnSites_setRouteMode [simp]: "vpnSites (setRouteMode mode st) = vpnSites st"
  by (simp add: setRouteMode_def vpnSites_def fun_eq_iff)

lemma vpnSites_setEnabled [simp]: "vpnSites (setSitesSplitTunnelingEnabled b st) = vpnSites st"
  by (simp add: setSitesSplitTunnelingEnabled_def vpnSites_def fun_eq_iff)

text \<open>The lists stay sorted maps.\<close>

definition settingsWf :: "appSettings \<Rightarrow> bool" where
  "settingsWf st \<longleftrightarrow> qmapWf (vpnSites st VpnAllSites) \<and> qmapWf (vpnSites st VpnOnlyForwardSites) \<and>
     qmapWf (vpnSites st VpnAllExceptSites)"

lemma settingsWf_iff: "settingsWf st \<longleftrightarrow> (\<forall>mode. qmapWf (vpnSites st mode))"
  unfolding settingsWf_def by (metis routeMode.exhaust)

lemma fold_addVpnSites_wf: "qmapWf sites \<Longrightarrow> qmapWf (fst (fold addVpnSitesStep new (sites, changed)))"
proof (induction new arbitrary: sites changed)
  case (Cons i new)
  obtain sites' changed' where s: "addVpnSitesStep i (sites, changed) = (sites', changed')" by fastforce
  have "qmapWf sites'" using Cons.prems s
    by (auto simp: addVpnSitesStep_def Let_def qmapWf_qinsert split: prod.splits if_splits)
  with Cons.IH s show ?case by simp
qed simp

lemma settingsWf_ops [wf_intros]:
  assumes "settingsWf st"
  shows "settingsWf (snd (addVpnSite mode site ips st))" "settingsWf (addVpnSites mode new st)"
    "settingsWf (removeVpnSite mode site st)" "settingsWf (removeAllVpnSites mode st)"
    "settingsWf (setRouteMode mode st)" "settingsWf (setSitesSplitTunnelingEnabled b st)"
proof -
  show "settingsWf (addVpnSites mode new st)"
    using assms fold_addVpnSites_wf [of "vpnSites st mode" new False]
    by (auto simp: settingsWf_iff addVpnSites_def split: prod.splits)
qed (use assms in \<open>auto simp: settingsWf_iff addVpnSite_def Let_def removeVpnSite_def removeAllVpnSites_def
        qmapWf_qinsert qmapWf_qremove\<close>)

section \<open>The DNS controller shows what is stored\<close>

datatype dnsOp = AddDns string | AddDnsList "string list" bool | RemoveDns int

fun dnsStep :: "dnsOp \<Rightarrow> dnsController \<Rightarrow> dnsController" where
  "dnsStep (AddDns ip) c = snd (addDns ip c)"
| "dnsStep (AddDnsList ips b) c = addDnsList ips b c"
| "dnsStep (RemoveDns i) c = removeDns i c"

lemma dnsStep_ok:
  "storedDnsServers (snd c) = fst c \<and> distinct (fst c) \<Longrightarrow>
     storedDnsServers (snd (dnsStep x c)) = fst (dnsStep x c) \<and> distinct (fst (dnsStep x c))"
  by (cases x; cases c)
     (auto simp: setAllowedDnsServers_def Let_def distinct_appendNew set_take_disj_set_drop_if_distinct
       intro: in_set_takeD in_set_dropD dest: in_set_takeD in_set_dropD)

lemma dns_controller_stored:
  assumes "distinct (storedDnsServers st)"
  shows "storedDnsServers (snd (fold dnsStep ops (fillDnsServers st))) = fst (fold dnsStep ops (fillDnsServers st)) \<and>
    distinct (fst (fold dnsStep ops (fillDnsServers st)))"
proof -
  have "storedDnsServers (snd (fold dnsStep ops c)) = fst (fold dnsStep ops c) \<and> distinct (fst (fold dnsStep ops c))"
    if "storedDnsServers (snd c) = fst c \<and> distinct (fst c)" for c
    using that by (induction ops arbitrary: c) (simp_all add: dnsStep_ok)
  then show ?thesis using assms by (simp add: fillDnsServers_def getAllowedDnsServers_def)
qed

end
