(* ===== verification/Route_Planner.thy ===== *)
theory Route_Planner
  imports App_Settings
begin

text \<open>
  \<^verbatim>\<open>client/core/utils/splitTunnelRoutePlanner.cpp\<close>: which addresses a split tunnel routes and which of them the kill
  switch must let through. The parser of a rule is undefined on a text that normalises to nothing
  (\<^const>\<open>None\<close>, see \<open>Split_Rule\<close>), and so is every loop over such a text.
\<close>

text \<open>An address of \<^verbatim>\<open>QHostInfo\<close>. The text of an IPv4 address is its dotted form; the code never asks for the text of an
  IPv6 address.\<close>

datatype hostAddress = HostIPv4 "32 word" | HostIPv6 "128 word"

definition ipv4Texts :: "hostAddress list \<Rightarrow> string list" where
  "ipv4Texts addresses = concat (map (\<lambda>addr. case addr of HostIPv4 w \<Rightarrow> [dottedWord w] | HostIPv6 _ \<Rightarrow> []) addresses)"

definition resolvedIpv4Routes :: "hostAddress list \<Rightarrow> string list \<Rightarrow> string list" where
  "resolvedIpv4Routes addresses alreadyRoutedIps =
     removeDuplicates (filter (\<lambda>ip. ip \<notin> set alreadyRoutedIps) (ipv4Texts addresses))"

definition shouldRetryRouteAdd :: "string list \<Rightarrow> bool \<Rightarrow> bool \<Rightarrow> bool" where
  "shouldRetryRouteAdd routeIps routesAdded canRetry \<longleftrightarrow> routeIps \<noteq> [] \<and> \<not> routesAdded \<and> canRetry"

definition killSwitchAllowedIps :: "routeMode \<Rightarrow> bool \<Rightarrow> string list \<Rightarrow> string list" where
  "killSwitchAllowedIps mode killSwitchEnabled routeIps =
     (if mode = VpnAllExceptSites \<and> killSwitchEnabled then routeIps else [])"

fun siteTexts :: "qvariant qmap \<Rightarrow> string list option" where
  "siteTexts [] = Some []"
| "siteTexts ((key, value) # sites) = (case fromText key of
       None \<Rightarrow> None
     | Some rule \<Rightarrow> map_option (\<lambda>ips.
         (if \<not> isValid rule then []
          else if rule_type rule = IpSubnet then [normalizedText rule]
          else toStringList value) @ ips) (siteTexts sites))"

definition cachedSiteIps :: "(string \<Rightarrow> bool) \<Rightarrow> qvariant qmap \<Rightarrow> string list option" where
  "cachedSiteIps isIPv4 sites = map_option (\<lambda>ips. fold
     (\<lambda>ip result. if checkIpSubnetFormat isIPv4 ip \<and> ip \<notin> set result then result @ [ip] else result) ips [])
     (siteTexts sites)"

end
