(* ===== verification/Site_List.thy ===== *)
theory Site_List
  imports Route_Planner Json
begin

text \<open>
  \<^verbatim>\<open>client/core/controllers/ipSplitTunnelingController.cpp\<close>: the site list that the user edits. The controller keeps
  its own copy of the stored list (\<open>m_sites\<close>) and the state of the look-ups that check the listed hosts
  (\<open>m_siteChecks\<close>). The look-ups themselves belong to Qt: a look-up that was started has a fresh number and is open
  until it is aborted or its result is delivered. A result carries the number of its look-up and may be delivered at any
  time after the start, also when the look-up was aborted (it may have been posted before) or had a result already. A step
  may be undefined because the parser of rules is (\<^const>\<open>None\<close>, see \<open>Split_Rule\<close>).
\<close>

section \<open>State\<close>

datatype checkState = Unchecked | Resolving | Resolved | Failed | Dynamic | Address

record siteCheckInfo =
  check_state :: checkState
  check_error :: string
  lookupId :: int

definition mkCheck :: "checkState \<Rightarrow> string \<Rightarrow> int \<Rightarrow> siteCheckInfo" where
  "mkCheck s e i = \<lparr>check_state = s, check_error = e, lookupId = i\<rparr>"

text \<open>The result of a look-up. \<^const>\<open>None\<close> is \<^verbatim>\<open>QHostInfo::NoError\<close>, otherwise the text of the error is there.\<close>

record hostInfo =
  info_lookupId :: int
  info_error :: "string option"
  addresses :: "hostAddress list"

record siteList =
  settings :: appSettings
  m_currentRouteMode :: routeMode
  m_sites :: "(string \<times> string list) list"
  m_siteChecks :: "siteCheckInfo qmap"
  siteCheckChanged :: "string list"
  nextLookup :: int
  openLookups :: "(int \<times> string) list"
  startedLookups :: "(int \<times> string) list"   \<comment> \<open>every look-up so far, with the host its call-back was given\<close>

definition lookupHost :: "string \<Rightarrow> siteList \<Rightarrow> int \<times> siteList" where
  "lookupHost host sl =
     (nextLookup sl, sl\<lparr>nextLookup := nextLookup sl + 1, openLookups := openLookups sl @ [(nextLookup sl, host)],
        startedLookups := startedLookups sl @ [(nextLookup sl, host)]\<rparr>)"

definition abortHostLookup :: "int \<Rightarrow> siteList \<Rightarrow> siteList" where
  "abortHostLookup i sl = sl\<lparr>openLookups := filter (\<lambda>l. fst l \<noteq> i) (openLookups sl)\<rparr>"

section \<open>Checks\<close>

definition clearChecks :: "siteList \<Rightarrow> siteList" where
  "clearChecks sl =
     (fold (\<lambda>(host, check) sl. if lookupId check \<ge> 0 then abortHostLookup (lookupId check) sl else sl)
        (m_siteChecks sl) sl)\<lparr>m_siteChecks := []\<rparr>"

definition siteCheck :: "string \<Rightarrow> siteList \<Rightarrow> siteCheckInfo option" where
  "siteCheck hostname sl = map_option (\<lambda>rule.
     if rule_type rule = IpSubnet then mkCheck Address [] (-1)
     else if isDynamicHostRule rule then mkCheck Dynamic [] (-1)
     else case qvalue (m_siteChecks sl) (normalizedText rule) of Some c \<Rightarrow> c | None \<Rightarrow> mkCheck Unchecked [] (-1))
     (fromText hostname)"

definition startCheck :: "string \<Rightarrow> siteList \<Rightarrow> siteList" where
  "startCheck host sl =
     (if map_option check_state (qvalue (m_siteChecks sl) host) = Some Resolving then sl
      else case lookupHost host sl of (i, sl) \<Rightarrow>
        sl\<lparr>m_siteChecks := qinsert host (mkCheck Resolving [] i) (m_siteChecks sl),
           siteCheckChanged := siteCheckChanged sl @ [host]\<rparr>)"

definition checkSite :: "string \<Rightarrow> siteList \<Rightarrow> siteList option" where
  "checkSite hostname sl = map_option (\<lambda>rule.
     let host = normalizedText rule in
     if rule_type rule \<noteq> ExactHost \<or> \<not> qcontains (vpnSites (settings sl) (m_currentRouteMode sl)) host then sl
     else startCheck host sl) (fromText hostname)"

definition validateHostname :: "string \<Rightarrow> bool option" where
  "validateHostname hostname = map_option isValid (fromText hostname)"

section \<open>Editing the list\<close>

text \<open>Adds addresses to the first entry of a host. \<^const>\<open>None\<close>: the host is not in the list.\<close>

fun mergeSite :: "string \<Rightarrow> string list \<Rightarrow> (string \<times> string list) list \<Rightarrow> (string \<times> string list) list option" where
  "mergeSite hostname ips [] = None"
| "mergeSite hostname ips ((host, old) # sites) =
     (if host = hostname then Some ((host, mergeIps old ips) # sites)
      else map_option ((#) (host, old)) (mergeSite hostname ips sites))"

definition addSiteInternal :: "string \<Rightarrow> string list \<Rightarrow> siteList \<Rightarrow> bool \<times> siteList" where
  "addSiteInternal hostname ips sl =
     (if qcontains (vpnSites (settings sl) (m_currentRouteMode sl)) hostname \<and> ips = [] then (False, sl)
      else let store = snd (addVpnSite (m_currentRouteMode sl) hostname ips (settings sl)) in
        case mergeSite hostname ips (m_sites sl) of
          Some sites \<Rightarrow> if sites = m_sites sl then (False, sl) else (True, sl\<lparr>m_sites := sites, settings := store\<rparr>)
        | None \<Rightarrow> (True, sl\<lparr>m_sites := m_sites sl @ [(hostname, ips)], settings := store\<rparr>))"

definition addSite :: "string \<Rightarrow> siteList \<Rightarrow> (bool \<times> siteList) option" where
  "addSite hostname sl = (case fromText hostname of
       None \<Rightarrow> None
     | Some rule \<Rightarrow> (case validateHostname (normalizedText rule) of
           None \<Rightarrow> None
         | Some valid \<Rightarrow>
             if \<not> valid then Some (False, sl)
             else if rule_type rule = IpSubnet \<or> isDynamicHostRule rule
             then Some (True, snd (addSiteInternal (normalizedText rule) [] sl))
             else case addSiteInternal (normalizedText rule) [] sl of
                 (True, sl) \<Rightarrow> map_option (Pair True) (checkSite (normalizedText rule) sl)
               | (False, sl) \<Rightarrow> Some (False, sl)))"

text \<open>The loop that normalises a list of sites; it is the same for an import and for the stored list. The addresses are
  trimmed, and the entries of texts with the same normal form are merged.\<close>

fun normalizeSites :: "(string \<times> string list) list \<Rightarrow> string list qmap \<Rightarrow> string list qmap option" where
  "normalizeSites [] acc = Some acc"
| "normalizeSites ((key, ips) # sites) acc = (case fromText key of
       None \<Rightarrow> None
     | Some rule \<Rightarrow> (case validateHostname (normalizedText rule) of
           None \<Rightarrow> None
         | Some valid \<Rightarrow>
             if \<not> valid then normalizeSites sites acc
             else let hostname = normalizedText rule;
                      old = (case qvalue acc hostname of None \<Rightarrow> [] | Some xs \<Rightarrow> xs)
                  in normalizeSites sites (qinsert hostname (mergeIps old (map trimmed ips)) acc)))"

definition mergeOrAppend :: "string \<times> string list \<Rightarrow> (string \<times> string list) list \<Rightarrow> (string \<times> string list) list" where
  "mergeOrAppend site sites =
     (case mergeSite (fst site) (snd site) sites of Some sites' \<Rightarrow> sites' | None \<Rightarrow> sites @ [site])"

fun checkSites :: "(string \<times> string list) list \<Rightarrow> siteList \<Rightarrow> siteList option" where
  "checkSites [] sl = Some sl"
| "checkSites ((host, ips) # sites) sl =
     (if ips = [] then Option.bind (checkSite host sl) (checkSites sites) else checkSites sites sl)"

definition addSites :: "string list qmap \<Rightarrow> bool \<Rightarrow> siteList \<Rightarrow> siteList option" where
  "addSites sites replaceExisting sl = (case normalizeSites sites [] of
       None \<Rightarrow> None
     | Some normalizedSites \<Rightarrow>
         let sl = (if replaceExisting then (clearChecks sl)\<lparr>m_sites := []\<rparr> else sl);
             sl = sl\<lparr>m_sites := fold mergeOrAppend normalizedSites (m_sites sl)\<rparr>;
             mode = m_currentRouteMode sl;
             st = (if replaceExisting then removeAllVpnSites mode (settings sl) else settings sl);
             sl = sl\<lparr>settings := addVpnSites mode normalizedSites st\<rparr>
         in checkSites normalizedSites sl)"

definition removeSite :: "string \<Rightarrow> siteList \<Rightarrow> bool \<times> siteList" where
  "removeSite hostname sl =
     (if hostname \<in> fst ` set (m_sites sl) then
        let check = qvalue (m_siteChecks sl) hostname;
            sl = sl\<lparr>m_siteChecks := qremove hostname (m_siteChecks sl)\<rparr>;
            sl = (case check of Some c \<Rightarrow> if lookupId c \<ge> 0 then abortHostLookup (lookupId c) sl else sl | None \<Rightarrow> sl);
            i = length (takeWhile (\<lambda>site. fst site \<noteq> hostname) (m_sites sl))
        in (True, sl\<lparr>m_sites := take i (m_sites sl) @ drop (Suc i) (m_sites sl),
                     settings := removeVpnSite (m_currentRouteMode sl) hostname (settings sl)\<rparr>)
      else (False, sl))"

definition removeSites :: "siteList \<Rightarrow> siteList" where
  "removeSites sl = (let sl = clearChecks sl in
     sl\<lparr>m_sites := [], settings := removeAllVpnSites (m_currentRouteMode sl) (settings sl)\<rparr>)"

section \<open>Loading the list\<close>

definition fillSites :: "siteList \<Rightarrow> siteList option" where
  "fillSites sl =
     (let mode = m_currentRouteMode sl; sitesMap = vpnSites (settings sl) mode in
      map_option (\<lambda>normalizedSites.
        let sl = sl\<lparr>m_sites := normalizedSites\<rparr> in
        if map (\<lambda>(host, ips). (host, VStringList ips)) normalizedSites \<noteq> sitesMap
        then sl\<lparr>settings := addVpnSites mode normalizedSites (removeAllVpnSites mode (settings sl))\<rparr> else sl)
        (normalizeSites (map (\<lambda>(key, v). (key, siteIpList v)) sitesMap) []))"

definition changeRouteMode :: "routeMode \<Rightarrow> siteList \<Rightarrow> siteList option" where
  "changeRouteMode routeMode sl =
     map_option (\<lambda>sl. sl\<lparr>settings := setRouteMode routeMode (settings sl)\<rparr>)
       (fillSites ((clearChecks sl)\<lparr>m_currentRouteMode := routeMode\<rparr>))"

definition toggleSplitTunneling :: "bool \<Rightarrow> siteList \<Rightarrow> siteList" where
  "toggleSplitTunneling enabled sl = sl\<lparr>settings := setSitesSplitTunnelingEnabled enabled (settings sl)\<rparr>"

text \<open>The constructor. An old configuration without a mode gets the mode of the listed sites.\<close>

definition newSiteList :: "appSettings \<Rightarrow> siteList option" where
  "newSiteList st =
     (let (mode, st) = (if storedRouteMode st = VpnAllSites then (VpnOnlyForwardSites, setRouteMode VpnOnlyForwardSites st)
                        else (storedRouteMode st, st))
      in fillSites \<lparr>settings = st, m_currentRouteMode = mode, m_sites = [], m_siteChecks = [], siteCheckChanged = [],
           nextLookup = 0, openLookups = [], startedLookups = []\<rparr>)"

section \<open>Results of look-ups\<close>

definition processSiteAfterResolve :: "string \<Rightarrow> string list \<Rightarrow> siteList \<Rightarrow> siteList" where
  "processSiteAfterResolve hostname ips sl =
     sl\<lparr>m_sites := (case mergeSite hostname ips (m_sites sl) of Some sites \<Rightarrow> sites | None \<Rightarrow> m_sites sl),
        settings := snd (addVpnSite (m_currentRouteMode sl) hostname ips (settings sl))\<rparr>"

definition onHostResolved :: "string \<Rightarrow> hostInfo \<Rightarrow> siteList \<Rightarrow> siteList" where
  "onHostResolved hostname info sl = (case qvalue (m_siteChecks sl) hostname of
       None \<Rightarrow> sl
     | Some check \<Rightarrow>
         if check_state check \<noteq> Resolving \<or> lookupId check \<noteq> info_lookupId info then sl
         else let allIpv4 = removeDuplicates (ipv4Texts (addresses info));
                  sl = (if info_error info = None \<and> allIpv4 \<noteq> []
                    then processSiteAfterResolve hostname allIpv4
                      (sl\<lparr>m_siteChecks := qinsert hostname (mkCheck Resolved [] (-1)) (m_siteChecks sl)\<rparr>)
                    else let error = (case info_error info of None \<Rightarrow> ''No IPv4 addresses returned'' | Some e \<Rightarrow> e)
                      in sl\<lparr>m_siteChecks := qinsert hostname (mkCheck Failed error (-1)) (m_siteChecks sl)\<rparr>)
              in sl\<lparr>siteCheckChanged := siteCheckChanged sl @ [hostname]\<rparr>)"

section \<open>Import and export\<close>

text \<open>The bytes are read and written by Qt's JSON classes. The model starts from the outcome of the reader, an error text
  or a value, and ends with the value that is written.\<close>

definition importIps :: "jobj \<Rightarrow> string list" where
  "importIps ob = (let singleIp = jToString (jvalue ob ''ip'') in
     removeDuplicates (removeAll []
       (map jToString (jToArray (jvalue ob ''ips'')) @ (if singleIp \<noteq> [] then [singleIp] else []))))"

fun importEntries :: "json list \<Rightarrow> string list qmap \<Rightarrow> string list qmap option" where
  "importEntries [] sites = Some sites"
| "importEntries (v # vs) sites =
     (let ob = jToObject v; hostname = trimmed (jToString (jvalue ob ''hostname'')) in
      case fromText hostname of
        None \<Rightarrow> None
      | Some rule \<Rightarrow> (case validateHostname (normalizedText rule) of
            None \<Rightarrow> None
          | Some valid \<Rightarrow> importEntries vs (if valid then qinsert (normalizedText rule) (importIps ob) sites else sites)))"

text \<open>The result is the error message or the new state.\<close>

definition importSitesFromJson :: "string + json \<Rightarrow> bool \<Rightarrow> siteList \<Rightarrow> (string + siteList) option" where
  "importSitesFromJson parsed replaceExisting sl = (case parsed of
       Inl parseError \<Rightarrow> Some (Inl (''Failed to parse JSON data: '' @ parseError))
     | Inr (JArr jsonArray) \<Rightarrow> Option.bind (importEntries jsonArray [])
         (\<lambda>sites. map_option Inr (addSites sites replaceExisting sl))
     | Inr _ \<Rightarrow> Some (Inl ''The JSON data is not an array''))"

definition exportSite :: "string \<times> string list \<Rightarrow> json" where
  "exportSite site = JObj (qinsert ''ip'' (JStr (case snd site of [] \<Rightarrow> [] | ip # _ \<Rightarrow> ip))
     (qinsert ''ips'' (JArr (map JStr (snd site))) (qinsert ''hostname'' (JStr (fst site)) [])))"

definition exportSitesToJson :: "siteList \<Rightarrow> json" where
  "exportSitesToJson sl = JArr (map exportSite (m_sites sl))"

section \<open>Runs\<close>

datatype siteOp =
    AddSite string
  | AddSites "string list qmap" bool
  | RemoveSite string
  | RemoveSites
  | ChangeRouteMode routeMode
  | Toggle bool
  | CheckSite string
  | Import "string + json" bool
  | LookupDone hostInfo

text \<open>The result of a look-up comes with its number; the call-back has the host of the look-up.\<close>

fun siteStep :: "siteOp \<Rightarrow> siteList \<Rightarrow> siteList option" where
  "siteStep (AddSite t) sl = map_option snd (addSite t sl)"
| "siteStep (AddSites sites b) sl = addSites sites b sl"
| "siteStep (RemoveSite h) sl = Some (snd (removeSite h sl))"
| "siteStep RemoveSites sl = Some (removeSites sl)"
| "siteStep (ChangeRouteMode m) sl = changeRouteMode m sl"
| "siteStep (Toggle b) sl = Some (toggleSplitTunneling b sl)"
| "siteStep (CheckSite h) sl = checkSite h sl"
| "siteStep (Import parsed b) sl =
     map_option (\<lambda>r. case r of Inl message \<Rightarrow> sl | Inr sl' \<Rightarrow> sl') (importSitesFromJson parsed b sl)"
| "siteStep (LookupDone info) sl = Some (case map_of (startedLookups sl) (info_lookupId info) of
       None \<Rightarrow> sl
     | Some host \<Rightarrow> onHostResolved host info (abortHostLookup (info_lookupId info) sl))"

fun siteRun :: "siteOp list \<Rightarrow> siteList \<Rightarrow> siteList option" where
  "siteRun [] sl = Some sl"
| "siteRun (x # xs) sl = Option.bind (siteStep x sl) (siteRun xs)"

section \<open>The copy of a stored list\<close>

definition showsSites :: "(string \<times> string list) list \<Rightarrow> (string \<Rightarrow> string list option) \<Rightarrow> bool" where
  "showsSites list stored \<longleftrightarrow> distinct (map fst list) \<and> (\<forall>h. map_of list h = stored h)"

lemma mergeSite_None: "mergeSite h ips sites = None \<longleftrightarrow> h \<notin> fst ` set sites"
  by (induction h ips sites rule: mergeSite.induct) auto

lemma mergeSite_fresh [simp]: "h \<notin> fst ` set sites \<Longrightarrow> mergeSite h ips sites = None"
  by (simp add: mergeSite_None)

lemma mergeSite_Some:
  "mergeSite h ips sites = Some sites' \<Longrightarrow> map fst sites' = map fst sites \<and>
     (\<forall>h'. map_of sites' h' = (if h' = h then map_option (\<lambda>old. mergeIps old ips) (map_of sites h) else map_of sites h'))"
  by (induction h ips sites arbitrary: sites' rule: mergeSite.induct) (auto split: if_splits)

lemma map_of_snoc_fresh: "h \<notin> fst ` set xs \<Longrightarrow> map_of (xs @ [(h, v)]) = (map_of xs)(h \<mapsto> v)"
  by (induction xs) auto

lemma map_of_filter_neq: "map_of (filter (\<lambda>s. fst s \<noteq> h) xs) h' = (if h' = h then None else map_of xs h')"
  by (induction xs) auto

lemma remove_first_filter:
  "distinct (map fst xs) \<Longrightarrow> h \<in> fst ` set xs \<Longrightarrow>
     take (length (takeWhile (\<lambda>s. fst s \<noteq> h) xs)) xs @ drop (Suc (length (takeWhile (\<lambda>s. fst s \<noteq> h) xs))) xs =
     filter (\<lambda>s. fst s \<noteq> h) xs"
proof (induction xs)
  case (Cons x xs)
  have "filter (\<lambda>s. fst s \<noteq> h) xs = xs" if "fst x = h"
    using Cons.prems(1) that by (intro filter_True) (force simp: image_iff)
  with Cons show ?case by auto
qed simp

text \<open>What the controller relies on in its repository, and why its copy stays true.\<close>

locale site_store =
  fixes stored :: "'st \<Rightarrow> string \<Rightarrow> string list option"
    and add :: "string \<Rightarrow> string list \<Rightarrow> 'st \<Rightarrow> 'st"
    and addAll :: "string list qmap \<Rightarrow> 'st \<Rightarrow> 'st"
    and remove :: "string \<Rightarrow> 'st \<Rightarrow> 'st"
    and clear :: "'st \<Rightarrow> 'st"
  assumes stored_add: "stored (add h ips st) h' = (if h' = h then Some (mergedWith (stored st h) ips) else stored st h')"
    and stored_addAll: "distinct (map fst new) \<Longrightarrow> stored (addAll new st) h =
      (case map_of new h of None \<Rightarrow> stored st h | Some ips \<Rightarrow> Some (mergedWith (stored st h) ips))"
    and stored_remove: "stored (remove h st) h' = (if h' = h then None else stored st h')"
    and stored_clear: "stored (clear st) h = None"
begin

lemma shows_merge:
  assumes "showsSites list (stored st)" and "mergeSite h ips list = Some list'"
  shows "showsSites list' (stored (add h ips st))"
proof -
  have "h \<in> fst ` set list" using assms(2) mergeSite_None [of h ips list] by auto
  then obtain old where old: "map_of list h = Some old" by (metis map_of_eq_None_iff not_None_eq)
  with mergeSite_Some [OF assms(2)] assms(1) show ?thesis
    by (auto simp: showsSites_def stored_add mergedWith_def)
qed

lemma shows_new:
  assumes "showsSites list (stored st)" and "mergeSite h ips list = None" and "ipsOk ips"
  shows "showsSites (list @ [(h, ips)]) (stored (add h ips st))"
proof -
  have h: "map_of list h = None" using assms(2) by (simp add: map_of_eq_None_iff mergeSite_None)
  have "map_of (list @ [(h, ips)]) h' = stored (add h ips st) h'" for h'
    using assms(1,3) h by (auto simp: showsSites_def stored_add mergedWith_def mergeIps_fresh map_add_def split: option.splits)
  then show ?thesis using assms(1,2) by (auto simp: showsSites_def mergeSite_None)
qed

lemma shows_mergeOrAppend:
  "showsSites list (stored st) \<Longrightarrow> ipsOk ips \<Longrightarrow> showsSites (mergeOrAppend (h, ips) list) (stored (add h ips st))"
  using shows_merge shows_new by (auto simp: mergeOrAppend_def split: option.splits)

lemma showsSites_cong: "showsSites list s \<Longrightarrow> (\<And>h. s h = s' h) \<Longrightarrow> showsSites list s'"
  by (simp add: showsSites_def)

lemma shows_addAll:
  "showsSites list (stored st) \<Longrightarrow> distinct (map fst new) \<Longrightarrow> list_all (\<lambda>s. ipsOk (snd s)) new \<Longrightarrow>
     showsSites (fold mergeOrAppend new list) (stored (addAll new st))"
proof (induction new arbitrary: list st)
  case Nil
  then show ?case by (simp add: showsSites_def stored_addAll [of "[]", simplified])
next
  case (Cons site new)
  obtain h ips where site: "site = (h, ips)" by (cases site)
  have "showsSites (mergeOrAppend (h, ips) list) (stored (add h ips st))"
    using Cons.prems site by (intro shows_mergeOrAppend) auto
  then have "showsSites (fold mergeOrAppend new (mergeOrAppend (h, ips) list)) (stored (addAll new (add h ips st)))"
    using Cons site by simp
  moreover have "map_of new h = None" using Cons.prems(2) site by (simp add: map_of_eq_None_iff)
  then have "stored (addAll new (add h ips st)) h' = stored (addAll (site # new) st) h'" for h'
    using Cons.prems(2) site by (auto simp: stored_addAll stored_add split: option.splits)
  ultimately show ?case unfolding site fold_simps by (rule showsSites_cong)
qed

lemma shows_remove:
  "showsSites list (stored st) \<Longrightarrow> showsSites (filter (\<lambda>s. fst s \<noteq> h) list) (stored (remove h st))"
  by (auto simp: showsSites_def stored_remove map_of_filter_neq distinct_map inj_on_def)

lemma shows_clear: "showsSites [] (stored (clear st))"
  by (simp add: showsSites_def stored_clear)

end

interpretation store: site_store "\<lambda>st. siteIps (vpnSites st mode)" "\<lambda>h ips st. snd (addVpnSite mode h ips st)"
  "addVpnSites mode" "removeVpnSite mode" "removeAllVpnSites mode" for mode
  by unfold_locales
     (simp_all add: addVpnSite_siteIps addVpnSites_siteIps removeVpnSite_siteIps removeAllVpnSites_siteIps)

section \<open>Invariant\<close>

text \<open>The look-ups: every check of a listed host that is under way has its own open look-up, and there are no others.\<close>

definition resolvingLookups :: "siteCheckInfo qmap \<Rightarrow> (int \<times> string) set" where
  "resolvingLookups checks = {(lookupId c, h) |h c. qvalue checks h = Some c \<and> check_state c = Resolving}"

definition lookInv :: "siteCheckInfo qmap \<Rightarrow> (int \<times> string) list \<Rightarrow> int \<Rightarrow> bool" where
  "lookInv checks open next \<longleftrightarrow> set open = resolvingLookups checks \<and> distinct (map fst open) \<and>
     (\<forall>i h. (i, h) \<in> set open \<longrightarrow> 0 \<le> i \<and> i < next) \<and> 0 \<le> next \<and>
     (\<forall>h c. qvalue checks h = Some c \<and> check_state c \<noteq> Resolving \<longrightarrow> lookupId c = -1)"

definition numbered :: "(int \<times> string) list \<Rightarrow> int \<Rightarrow> bool" where
  "numbered started next \<longleftrightarrow> distinct (map fst started) \<and> (\<forall>l \<in> set started. fst l < next)"

definition siteOk :: "string \<times> string list \<Rightarrow> bool" where
  "siteOk site \<longleftrightarrow> validateHostname (fst site) = Some True \<and> ipsOk (snd site) \<and> list_all (\<lambda>ip. trimmed ip = ip) (snd site)"

definition siteInv :: "siteList \<Rightarrow> bool" where
  "siteInv sl \<longleftrightarrow> showsSites (m_sites sl) (siteIps (vpnSites (settings sl) (m_currentRouteMode sl))) \<and>
     list_all siteOk (m_sites sl) \<and> lookInv (m_siteChecks sl) (openLookups sl) (nextLookup sl) \<and>
     (\<forall>h. qvalue (m_siteChecks sl) h \<noteq> None \<longrightarrow> h \<in> fst ` set (m_sites sl)) \<and>
     set (openLookups sl) \<subseteq> set (startedLookups sl) \<and> numbered (startedLookups sl) (nextLookup sl)"

lemma numbered_Nil [simp]: "numbered [] next"
  by (simp add: numbered_def)

lemma numbered_start: "numbered started next \<Longrightarrow> numbered (started @ [(next, h)]) (next + 1)"
  by (fastforce simp: numbered_def)

lemma resolvingLookups_Nil [simp]: "resolvingLookups [] = {}"
  by (simp add: resolvingLookups_def)

lemma lookInv_Nil: "0 \<le> next \<Longrightarrow> lookInv [] [] next"
  by (simp add: lookInv_def)

lemma lookInv_nonneg:
  "lookInv checks open next \<Longrightarrow> qvalue checks h = Some c \<Longrightarrow> 0 \<le> lookupId c \<longleftrightarrow> check_state c = Resolving"
  by (force simp: lookInv_def resolvingLookups_def)

lemma lookInv_open:
  "lookInv checks open next \<Longrightarrow> (i, h) \<in> set open \<longleftrightarrow> (\<exists>c. qvalue checks h = Some c \<and> check_state c = Resolving \<and> lookupId c = i)"
  by (auto simp: lookInv_def resolvingLookups_def)

lemma lookInv_start:
  assumes "lookInv checks open next" and "\<not> (\<exists>c. qvalue checks h = Some c \<and> check_state c = Resolving)"
  shows "lookInv (qinsert h (mkCheck Resolving [] next) checks) (open @ [(next, h)]) (next + 1)"
proof -
  have "resolvingLookups (qinsert h (mkCheck Resolving [] next) checks) = insert (next, h) (resolvingLookups checks)"
    using assms(2) by (auto simp: resolvingLookups_def mkCheck_def)
  then show ?thesis using assms by (force simp: lookInv_def mkCheck_def)
qed

text \<open>Closing the look-up of a host, and what becomes of its check.\<close>

lemma lookInv_close:
  assumes "lookInv checks open next" and "qvalue checks h = Some c" and "check_state c = Resolving"
    and rest: "\<And>h'. h' \<noteq> h \<Longrightarrow> qvalue checks' h' = qvalue checks h'"
    and new: "\<And>c'. qvalue checks' h = Some c' \<Longrightarrow> check_state c' \<noteq> Resolving \<and> lookupId c' = -1"
  shows "lookInv checks' (filter (\<lambda>l. fst l \<noteq> lookupId c) open) next"
proof -
  have mem: "(lookupId c, h) \<in> set open" using assms(1-3) by (auto simp: lookInv_open)
  have only: "h' = h" if "(lookupId c, h') \<in> set open" for h'
    using assms(1) mem that eq_key_imp_eq_value by (metis lookInv_def)
  have "(i, h') \<in> resolvingLookups checks' \<longleftrightarrow> (i, h') \<in> set open \<and> i \<noteq> lookupId c" for i h'
  proof (cases "h' = h")
    case True
    then show ?thesis using new assms(2) lookInv_open [OF assms(1), of i h] by (auto simp: resolvingLookups_def)
  next
    case False
    have "(i, h') \<in> resolvingLookups checks' \<longleftrightarrow> (i, h') \<in> set open"
      unfolding lookInv_open [OF assms(1)] resolvingLookups_def using rest [OF False] by auto
    then show ?thesis using only False by blast
  qed
  then have "set (filter (\<lambda>l. fst l \<noteq> lookupId c) open) = resolvingLookups checks'" by auto
  moreover have "distinct (map fst (filter (\<lambda>l. fst l \<noteq> lookupId c) open))"
    using assms(1) by (simp add: lookInv_def distinct_map_filter)
  moreover have "qvalue checks' h' = Some c' \<and> check_state c' \<noteq> Resolving \<Longrightarrow> lookupId c' = -1" for h' c'
    using assms(1) rest [of h'] new [of c'] by (cases "h' = h") (auto simp: lookInv_def)
  moreover have "(i, h') \<in> set (filter (\<lambda>l. fst l \<noteq> lookupId c) open) \<Longrightarrow> 0 \<le> i \<and> i < next" for i h'
    using assms(1) by (auto simp: lookInv_def simp del: mem_Collect_eq)
  moreover have "0 \<le> next" using assms(1) by (simp add: lookInv_def)
  ultimately show ?thesis unfolding lookInv_def by blast
qed

lemma lookInv_remove:
  assumes "lookInv checks open next"
  shows "lookInv (qremove h checks)
    (case qvalue checks h of Some c \<Rightarrow> if lookupId c \<ge> 0 then filter (\<lambda>l. fst l \<noteq> lookupId c) open else open | None \<Rightarrow> open) next"
proof (cases "\<exists>c. qvalue checks h = Some c \<and> check_state c = Resolving")
  case True
  then obtain c where c: "qvalue checks h = Some c" "check_state c = Resolving" by blast
  moreover have "0 \<le> lookupId c" using lookInv_nonneg [OF assms c(1)] c(2) by simp
  ultimately show ?thesis using lookInv_close [OF assms c, of "qremove h checks"] by simp
next
  case False
  then have "resolvingLookups (qremove h checks) = resolvingLookups checks" by (auto simp: resolvingLookups_def)
  moreover have "qvalue checks h = Some c \<Longrightarrow> \<not> 0 \<le> lookupId c" for c using lookInv_nonneg [OF assms, of h c] False by blast
  ultimately show ?thesis using assms by (auto simp: lookInv_def split: option.splits)
qed

lemma fold_abort:
  "fold (\<lambda>(host, check) sl. if lookupId check \<ge> 0 then abortHostLookup (lookupId check) sl else sl) checks sl =
   sl\<lparr>openLookups := filter (\<lambda>l. \<forall>(h, c) \<in> set checks. lookupId c \<ge> 0 \<longrightarrow> fst l \<noteq> lookupId c) (openLookups sl)\<rparr>"
proof (induction checks arbitrary: sl)
  case (Cons x checks)
  then show ?case
    by (cases x) (auto simp: abortHostLookup_def split_def conj_commute intro!: arg_cong [of _ _ "\<lambda>xs. openLookups_update (\<lambda>_. xs) sl"] filter_cong)
qed simp

lemma clearChecks_eq:
  assumes "lookInv (m_siteChecks sl) (openLookups sl) (nextLookup sl)"
  shows "clearChecks sl = sl\<lparr>openLookups := [], m_siteChecks := []\<rparr>"
proof -
  have "\<exists>(h, c) \<in> set (m_siteChecks sl). lookupId c \<ge> 0 \<and> fst l = lookupId c" if mem: "l \<in> set (openLookups sl)" for l
  proof -
    obtain i h where l: "l = (i, h)" by (cases l)
    then obtain c where c: "qvalue (m_siteChecks sl) h = Some c" "check_state c = Resolving" "lookupId c = i"
      using mem lookInv_open [OF assms, of i h] by auto
    then have "(h, c) \<in> set (m_siteChecks sl)" by (simp add: qvalue_def map_of_SomeD)
    then show ?thesis using lookInv_nonneg [OF assms c(1)] c l by force
  qed
  then have "filter (\<lambda>l. \<forall>(h, c) \<in> set (m_siteChecks sl). lookupId c \<ge> 0 \<longrightarrow> fst l \<noteq> lookupId c) (openLookups sl) = []"
    by (force simp: filter_empty_conv)
  then show ?thesis by (simp add: clearChecks_def fold_abort)
qed

section \<open>Every operation keeps the invariant\<close>

lemma siteInv_known:
  assumes "siteInv sl" and "qcontains (vpnSites (settings sl) (m_currentRouteMode sl)) h"
  shows "h \<in> fst ` set (m_sites sl)"
  using assms by (metis map_of_eq_None_iff qcontains_siteIps showsSites_def siteInv_def)

lemma startCheck_inv [inv_intros]: "siteInv sl \<Longrightarrow> h \<in> fst ` set (m_sites sl) \<Longrightarrow> siteInv (startCheck h sl)"
  using lookInv_start [of "m_siteChecks sl" "openLookups sl" "nextLookup sl" h]
  by (auto simp: startCheck_def siteInv_def lookupHost_def numbered_start)

lemma startCheck_sites [simp]:
  "m_sites (startCheck h sl) = m_sites sl" "settings (startCheck h sl) = settings sl"
  "m_currentRouteMode (startCheck h sl) = m_currentRouteMode sl"
  by (simp_all add: startCheck_def lookupHost_def)

lemma checkSite_inv:
  assumes "siteInv sl" and "checkSite h sl = Some sl'"
  shows "siteInv sl'" "m_sites sl' = m_sites sl" "settings sl' = settings sl" "m_currentRouteMode sl' = m_currentRouteMode sl"
  using assms siteInv_known [OF assms(1)] by (auto simp: checkSite_def Let_def startCheck_inv split: if_splits)

lemma checkSites_inv:
  assumes "siteInv sl" and "checkSites sites sl = Some sl'"
  shows "siteInv sl' \<and> m_sites sl' = m_sites sl \<and> settings sl' = settings sl \<and> m_currentRouteMode sl' = m_currentRouteMode sl"
  using assms
proof (induction sites sl rule: checkSites.induct)
  case (2 host ips sites sl)
  show ?case
  proof (cases "ips = []")
    case True
    then obtain sl1 where sl1: "checkSite host sl = Some sl1" "checkSites sites sl1 = Some sl'"
      using 2(4) by (auto simp: Option.bind_eq_Some_conv)
    then show ?thesis using 2(1) [OF True sl1(1)] checkSite_inv [OF 2(3) sl1(1)] by simp
  qed (use 2 in simp)
qed simp

lemma addSiteInternal_eq:
  assumes "siteInv sl"
  shows "addSiteInternal h [] sl = (if h \<in> fst ` set (m_sites sl) then (False, sl)
     else (True, sl\<lparr>m_sites := m_sites sl @ [(h, [])],
                   settings := snd (addVpnSite (m_currentRouteMode sl) h [] (settings sl))\<rparr>))"
proof -
  have known: "qcontains (vpnSites (settings sl) (m_currentRouteMode sl)) h \<longleftrightarrow> h \<in> fst ` set (m_sites sl)"
    using assms by (metis map_of_eq_None_iff qcontains_siteIps showsSites_def siteInv_def)
  show ?thesis
  proof (cases "h \<in> fst ` set (m_sites sl)")
    case False
    then have "mergeSite h [] (m_sites sl) = None" by simp
    then show ?thesis using False known by (simp only: addSiteInternal_def Let_def) simp
  qed (simp add: addSiteInternal_def known)
qed

lemma addSiteInternal_inv:
  assumes "siteInv sl" and "validateHostname h = Some True"
  shows "siteInv (snd (addSiteInternal h [] sl))"
proof (cases "h \<in> fst ` set (m_sites sl)")
  case False
  have "list_all siteOk (m_sites sl @ [(h, [])])" using assms by (simp add: siteInv_def siteOk_def)
  moreover have "showsSites (m_sites sl) (siteIps (vpnSites (settings sl) (m_currentRouteMode sl)))"
    using assms(1) by (simp add: siteInv_def)
  then have "showsSites (m_sites sl @ [(h, [])])
      (siteIps (vpnSites (snd (addVpnSite (m_currentRouteMode sl) h [] (settings sl))) (m_currentRouteMode sl)))"
    by (rule store.shows_new) (simp_all add: False)
  ultimately show ?thesis using assms(1) False by (auto simp: addSiteInternal_eq [OF assms(1)] siteInv_def)
qed (simp add: addSiteInternal_eq assms(1))

lemma addSite_inv:
  assumes "siteInv sl" and "addSite t sl = Some (b, sl')"
  shows "siteInv sl'"
proof -
  obtain rule valid where r: "fromText t = Some rule" "validateHostname (normalizedText rule) = Some valid"
    using assms(2) by (auto simp: addSite_def split: option.splits)
  obtain b1 sl1 where i: "addSiteInternal (normalizedText rule) [] sl = (b1, sl1)" by fastforce
  have "siteInv sl1" if valid using addSiteInternal_inv [OF assms(1)] r(2) i that by (metis snd_conv)
  then show ?thesis using assms r i checkSite_inv(1) [of sl1]
    by (auto simp: addSite_def split: if_splits bool.splits)
qed

lemma siteOk_merge: "siteOk (h, old) \<Longrightarrow> list_all (\<lambda>ip. trimmed ip = ip) ips \<Longrightarrow> siteOk (h, mergeIps old ips)"
  by (auto simp: siteOk_def list_all_iff ipsOk_mergeIps)

lemma set_qinsert_subset: "set (qinsert k v m) \<subseteq> insert (k, v) (set m)"
  by (induction k v m rule: qinsert.induct) auto

lemma normalizeSites_ok:
  assumes "normalizeSites sites acc = Some result" and "qmapWf acc" and "list_all siteOk acc"
  shows "qmapWf result \<and> list_all siteOk result"
  using assms
proof (induction sites acc rule: normalizeSites.induct)
  case (2 key ips sites acc)
  obtain rule valid where r: "fromText key = Some rule" "validateHostname (normalizedText rule) = Some valid"
    using 2(3) by (auto split: option.splits)
  show ?case
  proof (cases valid)
    case True
    define old where "old = (case qvalue acc (normalizedText rule) of None \<Rightarrow> [] | Some xs \<Rightarrow> xs)"
    have "siteOk (normalizedText rule, old)"
      using 2(5) r True
      by (auto simp: old_def siteOk_def qvalue_def list_all_iff dest!: map_of_SomeD split: option.splits)
    then have "siteOk (normalizedText rule, mergeIps old (map trimmed ips))"
      by (rule siteOk_merge) (simp add: list_all_iff)
    then have "list_all siteOk (qinsert (normalizedText rule) (mergeIps old (map trimmed ips)) acc)"
      using 2(5) set_qinsert_subset [of "normalizedText rule" "mergeIps old (map trimmed ips)" acc]
      unfolding list_all_iff by blast
    then show ?thesis
      using 2(2) [OF r, of "normalizedText rule" old] 2(3,4) r True by (simp add: old_def qmapWf_qinsert Let_def)
  qed (use 2 r in simp)
qed simp

lemma fold_mergeOrAppend_fresh:
  "distinct (map fst (acc @ new)) \<Longrightarrow> fold mergeOrAppend new acc = acc @ new"
proof (induction new arbitrary: acc)
  case (Cons site new)
  then have "mergeOrAppend site acc = acc @ [site]" by (simp add: mergeOrAppend_def)
  with Cons.IH [of "acc @ [site]"] Cons.prems show ?case by simp
qed simp

lemma list_all_mergeSite:
  assumes "mergeSite h ips xs = Some xs'" and "list_all (\<lambda>ip. trimmed ip = ip) ips" and "list_all siteOk xs"
  shows "list_all siteOk xs'"
  using assms by (induction h ips xs arbitrary: xs' rule: mergeSite.induct) (auto simp: siteOk_merge split: if_splits)

lemma list_all_fold_mergeOrAppend:
  "list_all siteOk sites \<Longrightarrow> list_all siteOk new \<Longrightarrow> list_all siteOk (fold mergeOrAppend new sites)"
proof (induction new arbitrary: sites)
  case (Cons site new)
  have "list_all (\<lambda>ip. trimmed ip = ip) (snd site)" using Cons.prems(2) by (simp add: siteOk_def)
  then have "list_all siteOk (mergeOrAppend site sites)"
    using list_all_mergeSite [of "fst site" "snd site" sites] Cons.prems by (auto simp: mergeOrAppend_def split: option.splits)
  then show ?case using Cons by simp
qed simp

lemma keys_fold_mergeOrAppend: "set (map fst sites) \<subseteq> set (map fst (fold mergeOrAppend new sites))"
proof (induction new arbitrary: sites)
  case (Cons site new)
  have "set (map fst sites) \<subseteq> set (map fst (mergeOrAppend site sites))"
  proof (cases "mergeSite (fst site) (snd site) sites")
    case (Some sites')
    then show ?thesis using mergeSite_Some [OF Some] by (simp only: mergeOrAppend_def option.case)
  qed (auto simp: mergeOrAppend_def)
  then show ?case using Cons [of "mergeOrAppend site sites"] by (simp only: fold_simps)
qed simp

lemma ok_ips: "list_all siteOk sites \<Longrightarrow> list_all (\<lambda>s. ipsOk (snd s)) sites"
  by (simp add: list_all_iff siteOk_def)

text \<open>The state before the look-ups of an import are started.\<close>

definition addedSites :: "string list qmap \<Rightarrow> bool \<Rightarrow> siteList \<Rightarrow> siteList" where
  "addedSites normalizedSites replaceExisting sl =
     (let sl = (if replaceExisting then (clearChecks sl)\<lparr>m_sites := []\<rparr> else sl); mode = m_currentRouteMode sl
      in sl\<lparr>m_sites := fold mergeOrAppend normalizedSites (m_sites sl),
            settings := addVpnSites mode normalizedSites (if replaceExisting then removeAllVpnSites mode (settings sl) else settings sl)\<rparr>)"

lemma addedSites_inv:
  assumes "siteInv sl" and "qmapWf new" and "list_all siteOk new"
  shows "siteInv (addedSites new b sl)"
proof -
  note shows_ = store.shows_addAll [where mode = "m_currentRouteMode sl", OF _ qmapWf_distinct [OF assms(2)] ok_ips [OF assms(3)]]
  have clear: "clearChecks sl = sl\<lparr>openLookups := [], m_siteChecks := []\<rparr>" using assms(1) by (simp add: siteInv_def clearChecks_eq)
  have next_: "0 \<le> nextLookup sl" "numbered (startedLookups sl) (nextLookup sl)"
    using assms(1) by (simp_all add: siteInv_def lookInv_def)
  show ?thesis
  proof (cases b)
    case True
    then show ?thesis
      using shows_ [OF store.shows_clear] list_all_fold_mergeOrAppend [of "[]" new] assms(3) next_
      by (simp add: addedSites_def clear siteInv_def Let_def lookInv_Nil)
  next
    case False
    then show ?thesis
      using shows_ [of "m_sites sl" "settings sl"] list_all_fold_mergeOrAppend [of "m_sites sl" new] assms(1,3)
        keys_fold_mergeOrAppend [of "m_sites sl" new]
      by (auto simp: addedSites_def siteInv_def Let_def)
  qed
qed

lemma addSites_eq:
  "addSites sites b sl = Option.bind (normalizeSites sites []) (\<lambda>new. checkSites new (addedSites new b sl))"
  by (auto simp: addSites_def addedSites_def Let_def split: option.splits)

lemma addSites_inv:
  assumes "siteInv sl" and "addSites sites b sl = Some sl'"
  shows "siteInv sl'"
proof -
  obtain new where new: "normalizeSites sites [] = Some new" "checkSites new (addedSites new b sl) = Some sl'"
    using assms(2) by (auto simp: addSites_eq Option.bind_eq_Some_conv)
  then show ?thesis
    using checkSites_inv [OF addedSites_inv [OF assms(1)] new(2)] normalizeSites_ok [OF new(1)] by simp
qed

lemma removeSite_eq:
  assumes "siteInv sl" and "h \<in> fst ` set (m_sites sl)"
  shows "removeSite h sl = (True, sl\<lparr>m_siteChecks := qremove h (m_siteChecks sl),
     openLookups := (case qvalue (m_siteChecks sl) h of
        Some c \<Rightarrow> if lookupId c \<ge> 0 then filter (\<lambda>l. fst l \<noteq> lookupId c) (openLookups sl) else openLookups sl | None \<Rightarrow> openLookups sl),
     m_sites := filter (\<lambda>s. fst s \<noteq> h) (m_sites sl),
     settings := removeVpnSite (m_currentRouteMode sl) h (settings sl)\<rparr>)"
proof -
  have "distinct (map fst (m_sites sl))" using assms(1) by (simp add: siteInv_def showsSites_def)
  note cut = remove_first_filter [OF this assms(2)]
  show ?thesis using assms(2) by (simp add: removeSite_def Let_def cut abortHostLookup_def split: option.split)
qed

lemma removeSite_inv:
  assumes "siteInv sl"
  shows "siteInv (snd (removeSite h sl))"
proof (cases "h \<in> fst ` set (m_sites sl)")
  case True
  let ?sites = "filter (\<lambda>s. fst s \<noteq> h) (m_sites sl)"
  have "list_all siteOk ?sites" using assms by (simp add: siteInv_def list_all_iff)
  moreover have "qvalue (qremove h (m_siteChecks sl)) h' \<noteq> None \<longrightarrow> h' \<in> fst ` set ?sites" for h'
    using assms by (force simp: siteInv_def split: if_splits)
  moreover have "showsSites ?sites (siteIps (vpnSites (removeVpnSite (m_currentRouteMode sl) h (settings sl)) (m_currentRouteMode sl)))"
    using assms by (intro store.shows_remove) (simp add: siteInv_def)
  moreover have "lookInv (m_siteChecks sl) (openLookups sl) (nextLookup sl)" using assms by (simp add: siteInv_def)
  note lookInv_remove [OF this, of h]
  moreover have "numbered (startedLookups sl) (nextLookup sl)" "set (openLookups sl) \<subseteq> set (startedLookups sl)"
    using assms by (simp_all add: siteInv_def)
  then have "set (case qvalue (m_siteChecks sl) h of None \<Rightarrow> openLookups sl | Some c \<Rightarrow>
      if lookupId c \<ge> 0 then filter (\<lambda>l. fst l \<noteq> lookupId c) (openLookups sl) else openLookups sl) \<subseteq> set (startedLookups sl)"
    by (auto split: option.splits if_splits)
  ultimately show ?thesis
    using \<open>numbered (startedLookups sl) (nextLookup sl)\<close> unfolding removeSite_eq [OF assms True] siteInv_def by simp
qed (simp add: removeSite_def assms)

lemma removeSites_inv: "siteInv sl \<Longrightarrow> siteInv (removeSites sl)"
  using store.shows_clear
  by (auto simp: removeSites_def Let_def clearChecks_eq siteInv_def lookInv_Nil lookInv_def [of _ _ "nextLookup sl"])

lemma fillSites_inv:
  assumes "m_siteChecks sl = []" and "openLookups sl = []" and "0 \<le> nextLookup sl" and "fillSites sl = Some sl'"
    and "numbered (startedLookups sl) (nextLookup sl)"
  shows "siteInv sl'" "m_siteChecks sl' = []" "m_currentRouteMode sl' = m_currentRouteMode sl"
proof -
  let ?mode = "m_currentRouteMode sl" and ?map = "vpnSites (settings sl) (m_currentRouteMode sl)"
  obtain new where new: "normalizeSites (map (\<lambda>(key, v). (key, siteIpList v)) ?map) [] = Some new"
    using assms(4) by (auto simp: fillSites_def Let_def)
  then have ok: "qmapWf new" "list_all siteOk new" using normalizeSites_ok [OF new] by simp_all
  let ?stored = "map (\<lambda>(host, ips). (host, VStringList ips)) new"
  have sl': "sl' = (if ?stored \<noteq> ?map
      then sl\<lparr>m_sites := new, settings := addVpnSites ?mode new (removeAllVpnSites ?mode (settings sl))\<rparr>
      else sl\<lparr>m_sites := new\<rparr>)"
    using assms(4) new by (auto simp: fillSites_def Let_def)
  have "map_of new h = siteIps ?stored h" for h
    using ok(2) by (induction new) (auto simp: siteIps_def qvalue_def siteOk_def siteIpList_list)
  then have "showsSites new (siteIps ?stored)" using qmapWf_distinct [OF ok(1)] by (simp add: showsSites_def)
  moreover have "showsSites new (siteIps (vpnSites (addVpnSites ?mode new (removeAllVpnSites ?mode (settings sl))) ?mode))"
    using store.shows_addAll [OF store.shows_clear qmapWf_distinct [OF ok(1)] ok_ips [OF ok(2)], of ?mode "settings sl"]
      fold_mergeOrAppend_fresh [of "[]" new] qmapWf_distinct [OF ok(1)] by simp
  ultimately show "siteInv sl'"
    using ok assms(1-3,5) by (auto simp: sl' siteInv_def lookInv_Nil)
  show "m_siteChecks sl' = []" "m_currentRouteMode sl' = ?mode" using assms(1) by (simp_all add: sl')
qed

lemma changeRouteMode_inv:
  assumes "siteInv sl" and "changeRouteMode mode sl = Some sl'"
  shows "siteInv sl'"
proof -
  have look: "lookInv (m_siteChecks sl) (openLookups sl) (nextLookup sl)" using assms(1) by (simp add: siteInv_def)
  then obtain sl1 where "fillSites (sl\<lparr>openLookups := [], m_siteChecks := [], m_currentRouteMode := mode\<rparr>) = Some sl1"
      and sl': "sl' = sl1\<lparr>settings := setRouteMode mode (settings sl1)\<rparr>"
    using assms(2) by (auto simp: changeRouteMode_def clearChecks_eq)
  then have "siteInv sl1" using look assms(1) by (intro fillSites_inv(1)) (auto simp: lookInv_def siteInv_def)
  then show ?thesis by (simp add: sl' siteInv_def)
qed

lemma newSiteList_inv: "newSiteList st = Some sl \<Longrightarrow> siteInv sl"
  by (auto simp: newSiteList_def Let_def split: if_splits intro!: fillSites_inv(1))

lemma toggle_inv: "siteInv sl \<Longrightarrow> siteInv (toggleSplitTunneling b sl)"
  by (simp add: toggleSplitTunneling_def siteInv_def)

lemma trimmed_dotted: "trimmed (dotted a b c d) = dotted a b c d"
proof (rule trimmed_id)
  have "isDigit (hd (dotted a b c d))" "isDigit (last (dotted a b c d))"
    using digits_ends [OF showNat_digits [of a]] digits_ends [OF showNat_digits [of d]] by (simp_all add: dotted_def)
  then show "dotted a b c d = [] \<or> \<not> qisSpace (hd (dotted a b c d)) \<and> \<not> qisSpace (last (dotted a b c d))"
    by (simp add: isDigit_not_space)
qed

lemma ipv4Texts_ok: "ip \<in> set (ipv4Texts addrs) \<Longrightarrow> ip \<noteq> [] \<and> trimmed ip = ip"
  by (auto simp: ipv4Texts_def dottedWord_def trimmed_dotted split: hostAddress.splits)

lemma map_of_open:
  "lookInv checks open next \<Longrightarrow> map_of open i = Some h \<Longrightarrow> \<exists>c. qvalue checks h = Some c \<and> check_state c = Resolving \<and> lookupId c = i"
  using map_of_SomeD [of "open" i h] lookInv_open [of checks "open" "next" i h] by simp

text \<open>A result that is delivered is always that of the check under way.\<close>

definition lookupOutcome :: "string \<Rightarrow> hostInfo \<Rightarrow> siteList \<Rightarrow> siteList" where
  "lookupOutcome h info sl =
     (let ips = removeDuplicates (ipv4Texts (addresses info));
          good = (info_error info = None \<and> ips \<noteq> []);
          error = (case info_error info of None \<Rightarrow> ''No IPv4 addresses returned'' | Some e \<Rightarrow> e);
          sl = sl\<lparr>openLookups := filter (\<lambda>l. fst l \<noteq> info_lookupId info) (openLookups sl),
                  m_siteChecks := qinsert h (if good then mkCheck Resolved [] (-1) else mkCheck Failed error (-1)) (m_siteChecks sl),
                  siteCheckChanged := siteCheckChanged sl @ [h]\<rparr>
      in if good then processSiteAfterResolve h ips sl else sl)"

lemma lookupDone_eq:
  assumes "siteInv sl" and "map_of (openLookups sl) (info_lookupId info) = Some h"
  shows "onHostResolved h info (abortHostLookup (info_lookupId info) sl) = lookupOutcome h info sl"
proof -
  obtain c where "qvalue (m_siteChecks sl) h = Some c" "check_state c = Resolving" "lookupId c = info_lookupId info"
    using map_of_open [OF _ assms(2)] assms(1) unfolding siteInv_def by blast
  then show ?thesis
    by (cases sl) (simp add: onHostResolved_def abortHostLookup_def lookupOutcome_def Let_def processSiteAfterResolve_def
        split: option.split)
qed

text \<open>The call-back of an open look-up has its host; a result of any other look-up changes nothing.\<close>

lemma map_of_started:
  assumes "siteInv sl" and "map_of (openLookups sl) i = Some h"
  shows "map_of (startedLookups sl) i = Some h"
proof -
  have "(i, h) \<in> set (startedLookups sl)" using map_of_SomeD [OF assms(2)] assms(1) by (auto simp: siteInv_def)
  then show ?thesis using assms(1) by (simp add: siteInv_def numbered_def)
qed

lemma stale_ignored:
  assumes "siteInv sl" and "map_of (openLookups sl) (info_lookupId info) = None"
  shows "siteStep (LookupDone info) sl = Some sl"
proof (cases "map_of (startedLookups sl) (info_lookupId info)")
  case (Some h)
  have closed: "info_lookupId info \<notin> fst ` set (openLookups sl)" using assms(2) by (simp add: map_of_eq_None_iff)
  then have "abortHostLookup (info_lookupId info) sl = sl"
    by (cases sl) (force simp: abortHostLookup_def intro!: filter_True)
  moreover have "onHostResolved h info sl = sl"
  proof (cases "qvalue (m_siteChecks sl) h")
    case (Some c)
    have "check_state c \<noteq> Resolving \<or> lookupId c \<noteq> info_lookupId info"
      using lookInv_open [of "m_siteChecks sl" "openLookups sl" "nextLookup sl" "info_lookupId info" h] assms(1) closed Some
      by (force simp: siteInv_def)
    with Some show ?thesis by (simp add: onHostResolved_def)
  qed (simp add: onHostResolved_def)
  ultimately show ?thesis using Some by simp
qed simp

lemma lookupDone_step:
  assumes "siteInv sl"
  shows "siteStep (LookupDone info) sl = Some (case map_of (openLookups sl) (info_lookupId info) of
     None \<Rightarrow> sl | Some h \<Rightarrow> lookupOutcome h info sl)"
  using stale_ignored [OF assms, of info] map_of_started [OF assms, of "info_lookupId info"] lookupDone_eq [OF assms, of info]
  by (cases "map_of (openLookups sl) (info_lookupId info)") auto

lemma processSite_list:
  assumes "siteInv sl" and "h \<in> fst ` set (m_sites sl)" and "list_all (\<lambda>ip. trimmed ip = ip) ips"
  obtains sites where "mergeSite h ips (m_sites sl) = Some sites" "fst ` set sites = fst ` set (m_sites sl)"
    "list_all siteOk sites"
    "showsSites sites (siteIps (vpnSites (snd (addVpnSite (m_currentRouteMode sl) h ips (settings sl))) (m_currentRouteMode sl)))"
proof -
  obtain sites where sites: "mergeSite h ips (m_sites sl) = Some sites" using assms(2) mergeSite_None [of h ips] by fastforce
  have "list_all siteOk sites" using list_all_mergeSite [OF sites assms(3)] assms(1) by (simp add: siteInv_def)
  moreover have "fst ` set sites = fst ` set (m_sites sl)" using mergeSite_Some [OF sites] by (metis list.set_map)
  ultimately show thesis
    using that [OF sites] store.shows_merge [OF _ sites, where mode = "m_currentRouteMode sl" and st = "settings sl"] assms(1)
    by (simp add: siteInv_def)
qed

lemma lookupOutcome_inv:
  assumes "siteInv sl" and "map_of (openLookups sl) (info_lookupId info) = Some h"
  shows "siteInv (lookupOutcome h info sl)"
proof -
  have look: "lookInv (m_siteChecks sl) (openLookups sl) (nextLookup sl)" using assms(1) by (simp add: siteInv_def)
  obtain c where c: "qvalue (m_siteChecks sl) h = Some c" "check_state c = Resolving" "lookupId c = info_lookupId info"
    using map_of_open [OF look assms(2)] by auto
  then have known: "h \<in> fst ` set (m_sites sl)" using assms(1) by (auto simp: siteInv_def)
  have close: "lookInv (qinsert h (mkCheck s e (-1)) (m_siteChecks sl))
      (filter (\<lambda>l. fst l \<noteq> info_lookupId info) (openLookups sl)) (nextLookup sl)" if "s \<noteq> Resolving" for s e
    using lookInv_close [OF look c(1,2), of "qinsert h (mkCheck s e (-1)) (m_siteChecks sl)"] that c(3) by (simp add: mkCheck_def)
  let ?ips = "removeDuplicates (ipv4Texts (addresses info))"
  have trim: "list_all (\<lambda>ip. trimmed ip = ip) ?ips" by (simp add: list_all_iff ipv4Texts_ok)
  obtain sites where sites: "mergeSite h ?ips (m_sites sl) = Some sites" "fst ` set sites = fst ` set (m_sites sl)"
    "list_all siteOk sites"
    "showsSites sites (siteIps (vpnSites (snd (addVpnSite (m_currentRouteMode sl) h ?ips (settings sl))) (m_currentRouteMode sl)))"
    using processSite_list [OF assms(1) known trim] .
  show ?thesis
    using assms(1) sites close known
    by (auto simp: lookupOutcome_def Let_def siteInv_def processSiteAfterResolve_def)
qed

lemma importSites_inv:
  "siteInv sl \<Longrightarrow> importSitesFromJson parsed b sl = Some (Inr sl') \<Longrightarrow> siteInv sl'"
  using addSites_inv by (auto simp: importSitesFromJson_def Option.bind_eq_Some_conv split: sum.splits json.splits)

lemma siteStep_inv:
  assumes "siteInv sl" and "siteStep x sl = Some sl'"
  shows "siteInv sl'"
proof (cases x)
  case (Import parsed b)
  then obtain r where "importSitesFromJson parsed b sl = Some r" "sl' = (case r of Inl message \<Rightarrow> sl | Inr sl' \<Rightarrow> sl')"
    using assms(2) by auto
  then show ?thesis using assms(1) importSites_inv by (cases r) auto
next
  case (LookupDone info)
  then show ?thesis using assms lookupDone_step [OF assms(1), of info] lookupOutcome_inv [OF assms(1), of info]
    by (auto simp del: siteStep.simps split: option.splits)
qed (use assms in \<open>auto intro: addSite_inv addSites_inv removeSite_inv removeSites_inv changeRouteMode_inv toggle_inv
       checkSite_inv(1)\<close>)

lemma siteRun_inv: "siteInv sl \<Longrightarrow> siteRun xs sl = Some sl' \<Longrightarrow> siteInv sl'"
  by (induction xs sl rule: siteRun.induct) (auto simp: Option.bind_eq_Some_conv dest: siteStep_inv)

text \<open>The mode of the list is the stored one.\<close>

lemma storedRouteMode_ops [simp]:
  "storedRouteMode (snd (addVpnSite mode site ips st)) = storedRouteMode st"
  "storedRouteMode (addVpnSites mode new st) = storedRouteMode st"
  "storedRouteMode (removeVpnSite mode site st) = storedRouteMode st"
  "storedRouteMode (removeAllVpnSites mode st) = storedRouteMode st"
  "storedRouteMode (setSitesSplitTunnelingEnabled b st) = storedRouteMode st"
  "storedRouteMode (setRouteMode mode st) = mode"
  by (simp_all add: addVpnSite_def addVpnSites_def removeVpnSite_def removeAllVpnSites_def setSitesSplitTunnelingEnabled_def
      setRouteMode_def setVpnSites_def Let_def split: prod.split)

definition modeOf :: "siteList \<Rightarrow> routeMode \<times> routeMode" where
  "modeOf sl = (m_currentRouteMode sl, storedRouteMode (settings sl))"

lemma modeOf_clear [simp]: "modeOf (clearChecks sl) = modeOf sl"
  by (simp add: modeOf_def clearChecks_def fold_abort)

lemma clearChecks_fields [simp]:
  "m_currentRouteMode (clearChecks sl) = m_currentRouteMode sl" "settings (clearChecks sl) = settings sl"
  by (simp_all add: clearChecks_def fold_abort)

lemma modeOf_check: "checkSite h sl = Some sl' \<Longrightarrow> modeOf sl' = modeOf sl"
  by (auto simp: checkSite_def Let_def modeOf_def split: if_splits)

lemma modeOf_checks: "checkSites sites sl = Some sl' \<Longrightarrow> modeOf sl' = modeOf sl"
  by (induction sites sl rule: checkSites.induct) (auto simp: Option.bind_eq_Some_conv modeOf_check split: if_splits)

lemma modeOf_addSites: "addSites sites b sl = Some sl' \<Longrightarrow> modeOf sl' = modeOf sl"
  by (auto simp: addSites_eq Option.bind_eq_Some_conv dest!: modeOf_checks)
     (simp add: modeOf_def addedSites_def Let_def)

lemma modeOf_addSiteInternal: "modeOf (snd (addSiteInternal h ips sl)) = modeOf sl"
  by (simp add: addSiteInternal_def Let_def modeOf_def split: option.split)

lemma modeOf_addSite: "addSite t sl = Some (b, sl') \<Longrightarrow> modeOf sl' = modeOf sl"
  using modeOf_addSiteInternal modeOf_check
  by (auto simp: addSite_def split: option.splits if_splits prod.splits bool.splits) (metis snd_conv)+

lemma modeOf_fill: "fillSites sl = Some sl' \<Longrightarrow> modeOf sl' = modeOf sl"
  by (auto simp: fillSites_def Let_def modeOf_def)

lemma modeOf_resolved: "modeOf (onHostResolved h info sl) = modeOf sl"
  by (simp add: onHostResolved_def processSiteAfterResolve_def modeOf_def Let_def split: option.split)

lemma siteStep_mode:
  assumes "siteStep x sl = Some sl'" and "m_currentRouteMode sl = storedRouteMode (settings sl)"
  shows "m_currentRouteMode sl' = storedRouteMode (settings sl')"
proof -
  have same: "modeOf sl' = modeOf sl \<Longrightarrow> ?thesis" using assms(2) by (simp add: modeOf_def)
  show ?thesis
  proof (cases x)
    case (ChangeRouteMode mode)
    then show ?thesis using assms(1) by (auto simp: changeRouteMode_def dest!: modeOf_fill simp: modeOf_def)
  next
    case (Import parsed b)
    then obtain r where r: "importSitesFromJson parsed b sl = Some r" "sl' = (case r of Inl message \<Rightarrow> sl | Inr sl' \<Rightarrow> sl')"
      using assms(1) by auto
    then have "modeOf sl' = modeOf sl"
      by (cases r) (auto simp: importSitesFromJson_def Option.bind_eq_Some_conv modeOf_addSites split: sum.splits json.splits)
    then show ?thesis by (rule same)
  next
    case (LookupDone info)
    then show ?thesis using assms(1)
      by (intro same) (auto simp: modeOf_resolved split: option.splits, simp add: modeOf_def abortHostLookup_def)
  next
    case (RemoveSite h)
    then show ?thesis using assms(1)
      by (intro same) (auto simp: modeOf_def removeSite_def Let_def abortHostLookup_def split: option.split)
  qed (use assms(1) in \<open>auto intro!: same simp: modeOf_addSites modeOf_addSite modeOf_check\<close>,
       simp_all add: modeOf_def removeSites_def toggleSplitTunneling_def Let_def assms(2))
qed

lemma newSiteList_mode: "newSiteList st = Some sl \<Longrightarrow> m_currentRouteMode sl = storedRouteMode (settings sl)"
  by (auto simp: newSiteList_def Let_def modeOf_def split: if_splits dest!: modeOf_fill)

lemma siteRun_mode:
  "siteRun xs sl = Some sl' \<Longrightarrow> m_currentRouteMode sl = storedRouteMode (settings sl) \<Longrightarrow>
     m_currentRouteMode sl' = storedRouteMode (settings sl')"
  by (induction xs sl rule: siteRun.induct) (auto simp: Option.bind_eq_Some_conv dest: siteStep_mode)

lemma lookupDone_sites:
  assumes "siteInv sl"
  shows "\<exists>sl'. siteStep (LookupDone info) sl = Some sl' \<and> map_of (m_sites sl') h =
     (if map_of (openLookups sl) (info_lookupId info) = Some h \<and> info_error info = None
      then map_option (\<lambda>ips. mergeIps ips (removeDuplicates (ipv4Texts (addresses info)))) (map_of (m_sites sl) h)
      else map_of (m_sites sl) h)"
proof (cases "map_of (openLookups sl) (info_lookupId info)")
  case (Some host)
  let ?ips = "removeDuplicates (ipv4Texts (addresses info))"
  have step: "siteStep (LookupDone info) sl = Some (lookupOutcome host info sl)" using Some lookupDone_step [OF assms, of info] by simp
  obtain c where "qvalue (m_siteChecks sl) host = Some c"
    using map_of_open [OF _ Some] assms unfolding siteInv_def by blast
  then have known: "host \<in> fst ` set (m_sites sl)" using assms by (auto simp: siteInv_def)
  then obtain sites where sites: "mergeSite host ?ips (m_sites sl) = Some sites"
    using mergeSite_None [of host ?ips "m_sites sl"] by fastforce
  show ?thesis
  proof (cases "info_error info = None \<and> ?ips \<noteq> []")
    case True
    then show ?thesis using step Some mergeSite_Some [OF sites]
      by (auto simp: lookupOutcome_def Let_def processSiteAfterResolve_def sites)
  next
    case False
    then have "m_sites (lookupOutcome host info sl) = m_sites sl" by (auto simp: lookupOutcome_def Let_def)
    then show ?thesis using step Some False by (auto simp: option.map_ident)
  qed
qed (use stale_ignored [OF assms, of info] in simp)

section \<open>Import of an export\<close>

definition canonicalSites :: "siteList \<Rightarrow> bool" where
  "canonicalSites sl \<longleftrightarrow> list_all (\<lambda>site. normalizeHostText (fst site) = Some (fst site)) (m_sites sl)"

lemma canonical_rule:
  assumes "normalizeHostText h = Some h" and "validateHostname h = Some True"
  obtains rule where "fromText h = Some rule" "normalizedText rule = h" "trimmed h = h"
proof -
  obtain rule where r: "fromText h = Some rule" "isValid rule" using assms(2) by (auto simp: validateHostname_def)
  have n: "rule_value rule = h" "normalizedText rule = h" using fromText_cases [OF r(1)] assms(1) by (metis option.inject)+
  have "hostClean h" using valid_rule_clean [OF r] n(1) by simp
  then have "trimmed h = h" by (intro trimmed_id) (auto simp: hostClean_def list_all_iff)
  then show thesis using that r(1) n(2) by blast
qed

lemma exportSite_fields:
  "jvalue (jToObject (exportSite (h, ips))) ''hostname'' = JStr h"
  "jvalue (jToObject (exportSite (h, ips))) ''ips'' = JArr (map JStr ips)"
  "jvalue (jToObject (exportSite (h, ips))) ''ip'' = JStr (case ips of [] \<Rightarrow> [] | ip # _ \<Rightarrow> ip)"
  by (simp_all add: exportSite_def jvalue_def qvalue_def)

lemma importIps_exportSite:
  assumes "ipsOk ips"
  shows "importIps (jToObject (exportSite (h, ips))) = ips"
proof -
  let ?ip = "case ips of [] \<Rightarrow> [] | ip # _ \<Rightarrow> ip"
  have same: "removeDuplicates (removeAll [] (ips @ xs)) = ips" if "set xs \<subseteq> set ips" for xs
    using assms that appendNew_distinct [of "[]" ips]
    by (auto simp: ipsOk_def removeDuplicates_def appendNew_append intro!: appendNew_subset)
  have "importIps (jToObject (exportSite (h, ips))) = removeDuplicates (removeAll [] (ips @ (if ?ip \<noteq> [] then [?ip] else [])))"
    by (simp add: importIps_def exportSite_fields Let_def o_def)
  also have "\<dots> = ips" by (rule same) (auto split: list.splits)
  finally show ?thesis .
qed

lemma importEntries_export:
  assumes "list_all siteOk sites" and "list_all (\<lambda>site. normalizeHostText (fst site) = Some (fst site)) sites"
  shows "importEntries (map exportSite sites) acc = Some (fold (\<lambda>(h, ips). qinsert h ips) sites acc)"
  using assms
proof (induction sites arbitrary: acc)
  case (Cons site sites)
  obtain h ips where site: "site = (h, ips)" by (cases site)
  have ok: "validateHostname h = Some True" "ipsOk ips" using Cons.prems site by (simp_all add: siteOk_def)
  have "normalizeHostText h = Some h" using Cons.prems site by simp
  then obtain rule where "fromText h = Some rule" "normalizedText rule = h" "trimmed h = h" using ok(1) by (rule canonical_rule)
  then show ?case using Cons site ok importIps_exportSite [OF ok(2), of h] by (simp add: Let_def exportSite_fields)
qed simp

lemma normalizeSites_canonical:
  assumes "list_all siteOk sites" and "list_all (\<lambda>site. normalizeHostText (fst site) = Some (fst site)) sites"
    and "distinct (map fst sites)" and "\<forall>site \<in> set sites. qvalue acc (fst site) = None"
  shows "normalizeSites sites acc = Some (fold (\<lambda>(h, ips). qinsert h ips) sites acc)"
  using assms
proof (induction sites arbitrary: acc)
  case (Cons site sites)
  obtain h ips where site: "site = (h, ips)" by (cases site)
  have ok: "validateHostname h = Some True" "ipsOk ips" "map trimmed ips = ips"
    using Cons.prems site by (auto simp: siteOk_def list_all_iff intro: map_idI)
  have "normalizeHostText h = Some h" using Cons.prems site by simp
  then obtain rule where "fromText h = Some rule" "normalizedText rule = h" using ok(1) by (rule canonical_rule)
  moreover have "\<forall>s \<in> set sites. qvalue (qinsert h ips acc) (fst s) = None" using Cons.prems site by force
  then have "normalizeSites sites (qinsert h ips acc) = Some (fold (\<lambda>(h, ips). qinsert h ips) sites (qinsert h ips acc))"
    using Cons by simp
  ultimately show ?case using Cons.prems(4) site ok by (simp add: Let_def mergeIps_fresh)
qed simp

lemma checkSites_defined:
  assumes "list_all siteOk sites"
  shows "\<exists>sl'. checkSites sites sl = Some sl'"
  using assms
proof (induction sites arbitrary: sl)
  case (Cons site sites)
  obtain h ips where site: "site = (h, ips)" by (cases site)
  have "fromText h \<noteq> None" using Cons.prems site by (auto simp: siteOk_def validateHostname_def)
  then obtain sl1 where "checkSite h sl = Some sl1" by (auto simp: checkSite_def)
  with Cons site show ?case by auto
qed simp

section \<open>Correctness of the site list\<close>

text \<open>C9. The list that the user sees is the stored list: after every run of the controller its copy has each site once, says
  the same about every site as the settings of the current mode, which is the stored mode, holds only valid rules
  with addresses that are neither empty nor repeated, and every check belongs to a listed site.\<close>

theorem site_list_mirrors_settings:
  assumes "newSiteList st = Some sl0" and "siteRun xs sl0 = Some sl"
  shows "distinct (map fst (m_sites sl)) \<and> m_currentRouteMode sl = storedRouteMode (settings sl) \<and>
    (\<forall>h. map_of (m_sites sl) h = siteIps (vpnSites (settings sl) (storedRouteMode (settings sl))) h) \<and>
    list_all siteOk (m_sites sl) \<and> (\<forall>h. qvalue (m_siteChecks sl) h \<noteq> None \<longrightarrow> h \<in> fst ` set (m_sites sl))"
  using siteRun_inv [OF newSiteList_inv [OF assms(1)] assms(2)] siteRun_mode [OF assms(2) newSiteList_mode [OF assms(1)]]
  by (simp add: siteInv_def showsSites_def)

definition emptySettings :: appSettings where
  "emptySettings = \<lparr>storedRouteMode = VpnAllSites, storedSites = (\<lambda>mode. []),
     isSitesSplitTunnelingEnabled = False, useAmneziaDns = True, isKillSwitchEnabled = True, storedDnsServers = [],
     isAppsSplitTunnelingEnabled = False, appsRouteMode = VpnAllApps, vpnApps = (\<lambda>mode. []), emitted = []\<rparr>"

definition exampleOps :: "siteOp list" where
  "exampleOps = [AddSite ''https://Ya.ru/maps'', AddSite ''*.ru'',
     LookupDone \<lparr>info_lookupId = 0, info_error = None, addresses = [HostIPv4 0x05060708, HostIPv6 1]\<rparr>]"

definition exampleList :: siteList where
  "exampleList = the (Option.bind (newSiteList emptySettings) (siteRun exampleOps))"

lemma newSiteList_empty: "newSiteList emptySettings \<noteq> None"
  by (simp add: newSiteList_def fillSites_def emptySettings_def Let_def setRouteMode_def vpnSites_def)

lemma exampleRun: "Option.bind (newSiteList emptySettings) (siteRun exampleOps) \<noteq> None"
  by code_simp

lemma exampleRun_parts:
  obtains sl0 where "newSiteList emptySettings = Some sl0" "siteRun exampleOps sl0 = Some exampleList"
  using exampleRun by (auto simp: exampleList_def Option.bind_eq_Some_conv)

lemma exampleList_sites: "m_sites exampleList = [(''ya.ru'', [''5.6.7.8'']), (''*.ru'', [])]"
  by code_simp

theorem site_list_mirrors_settings_witness:
  "siteIps (vpnSites (settings exampleList) (storedRouteMode (settings exampleList))) ''ya.ru'' = Some [''5.6.7.8'']"
proof -
  obtain sl0 where "newSiteList emptySettings = Some sl0" "siteRun exampleOps sl0 = Some exampleList" by (rule exampleRun_parts)
  from site_list_mirrors_settings [OF this] show ?thesis by (metis exampleList_sites map_of_Cons_code(2))
qed

text \<open>C16. Look-ups follow the list: in every run the open look-ups are exactly those of the checks under way, each with its
  own number, and every check belongs to a listed site. Results may be delivered at any time for any look-up that was ever
  started: the result of an open look-up that succeeded is stored for its site and for no other, and a result of a look-up
  that is not open (aborted because its site was removed or the list replaced, or answered before) changes nothing at
  all.\<close>

theorem lookups_follow_list:
  assumes "newSiteList st = Some sl0" and "siteRun xs sl0 = Some sl"
  shows "((i, h) \<in> set (openLookups sl) \<longleftrightarrow>
       (\<exists>c. qvalue (m_siteChecks sl) h = Some c \<and> check_state c = Resolving \<and> lookupId c = i)) \<and>
    distinct (map fst (openLookups sl)) \<and>
    (qvalue (m_siteChecks sl) h \<noteq> None \<longrightarrow> h \<in> fst ` set (m_sites sl)) \<and>
    (map_of (openLookups sl) (info_lookupId info) = None \<longrightarrow> siteStep (LookupDone info) sl = Some sl) \<and>
    (\<exists>sl'. siteStep (LookupDone info) sl = Some sl' \<and> map_of (m_sites sl') h =
       (if map_of (openLookups sl) (info_lookupId info) = Some h \<and> info_error info = None
        then map_option (\<lambda>ips. mergeIps ips (removeDuplicates (ipv4Texts (addresses info)))) (map_of (m_sites sl) h)
        else map_of (m_sites sl) h))"
proof -
  have inv: "siteInv sl" using siteRun_inv [OF newSiteList_inv [OF assms(1)] assms(2)] .
  then have look: "lookInv (m_siteChecks sl) (openLookups sl) (nextLookup sl)" by (simp add: siteInv_def)
  have "distinct (map fst (openLookups sl))" using look by (simp add: lookInv_def)
  moreover have "qvalue (m_siteChecks sl) h \<noteq> None \<longrightarrow> h \<in> fst ` set (m_sites sl)" using inv by (simp add: siteInv_def)
  ultimately show ?thesis
    using lookInv_open [OF look, of i h] lookupDone_sites [OF inv, of info h] stale_ignored [OF inv, of info] by blast
qed

text \<open>The result of the look-up of \<^verbatim>\<open>ya.ru\<close> is delivered once more: the list stays as it is.\<close>

theorem lookups_follow_list_witness:
  "map_of (startedLookups exampleList) 0 = Some ''ya.ru'' \<and>
   siteStep (LookupDone \<lparr>info_lookupId = 0, info_error = None, addresses = [HostIPv4 1]\<rparr>) exampleList = Some exampleList"
proof -
  obtain sl0 where "newSiteList emptySettings = Some sl0" "siteRun exampleOps sl0 = Some exampleList" by (rule exampleRun_parts)
  note at = lookups_follow_list [OF this, of 0 "''ya.ru''" "\<lparr>info_lookupId = 0, info_error = None, addresses = [HostIPv4 1]\<rparr>"]
  have "openLookups exampleList = []" "map_of (startedLookups exampleList) 0 = Some ''ya.ru''" by code_simp+
  with at show ?thesis by (auto simp del: siteStep.simps)
qed

lemma addSite_sites:
  assumes "siteInv sl" and "fromText t = Some rule" and "validateHostname (normalizedText rule) = Some True"
    and "addSite t sl = Some (added, sl')"
  shows "m_sites sl' = (if normalizedText rule \<in> fst ` set (m_sites sl) then m_sites sl else m_sites sl @ [(normalizedText rule, [])])"
    and "added \<longleftrightarrow> rule_type rule \<noteq> ExactHost \<or> normalizedText rule \<notin> fst ` set (m_sites sl)"
proof -
  let ?h = "normalizedText rule"
  have exact: "rule_type rule = IpSubnet \<or> isDynamicHostRule rule \<longleftrightarrow> rule_type rule \<noteq> ExactHost"
    by (cases "rule_type rule") (simp_all add: isDynamicHostRule_def)
  obtain b sl1 where i: "addSiteInternal ?h [] sl = (b, sl1)" by fastforce
  then have b: "b \<longleftrightarrow> ?h \<notin> fst ` set (m_sites sl)"
    and sl1: "m_sites sl1 = (if ?h \<in> fst ` set (m_sites sl) then m_sites sl else m_sites sl @ [(?h, [])])"
    using addSiteInternal_eq [OF assms(1), of ?h] by (auto split: if_splits)
  have "siteInv sl1" using addSiteInternal_inv [OF assms(1,3)] i by simp
  note kept = checkSite_inv(2) [OF this]
  have step: "(if rule_type rule \<noteq> ExactHost then Some (True, sl1)
      else if b then map_option (Pair True) (checkSite ?h sl1) else Some (False, sl1)) = Some (added, sl')"
    using assms(2-4) exact by (cases b) (simp_all add: addSite_def i split: if_splits)
  show "m_sites sl' = (if ?h \<in> fst ` set (m_sites sl) then m_sites sl else m_sites sl @ [(?h, [])])"
    using step unfolding sl1 [symmetric] by (auto split: if_splits dest!: kept)
  show "added \<longleftrightarrow> rule_type rule \<noteq> ExactHost \<or> ?h \<notin> fst ` set (m_sites sl)"
    using step unfolding b [symmetric] by (auto split: if_splits)
qed

text \<open>Adding a site: a text that is no valid rule is refused and nothing changes; otherwise the normalised rule is in the
  list afterwards, with the addresses it had before or none, every other site is as it was, and the answer is false exactly
  for a host that was listed already.\<close>

theorem add_site_result:
  assumes "newSiteList st = Some sl0" and "siteRun xs sl0 = Some sl"
    and "fromText t = Some rule" and "validateHostname (normalizedText rule) = Some valid"
  shows "\<exists>added sl'. addSite t sl = Some (added, sl') \<and>
    (if \<not> valid then \<not> added \<and> sl' = sl
     else let h = normalizedText rule; known = h \<in> fst ` set (m_sites sl) in
       map_of (m_sites sl') = (if known then map_of (m_sites sl) else (map_of (m_sites sl))(h \<mapsto> [])) \<and>
       (added \<longleftrightarrow> rule_type rule \<noteq> ExactHost \<or> \<not> known) \<and>
       (\<forall>h'. map_of (m_sites sl') h' = siteIps (vpnSites (settings sl') (storedRouteMode (settings sl'))) h'))"
proof -
  have inv: "siteInv sl" using siteRun_inv [OF newSiteList_inv [OF assms(1)] assms(2)] .
  have mode: "m_currentRouteMode sl = storedRouteMode (settings sl)" by (rule siteRun_mode [OF assms(2) newSiteList_mode [OF assms(1)]])
  let ?h = "normalizedText rule"
  obtain rule' where "fromText ?h = Some rule'" using assms(4) by (auto simp: validateHostname_def)
  then have "checkSite ?h sl1 \<noteq> None" for sl1 by (simp add: checkSite_def)
  then have "addSite t sl \<noteq> None" using assms(3,4) by (auto simp: addSite_def split: prod.split bool.split)
  then obtain added sl' where step: "addSite t sl = Some (added, sl')" by fast
  have "siteInv sl'" "modeOf sl' = modeOf sl" using addSite_inv [OF inv step] modeOf_addSite [OF step] .
  then have shown: "map_of (m_sites sl') h' = siteIps (vpnSites (settings sl') (storedRouteMode (settings sl'))) h'" for h'
    using mode by (simp add: siteInv_def showsSites_def modeOf_def)
  show ?thesis
  proof (cases valid)
    case True
    then have "validateHostname ?h = Some True" using assms(4) by simp
    note added = addSite_sites [OF inv assms(3) this step]
    show ?thesis using step True added shown by (auto simp: Let_def map_of_snoc_fresh simp del: map_of_append)
  qed (use assms(3,4) in \<open>auto simp: addSite_def\<close>)
qed

theorem add_site_result_witness:
  "\<exists>added sl'. addSite '' HTTP://ya.ru '' exampleList = Some (added, sl') \<and> \<not> added"
proof -
  obtain sl0 where run: "newSiteList emptySettings = Some sl0" "siteRun exampleOps sl0 = Some exampleList" by (rule exampleRun_parts)
  have r: "fromText '' HTTP://ya.ru '' = Some (mkRule ExactHost ''ya.ru'' ''ya.ru'')" by code_simp
  have v: "validateHostname (normalizedText (mkRule ExactHost ''ya.ru'' ''ya.ru'')) = Some True" by code_simp
  from add_site_result [OF run r v] show ?thesis by (auto simp: mkRule_def exampleList_sites Let_def)
qed

text \<open>C23. On every list whose names are their own normal form, importing what was exported, in place of the present list, gives
  the same sites with the same addresses, sorted by their names. (A name that is not is changed by the round trip: the
  normal form of \<^verbatim>\<open>https:// ya.ru\<close> keeps the blank that the import trims.)\<close>

theorem export_import_roundtrip:
  assumes "newSiteList st = Some sl0" and "siteRun xs sl0 = Some sl" and "canonicalSites sl"
  shows "\<exists>sl'. importSitesFromJson (Inr (exportSitesToJson sl)) True sl = Some (Inr sl') \<and>
    set (m_sites sl') = set (m_sites sl) \<and> sorted_wrt (<) (map fst (m_sites sl'))"
proof -
  have inv: "siteInv sl" using siteRun_inv [OF newSiteList_inv [OF assms(1)] assms(2)] .
  then have ok: "list_all siteOk (m_sites sl)" and d: "distinct (map fst (m_sites sl))" by (simp_all add: siteInv_def showsSites_def)
  define new where "new = fold (\<lambda>(h, ips). qinsert h ips) (m_sites sl) []"
  have wf: "qmapWf new" unfolding new_def by (rule qm.ok_fold_ins) simp
  have "map_of new h = map_of (m_sites sl) h" for h
    using qm.look_fold_ins [OF _ d, of "[]" h] by (simp add: new_def qvalue_def split: option.splits)
  then have "(h, ips) \<in> set new \<longleftrightarrow> (h, ips) \<in> set (m_sites sl)" for h ips
    using map_of_eq_Some_iff [OF d, of h ips] map_of_eq_Some_iff [OF qmapWf_distinct [OF wf], of h ips] by simp
  then have same: "set new = set (m_sites sl)" by auto
  then have ok': "list_all siteOk new" "list_all (\<lambda>site. normalizeHostText (fst site) = Some (fst site)) new"
    using ok assms(3) by (simp_all add: list_all_iff canonicalSites_def)
  have "normalizeSites new [] = Some (fold (\<lambda>(h, ips). qinsert h ips) new [])"
    by (rule normalizeSites_canonical [OF ok' qmapWf_distinct [OF wf]]) simp
  moreover have "fold (\<lambda>(h, ips). qinsert h ips) new [] = new"
    using qm.look_fold_ins [OF _ qmapWf_distinct [OF wf], of "[]"] wf
    by (intro qmap_ext qm.ok_fold_ins) (simp_all add: qvalue_def split: option.splits)
  moreover obtain sl' where sl': "checkSites new (addedSites new True sl) = Some sl'" using checkSites_defined [OF ok'(1)] by blast
  ultimately have "addSites new True sl = Some sl'" by (simp add: addSites_eq)
  moreover have "m_sites sl' = new"
    using checkSites_inv [OF addedSites_inv [OF inv wf ok'(1)] sl'] fold_mergeOrAppend_fresh [of "[]" new] qmapWf_distinct [OF wf]
    by (simp add: addedSites_def Let_def)
  ultimately show ?thesis
    using importEntries_export [OF ok, of "[]"] assms(3) same wf
    by (auto simp: importSitesFromJson_def exportSitesToJson_def canonicalSites_def new_def qmapWf_def)
qed

theorem export_import_roundtrip_witness:
  "\<exists>sl'. importSitesFromJson (Inr (exportSitesToJson exampleList)) True exampleList = Some (Inr sl') \<and>
     set (m_sites sl') = {(''ya.ru'', [''5.6.7.8'']), (''*.ru'', [])}"
proof -
  obtain sl0 where run: "newSiteList emptySettings = Some sl0" "siteRun exampleOps sl0 = Some exampleList" by (rule exampleRun_parts)
  have "canonicalSites exampleList" by code_simp
  from export_import_roundtrip [OF run this] show ?thesis by (auto simp: exampleList_sites)
qed

end
