(* ===== verification/App_List.thy ===== *)
theory App_List
  imports App_Settings
begin

text \<open>
  \<^verbatim>\<open>client/core/controllers/appSplitTunnelingController.cpp\<close>: the list of applications for split tunnelling, kept beside
  the list in the settings. The equality of \<^verbatim>\<open>InstalledAppInfo\<close> (\<^verbatim>\<open>client/core/utils/commonStructs.h\<close>) looks at the package
  name of its left side and is not symmetric; the order of its arguments is that of \<^verbatim>\<open>QVector::contains\<close>.
\<close>

section \<open>Settings\<close>

definition setAppsRouteMode :: "appsRouteMode \<Rightarrow> appSettings \<Rightarrow> appSettings" where
  "setAppsRouteMode mode st = signal (AppsRouteModeChanged mode) (st\<lparr>appsRouteMode := mode\<rparr>)"

definition setVpnApps :: "appsRouteMode \<Rightarrow> installedApp list \<Rightarrow> appSettings \<Rightarrow> appSettings" where
  "setVpnApps mode apps st = signal (AppsChanged mode) (st\<lparr>vpnApps := (vpnApps st)(mode := apps)\<rparr>)"

definition setAppsSplitTunnelingEnabled :: "bool \<Rightarrow> appSettings \<Rightarrow> appSettings" where
  "setAppsSplitTunnelingEnabled enabled st =
     signal (AppsSplitTunnelingEnabledChanged enabled) (st\<lparr>isAppsSplitTunnelingEnabled := enabled\<rparr>)"

section \<open>Controller\<close>

definition sameApp :: "installedApp \<Rightarrow> installedApp \<Rightarrow> bool" where
  "sameApp a b = (if packageName a \<noteq> [] then packageName a = packageName b else appPath a = appPath b)"

record appList =
  al_settings :: appSettings
  al_routeMode :: appsRouteMode
  m_apps :: "installedApp list"

definition newAppList :: "appSettings \<Rightarrow> appList" where
  "newAppList st =
     (if appsRouteMode st = VpnAllApps
      then \<lparr>al_settings = setAppsRouteMode VpnAllExceptApps st, al_routeMode = VpnAllExceptApps, m_apps = vpnApps st VpnAllExceptApps\<rparr>
      else \<lparr>al_settings = st, al_routeMode = appsRouteMode st, m_apps = vpnApps st (appsRouteMode st)\<rparr>)"

definition storeApps :: "installedApp list \<Rightarrow> appList \<Rightarrow> appList" where
  "storeApps apps l = l\<lparr>m_apps := apps, al_settings := setVpnApps (al_routeMode l) apps (al_settings l)\<rparr>"

definition addApp :: "installedApp \<Rightarrow> appList \<Rightarrow> bool \<times> appList" where
  "addApp appInfo l = (if list_ex (\<lambda>a. sameApp a appInfo) (m_apps l) then (False, l) else (True, storeApps (m_apps l @ [appInfo]) l))"

definition removeApp :: "int \<Rightarrow> appList \<Rightarrow> appList" where
  "removeApp index l =
     (if index < 0 \<or> index \<ge> int (length (m_apps l)) then l
      else storeApps (take (nat index) (m_apps l) @ drop (Suc (nat index)) (m_apps l)) l)"

definition clearAppsList :: "appList \<Rightarrow> appList" where
  "clearAppsList l = storeApps [] l"

definition changeAppsRouteMode :: "appsRouteMode \<Rightarrow> appList \<Rightarrow> appList" where
  "changeAppsRouteMode mode l = l\<lparr>al_routeMode := mode, m_apps := vpnApps (al_settings l) mode,
     al_settings := setAppsRouteMode mode (al_settings l)\<rparr>"

definition toggleAppSplitTunneling :: "bool \<Rightarrow> appList \<Rightarrow> appList" where
  "toggleAppSplitTunneling enabled l = l\<lparr>al_settings := setAppsSplitTunnelingEnabled enabled (al_settings l)\<rparr>"

datatype appOp = AddApp installedApp | RemoveApp int | ClearApps | SetAppsMode appsRouteMode | ToggleApps bool

fun appStep :: "appOp \<Rightarrow> appList \<Rightarrow> appList" where
  "appStep (AddApp a) l = snd (addApp a l)"
| "appStep (RemoveApp i) l = removeApp i l"
| "appStep ClearApps l = clearAppsList l"
| "appStep (SetAppsMode mode) l = changeAppsRouteMode mode l"
| "appStep (ToggleApps b) l = toggleAppSplitTunneling b l"

section \<open>Invariant\<close>

text \<open>No application is listed before one that it equals.\<close>

definition appsDistinct :: "installedApp list \<Rightarrow> bool" where
  "appsDistinct = sorted_wrt (\<lambda>a b. \<not> sameApp a b)"

definition appInv :: "appList \<Rightarrow> bool" where
  "appInv l \<longleftrightarrow> appsRouteMode (al_settings l) = al_routeMode l \<and> vpnApps (al_settings l) (al_routeMode l) = m_apps l \<and>
     (\<forall>mode. appsDistinct (vpnApps (al_settings l) mode))"

lemma appsDistinct_snoc: "appsDistinct (xs @ [x]) \<longleftrightarrow> appsDistinct xs \<and> \<not> list_ex (\<lambda>a. sameApp a x) xs"
  by (auto simp: appsDistinct_def sorted_wrt_append list_ex_iff)

lemma appsDistinct_remove: "appsDistinct xs \<Longrightarrow> appsDistinct (take i xs @ drop (Suc i) xs)"
proof -
  assume "appsDistinct xs"
  then have "appsDistinct (take i xs @ drop i xs)" by simp
  then show ?thesis
    using tl_drop [of i xs] by (cases "drop i xs") (auto simp: appsDistinct_def sorted_wrt_append drop_Suc)
qed

lemma appInv_store: "appInv l \<Longrightarrow> appsDistinct apps \<Longrightarrow> appInv (storeApps apps l)"
  by (simp add: appInv_def storeApps_def setVpnApps_def signal_def)

lemma appInv_step:
  assumes "appInv l"
  shows "appInv (appStep x l)"
proof -
  have d: "appsDistinct (m_apps l)" using assms unfolding appInv_def by metis
  show ?thesis
  proof (cases x)
    case (AddApp a)
    then show ?thesis using assms d appInv_store by (simp add: addApp_def appsDistinct_snoc)
  next
    case (RemoveApp i)
    then show ?thesis using assms d appInv_store by (simp add: removeApp_def appsDistinct_remove)
  next
    case ClearApps
    then show ?thesis using appInv_store [OF assms, of "[]"] by (simp add: clearAppsList_def appsDistinct_def)
  qed (use assms in \<open>simp_all add: appInv_def changeAppsRouteMode_def toggleAppSplitTunneling_def setAppsRouteMode_def
      setAppsSplitTunnelingEnabled_def signal_def\<close>)
qed

lemma app_list_stored:
  assumes "\<forall>mode. appsDistinct (vpnApps st mode)"
  shows "appInv (fold appStep ops (newAppList st))"
proof -
  have "appInv (newAppList st)" using assms by (simp add: newAppList_def appInv_def setAppsRouteMode_def signal_def)
  moreover have "appInv (fold appStep ops l)" if "appInv l" for l
    using that by (induction ops arbitrary: l) (simp_all add: appInv_step)
  ultimately show ?thesis by blast
qed

end
