(* ===== verification/Split_Config.thy ===== *)
theory Split_Config
  imports Route_Planner Kill_Switch
begin

text \<open>
  How the settings reach the service: the functions of \<^verbatim>\<open>client/vpnConnection.cpp\<close> that turn the site list into routes
  (\<open>siteRoutes\<close>, the list of \<^verbatim>\<open>addSitesRoutes\<close>), into DNS rules (\<open>siteDnsRules\<close>, the list of
  \<^verbatim>\<open>configureDnsSplitTunnel\<close>), into the configuration of a connection (\<open>appendSplitTunnelingConfig\<close>,
  \<open>appendKillSwitchConfig\<close>) and into the list of sites that are always blocked (\<open>alwaysBlocked\<close>, the list of
  \<^verbatim>\<open>syncAlwaysBlockedSites\<close>). The theorems relate the lists with each other and with the plan of the kill switch.
\<close>

section \<open>Containers\<close>

datatype dockerContainer = NoContainer | Awg | Awg2 | WireGuard | OpenVpn | Cloak | ShadowSocks | Ipsec | Xray | SSXray
  | TorWebSite | DnsServer | Sftp | Socks5Proxy | MtProxy | Telemt | TProxy

definition isAwgContainer :: "dockerContainer \<Rightarrow> bool" where
  "isAwgContainer container \<longleftrightarrow> container = Awg \<or> container = Awg2"

text \<open>\<^verbatim>\<open>protoToString(defaultProtocol(container))\<close>: the key of the protocol's enumeration in lower case.\<close>

fun protocolName :: "dockerContainer \<Rightarrow> string" where
  "protocolName NoContainer = ''''"
| "protocolName OpenVpn = ''openvpn''"
| "protocolName Cloak = ''''"
| "protocolName ShadowSocks = ''''"
| "protocolName WireGuard = ''wireguard''"
| "protocolName Awg2 = ''awg''"
| "protocolName Awg = ''awg''"
| "protocolName Xray = ''xray''"
| "protocolName Ipsec = ''ikev2''"
| "protocolName SSXray = ''ssxray''"
| "protocolName TorWebSite = ''torwebsite''"
| "protocolName DnsServer = ''dns''"
| "protocolName Sftp = ''sftp''"
| "protocolName Socks5Proxy = ''socks5proxy''"
| "protocolName MtProxy = ''mtproxy''"
| "protocolName Telemt = ''telemt''"
| "protocolName TProxy = ''tproxy''"

section \<open>Lists made from the sites\<close>

fun siteRouteTexts :: "(string \<Rightarrow> bool) \<Rightarrow> qvariant qmap \<Rightarrow> string list option" where
  "siteRouteTexts isIPv4 [] = Some []"
| "siteRouteTexts isIPv4 ((key, value) # sites) = (case fromText key of
       None \<Rightarrow> None
     | Some rule \<Rightarrow> map_option (\<lambda>ips.
         (if \<not> isValid rule then []
          else if rule_type rule = IpSubnet then [normalizedText rule]
          else filter (checkIpSubnetFormat isIPv4) (siteIpList value)) @ ips) (siteRouteTexts isIPv4 sites))"

definition siteRoutes :: "(string \<Rightarrow> bool) \<Rightarrow> qvariant qmap \<Rightarrow> string list option" where
  "siteRoutes isIPv4 sites = map_option removeDuplicates (siteRouteTexts isIPv4 sites)"

fun siteRuleTexts :: "qvariant qmap \<Rightarrow> string list option" where
  "siteRuleTexts [] = Some []"
| "siteRuleTexts ((key, value) # sites) = (case fromText key of
       None \<Rightarrow> None
     | Some rule \<Rightarrow> map_option (\<lambda>rules.
         (if isValid rule \<and> rule_type rule \<noteq> IpSubnet then [normalizedText rule] else []) @ rules)
         (siteRuleTexts sites))"

definition siteDnsRules :: "qvariant qmap \<Rightarrow> string list option" where
  "siteDnsRules sites = map_option removeDuplicates (siteRuleTexts sites)"

definition alwaysBlocked :: "(string \<Rightarrow> bool) \<Rightarrow> appSettings \<Rightarrow> string list option" where
  "alwaysBlocked isIPv4 st =
     (if isKillSwitchEnabled st \<and> isSitesSplitTunnelingEnabled st
      then cachedSiteIps isIPv4 (vpnSites st VpnOnlyForwardSites) else Some [])"

text \<open>The loop of \<^verbatim>\<open>appendSplitTunnelingConfig\<close>: the sites, the DNS rules and whether there are dynamic rules.\<close>

fun configTexts :: "(string \<Rightarrow> bool) \<Rightarrow> qvariant qmap \<Rightarrow> (string list \<times> string list \<times> bool) option" where
  "configTexts isIPv4 [] = Some ([], [], False)"
| "configTexts isIPv4 ((ruleText, value) # m) = (case fromText ruleText of
       None \<Rightarrow> None
     | Some rule \<Rightarrow> map_option (\<lambda>(sites, dnsRules, hasDynamicHostRules).
         if \<not> isValid rule then (sites, dnsRules, hasDynamicHostRules)
         else if rule_type rule = IpSubnet then (normalizedText rule # sites, dnsRules, hasDynamicHostRules)
         else (filter (checkIpSubnetFormat isIPv4) (siteIpList value) @ sites, normalizedText rule # dnsRules,
               isDynamicHostRule rule \<or> hasDynamicHostRules)) (configTexts isIPv4 m))"

section \<open>Configurations of the WireGuard family\<close>

text \<open>\<^verbatim>\<open>QString::split\<close> on a text, with empty parts kept.\<close>

fun splitStrAux :: "string \<Rightarrow> nat \<Rightarrow> string \<Rightarrow> string \<Rightarrow> string list" where
  "splitStrAux sep skip part [] = [rev part]"
| "splitStrAux sep skip part (x # xs) =
     (if skip > 0 then splitStrAux sep (skip - 1) part xs
      else if prefix sep (x # xs) then rev part # splitStrAux sep (length sep - 1) [] xs
      else splitStrAux sep 0 (x # part) xs)"

definition splitStr :: "string \<Rightarrow> string \<Rightarrow> string list" where
  "splitStr sep s = splitStrAux sep 0 [] s"

text \<open>The value of the first line \<^verbatim>\<open>key = value\<close> of a native configuration.\<close>

definition nativeSetting :: "string \<Rightarrow> string \<Rightarrow> string option" where
  "nativeSetting key nativeConfig =
     (case filter (\<lambda>parts. length parts \<ge> 2 \<and> trimmed (hd parts) = key)
             (map (splitChar CHR ''='') (splitChar CHR 0x0A nativeConfig)) of
        [] \<Rightarrow> None
      | parts # _ \<Rightarrow> Some (trimmed (joinWith ''='' (tl parts))))"

definition withAllowedIps :: "jobj \<Rightarrow> jobj" where
  "withAllowedIps configData = (case qvalue configData ''allowed_ips'' of
       Some (JStr ips) \<Rightarrow> qinsert ''allowed_ips'' (JArr (map JStr (splitStr '', '' ips))) configData
     | Some _ \<Rightarrow> configData
     | None \<Rightarrow> (case nativeSetting ''AllowedIPs'' (jToString (jvalue configData ''config'')) of
           None \<Rightarrow> configData
         | Some ips \<Rightarrow> qinsert ''allowed_ips''
             (JArr (map (\<lambda>ip. JStr (trimmed ip)) (splitSkipEmpty CHR '','' ips))) configData))"

definition withKeepAlive :: "jobj \<Rightarrow> jobj" where
  "withKeepAlive configData =
     (if qcontains configData ''persistent_keep_alive'' then configData
      else case nativeSetting ''PersistentKeepalive'' (jToString (jvalue configData ''config'')) of
          None \<Rightarrow> configData
        | Some v \<Rightarrow> qinsert ''persistent_keep_alive'' (JStr v) configData)"

definition allowsAll :: "jobj \<Rightarrow> bool" where
  "allowsAll configData \<longleftrightarrow> (let allowedIps = jToArray (jvalue configData ''allowed_ips'') in
     JStr ''0.0.0.0/0'' \<in> set allowedIps \<and> JStr ''::/0'' \<in> set allowedIps)"

text \<open>\<^verbatim>\<open>allowSiteBasedSplitTunneling\<close> and the configuration with the completed protocol data.\<close>

definition wireguardConfig :: "dockerContainer \<Rightarrow> jobj \<Rightarrow> bool \<times> jobj" where
  "wireguardConfig container config =
     (let name = protocolName container in
      if name = ''awg'' \<or> name = ''wireguard'' then
        let key = name @ ''_config_data'';
            configData = jToObject (jvalue config key);
            configData' = withKeepAlive (withAllowedIps configData)
        in (allowsAll configData', if configData' \<noteq> configData then qinsert key (JObj configData') config else config)
      else (True, config))"

section \<open>The configuration of a connection\<close>

fun routeModeNumber :: "routeMode \<Rightarrow> int" where
  "routeModeNumber VpnAllSites = 0"
| "routeModeNumber VpnOnlyForwardSites = 1"
| "routeModeNumber VpnAllExceptSites = 2"

fun appsModeNumber :: "appsRouteMode \<Rightarrow> int" where
  "appsModeNumber VpnAllApps = 0"
| "appsModeNumber VpnOnlyForwardApps = 1"
| "appsModeNumber VpnAllExceptApps = 2"

definition dnsStrings :: "jobj \<Rightarrow> string list" where
  "dnsStrings config = [jToString (jvalue config ''dns1''), jToString (jvalue config ''dns2'')]"

definition splitChoice :: "(string \<Rightarrow> bool) \<Rightarrow> appSettings \<Rightarrow> bool \<Rightarrow> jobj \<Rightarrow> (routeMode \<times> string list \<times> string list) option" where
  "splitChoice isIPv4 st allowSiteBasedSplitTunneling config =
     (if \<not> isSitesSplitTunnelingEnabled st then Some (VpnAllSites, [], [])
      else let routeMode = storedRouteMode st in
        if \<not> allowSiteBasedSplitTunneling then Some (routeMode, [], [])
        else map_option (\<lambda>(texts, rules, hasDynamicHostRules).
          let sites = removeDuplicates texts; dnsRules = removeDuplicates rules in
          if sites = [] \<and> \<not> hasDynamicHostRules \<and> dnsRules = [] then (VpnAllSites, sites, dnsRules)
          else if routeMode = VpnOnlyForwardSites \<and> useAmneziaDns st then (routeMode, sites @ dnsStrings config, dnsRules)
          else (routeMode, sites, dnsRules)) (configTexts isIPv4 (vpnSites st routeMode)))"

definition appsChoice :: "appSettings \<Rightarrow> appsRouteMode \<times> string list" where
  "appsChoice st =
     (if \<not> isAppsSplitTunnelingEnabled st then (VpnAllApps, [])
      else let mode = appsRouteMode st;
               apps = map (\<lambda>app. if appPath app = [] then packageName app else appPath app) (vpnApps st mode)
           in (if apps = [] then VpnAllApps else mode, apps))"

definition appendSplitTunnelingConfig :: "(string \<Rightarrow> bool) \<Rightarrow> appSettings \<Rightarrow> dockerContainer \<Rightarrow> jobj \<Rightarrow> jobj option" where
  "appendSplitTunnelingConfig isIPv4 st container config =
     (case wireguardConfig container config of (allowSiteBasedSplitTunneling, config) \<Rightarrow>
        map_option (\<lambda>(routeMode, sites, dnsRules).
          let (routeMode, sites) =
                (if \<not> useAmneziaDns st \<and> routeMode \<noteq> VpnOnlyForwardSites
                 then (VpnAllExceptSites, sites @ dnsStrings config) else (routeMode, sites));
              config = qinsert ''splitTunnelType'' (JNum (routeModeNumber routeMode)) config;
              config = qinsert ''splitTunnelSites'' (JArr (map JStr sites)) config;
              config = qinsert ''splitTunnelDnsRules'' (JArr (map JStr dnsRules)) config;
              (appsMode, apps) = appsChoice st;
              config = qinsert ''appSplitTunnelType'' (JNum (appsModeNumber appsMode)) config
          in qinsert ''splitTunnelApps'' (JArr (map JStr apps)) config)
          (splitChoice isIPv4 st allowSiteBasedSplitTunneling config))"

definition appendKillSwitchConfig :: "appSettings \<Rightarrow> jobj \<Rightarrow> jobj" where
  "appendKillSwitchConfig st config =
     qinsert ''allowedDnsServers'' (JArr (map JStr (getAllowedDnsServers st)))
       (qinsert ''killSwitchOption'' (JStr (if isKillSwitchEnabled st then ''true'' else ''false'')) config)"

section \<open>The lists agree\<close>

text \<open>What is documented of \<^verbatim>\<open>QHostAddress\<close>: it reads every canonical dotted quad.\<close>

definition readsQuads :: "(string \<Rightarrow> bool) \<Rightarrow> bool" where
  "readsQuads isIPv4 \<longleftrightarrow> (\<forall>a<256. \<forall>b<256. \<forall>c<256. \<forall>d<256. isIPv4 (dotted a b c d))"

lemma checkIpSubnetFormat_Nil [simp]: "\<not> checkIpSubnetFormat isIPv4 []"
  by (simp add: checkIpSubnetFormat_def checkIPv4Format_def)

lemma address_rule_checked:
  assumes "readsQuads isIPv4" and "fromText key = Some rule" and "rule_type rule = IpSubnet"
  shows "checkIpSubnetFormat isIPv4 (normalizedText rule)"
proof -
  obtain a b c d where "a < 256" "b < 256" "c < 256" "d < 256" "normalizedText rule = dotted a b c d"
    using assms(2,3) by (rule ip_rule_is_host)
  then show ?thesis using assms(1) by (simp add: checkIpSubnetFormat_def checkIPv4Format_def readsQuads_def)
qed

lemma filter_siteIpList:
  "filter (checkIpSubnetFormat isIPv4) (siteIpList v) =
     appendNew [] (filter (checkIpSubnetFormat isIPv4) (toStringList v))"
proof -
  have "filter (checkIpSubnetFormat isIPv4) (removeAll [] xs) = filter (checkIpSubnetFormat isIPv4) xs" for xs :: "string list"
    by (induction xs) auto
  then show ?thesis by (simp add: siteIpList_def removeDuplicates_def filter_appendNew)
qed

lemma cachedSiteIps_appendNew:
  "cachedSiteIps isIPv4 sites = map_option (\<lambda>ips. appendNew [] (filter (checkIpSubnetFormat isIPv4) ips)) (siteTexts sites)"
  by (simp add: cachedSiteIps_def fold_appendNew)

lemma siteRouteTexts_appendNew:
  assumes "readsQuads isIPv4"
  shows "map_option (appendNew acc) (siteRouteTexts isIPv4 sites) =
     map_option (\<lambda>ips. appendNew acc (filter (checkIpSubnetFormat isIPv4) ips)) (siteTexts sites)"
proof (induction sites arbitrary: acc)
  case (Cons site sites)
  obtain key v where site: "site = (key, v)" by (cases site)
  show ?case
  proof (cases "fromText key")
    case (Some rule)
    define own where "own = (if \<not> isValid rule then [] else if rule_type rule = IpSubnet then [normalizedText rule]
        else filter (checkIpSubnetFormat isIPv4) (siteIpList v))"
    have "appendNew acc own = appendNew acc (filter (checkIpSubnetFormat isIPv4)
        (if \<not> isValid rule then [] else if rule_type rule = IpSubnet then [normalizedText rule] else toStringList v))"
      using address_rule_checked [OF assms Some]
      by (simp add: own_def filter_siteIpList appendNew_removeDuplicates)
    with Cons [of "appendNew acc own"] Some show ?thesis
      by (simp add: site option.map_comp o_def appendNew_append own_def [symmetric])
  qed (simp add: site)
qed simp

lemma siteRoutes_eq_cached: "readsQuads isIPv4 \<Longrightarrow> siteRoutes isIPv4 sites = cachedSiteIps isIPv4 sites"
  using siteRouteTexts_appendNew [of isIPv4 "[]" sites]
  by (simp add: siteRoutes_def cachedSiteIps_appendNew removeDuplicates_def [abs_def])

lemma configTexts_lists:
  "case configTexts isIPv4 sites of
     None \<Rightarrow> siteRouteTexts isIPv4 sites = None \<and> siteRuleTexts sites = None
   | Some (texts, rules, dyn) \<Rightarrow> siteRouteTexts isIPv4 sites = Some texts \<and> siteRuleTexts sites = Some rules"
proof (induction isIPv4 sites rule: configTexts.induct)
  case (2 isIPv4 key v sites)
  show ?case
  proof (cases "fromText key")
    case (Some rule)
    then show ?thesis using 2 [OF Some] by (cases "configTexts isIPv4 sites") auto
  qed simp
qed simp

lemma configTexts_dynamic: "configTexts isIPv4 sites = Some (texts, [], dyn) \<Longrightarrow> \<not> dyn"
  by (induction isIPv4 sites arbitrary: texts rule: configTexts.induct)
     (auto split: option.splits if_splits)

lemma siteRoutes_checked:
  assumes "readsQuads isIPv4" and "siteRoutes isIPv4 sites = Some ips"
  shows "filter (checkIpSubnetFormat isIPv4) ips = ips" "distinct ips"
  using assms siteRoutes_eq_cached [OF assms(1), of sites]
  by (auto simp: cachedSiteIps_appendNew filter_appendNew distinct_appendNew)

section \<open>From the settings to the plan of the kill switch\<close>

lemma wireguardConfig_dns [simp]: "dnsStrings (snd (wireguardConfig container config)) = dnsStrings config"
  by (cases container) (auto simp: wireguardConfig_def Let_def dnsStrings_def)

lemma plan_of_config:
  assumes "jvalue cfg ''splitTunnelType'' = JNum n" and "n \<in> {0, 1, 2}"
    and "jvalue cfg ''splitTunnelSites'' = JArr (map JStr sites)" and "jvalue cfg ''vpnServer'' = JStr server"
  shows "ksPlanOf isIPv4 cfg = (let good = filter (checkIpSubnetFormat isIPv4) sites in
     \<lparr>blockAll = n \<noteq> 1, allowNets = n \<noteq> 1, blockNets = n = 1,
      allownets = if n = 0 then [server] else if n = 1 then [] else server # good,
      blocknets = if n = 1 then good else []\<rparr>)"
  using assms by (auto simp: ksPlanOf_def Let_def o_def)

text \<open>The route mode and the sites that a configuration ends up with.\<close>

definition splitResult :: "(string \<Rightarrow> bool) \<Rightarrow> appSettings \<Rightarrow> dockerContainer \<Rightarrow> jobj \<Rightarrow> (routeMode \<times> string list) option" where
  "splitResult isIPv4 st container config =
     map_option (\<lambda>(routeMode, sites, dnsRules).
        if \<not> useAmneziaDns st \<and> routeMode \<noteq> VpnOnlyForwardSites
        then (VpnAllExceptSites, sites @ dnsStrings config) else (routeMode, sites))
       (splitChoice isIPv4 st (fst (wireguardConfig container config)) config)"

lemma splitChoice_dns: "dnsStrings c = dnsStrings c' \<Longrightarrow> splitChoice isIPv4 st allow c = splitChoice isIPv4 st allow c'"
  unfolding splitChoice_def Let_def by (simp only:)

lemma appended_values:
  assumes "appendSplitTunnelingConfig isIPv4 st container config = Some cfg"
  obtains mode sites where "splitResult isIPv4 st container config = Some (mode, sites)"
    and "jvalue cfg ''splitTunnelType'' = JNum (routeModeNumber mode)"
    and "jvalue cfg ''splitTunnelSites'' = JArr (map JStr sites)"
proof -
  obtain allow config' where w: "wireguardConfig container config = (allow, config')" by fastforce
  then have dns: "dnsStrings config' = dnsStrings config" using wireguardConfig_dns [of container config] by simp
  obtain m s r where c: "splitChoice isIPv4 st allow config' = Some (m, s, r)"
    using assms w by (auto simp: appendSplitTunnelingConfig_def)
  obtain am apps where a: "appsChoice st = (am, apps)" by fastforce
  show thesis
    using that [of "fst (if \<not> useAmneziaDns st \<and> m \<noteq> VpnOnlyForwardSites then (VpnAllExceptSites, s @ dnsStrings config) else (m, s))"
        "snd (if \<not> useAmneziaDns st \<and> m \<noteq> VpnOnlyForwardSites then (VpnAllExceptSites, s @ dnsStrings config) else (m, s))"]
      assms w c a dns splitChoice_dns [OF dns, of isIPv4 st allow]
    by (auto simp: appendSplitTunnelingConfig_def splitResult_def Let_def split: if_splits)
qed

lemma ksPlan_of_split:
  assumes "appendSplitTunnelingConfig isIPv4 st container config = Some cfg"
    and "splitResult isIPv4 st container config = Some (mode, sites)"
  shows "ksPlanOf isIPv4 (qinsert ''vpnServer'' (JStr server) cfg) =
    (let good = filter (checkIpSubnetFormat isIPv4) sites in
     \<lparr>blockAll = mode \<noteq> VpnOnlyForwardSites, allowNets = mode \<noteq> VpnOnlyForwardSites, blockNets = mode = VpnOnlyForwardSites,
      allownets = case mode of VpnAllSites \<Rightarrow> [server] | VpnOnlyForwardSites \<Rightarrow> [] | VpnAllExceptSites \<Rightarrow> server # good,
      blocknets = if mode = VpnOnlyForwardSites then good else []\<rparr>)"
proof -
  obtain mode' sites' where r: "splitResult isIPv4 st container config = Some (mode', sites')"
    and v: "jvalue cfg ''splitTunnelType'' = JNum (routeModeNumber mode')"
      "jvalue cfg ''splitTunnelSites'' = JArr (map JStr sites')"
    using assms(1) by (rule appended_values)
  then have "mode' = mode" "sites' = sites" using assms(2) by simp_all
  with v show ?thesis
    by (subst plan_of_config [where n = "routeModeNumber mode" and sites = sites and server = server])
       (cases mode; simp)+
qed

text \<open>With sites to tell apart, the configuration carries the list of the routes.\<close>

lemma splitResult_sites:
  assumes "isSitesSplitTunnelingEnabled st" and "fst (wireguardConfig container config)"
    and "siteRoutes isIPv4 (vpnSites st (storedRouteMode st)) = Some ips" and "ips \<noteq> []" and "storedRouteMode st \<noteq> VpnAllSites"
  shows "splitResult isIPv4 st container config = Some (storedRouteMode st,
     ips @ (if useAmneziaDns st = (storedRouteMode st = VpnOnlyForwardSites) then dnsStrings config else []))"
proof -
  obtain texts where t: "siteRouteTexts isIPv4 (vpnSites st (storedRouteMode st)) = Some texts" "removeDuplicates texts = ips"
    using assms(3) by (auto simp: siteRoutes_def)
  then obtain rules dyn where c: "configTexts isIPv4 (vpnSites st (storedRouteMode st)) = Some (texts, rules, dyn)"
    using configTexts_lists [of isIPv4 "vpnSites st (storedRouteMode st)"] by (auto split: option.splits prod.splits)
  show ?thesis
    using assms(1,2,4,5) c t(2) by (cases "storedRouteMode st") (auto simp: splitResult_def splitChoice_def Let_def)
qed

section \<open>Correctness of the lists\<close>


definition exampleSites :: "qvariant qmap" where
  "exampleSites = [(''*.ru'', VStringList [''5.6.7.8'']), (''8.8.8.8'', VInvalid), (''ya.ru'', VString ''5.6.7.8'')]"

lemma readsQuads_True: "readsQuads (\<lambda>a. True)"
  by (simp add: readsQuads_def)

lemma exampleSites_routes: "siteRoutes (\<lambda>a. True) exampleSites = Some [''5.6.7.8'', ''8.8.8.8'']"
  by code_simp


text \<open>C20. From the settings to the packet filter. With the kill switch and site-based split tunnelling on, for a connection
  that is not WireGuard or whose WireGuard configuration sends everything through the tunnel, and with at least one
  address in the site list of the current mode, the plan that the kill switch makes of the connection's configuration has
  the addresses of that list, plus the DNS servers of the connection on one side: if only the listed sites go through the
  tunnel, the plan blocks outside the tunnel the listed addresses, which are also those that stay blocked while the VPN
  is off, followed by the DNS servers when those of the tunnel are used, and nothing else; if the listed sites
  are the exception, it blocks everything except the VPN server, the listed addresses and, when the DNS servers of the
  tunnel are not used, the DNS servers.\<close>

theorem plan_of_settings:
  assumes "readsQuads isIPv4" and "isKillSwitchEnabled st" and "isSitesSplitTunnelingEnabled st"
    and "fst (wireguardConfig container config)"
    and "appendSplitTunnelingConfig isIPv4 st container config = Some cfg"
    and "siteRoutes isIPv4 (vpnSites st (storedRouteMode st)) = Some ips" and "ips \<noteq> []"
  shows "let pl = ksPlanOf isIPv4 (qinsert ''vpnServer'' (JStr server) cfg);
             dns = filter (checkIpSubnetFormat isIPv4) (dnsStrings config) in
    (storedRouteMode st = VpnOnlyForwardSites \<longrightarrow>
       \<not> blockAll pl \<and> blockNets pl \<and> alwaysBlocked isIPv4 st = Some ips \<and>
       blocknets pl = ips @ (if useAmneziaDns st then dns else [])) \<and>
    (storedRouteMode st = VpnAllExceptSites \<longrightarrow>
       blockAll pl \<and> allowNets pl \<and> allownets pl = server # ips @ (if useAmneziaDns st then [] else dns))"
proof (cases "storedRouteMode st = VpnAllSites")
  case False
  note good = siteRoutes_checked [OF assms(1,6)]
  show ?thesis
    using ksPlan_of_split [OF assms(5) splitResult_sites [OF assms(3,4,6,7) False], of server]
      siteRoutes_eq_cached [OF assms(1), of "vpnSites st VpnOnlyForwardSites"] assms(2,3,6)
    by (auto simp: Let_def good(1) alwaysBlocked_def)
qed (simp add: Let_def)

definition exampleSettings :: appSettings where
  "exampleSettings = \<lparr>storedRouteMode = VpnOnlyForwardSites,
     storedSites = (\<lambda>mode. if mode = VpnOnlyForwardSites then exampleSites else []),
     isSitesSplitTunnelingEnabled = True, useAmneziaDns = True, isKillSwitchEnabled = True, storedDnsServers = [],
     isAppsSplitTunnelingEnabled = False, appsRouteMode = VpnAllApps, vpnApps = (\<lambda>mode. []), emitted = []\<rparr>"

definition exampleVpnConfig :: jobj where
  "exampleVpnConfig = [(''dns1'', JStr ''1.1.1.1''), (''dns2'', JStr [])]"

theorem plan_of_settings_witness:
  "\<exists>cfg. appendSplitTunnelingConfig (\<lambda>a. True) exampleSettings OpenVpn exampleVpnConfig = Some cfg \<and>
     blocknets (ksPlanOf (\<lambda>a. True) (qinsert ''vpnServer'' (JStr ''9.9.9.9'') cfg)) = [''5.6.7.8'', ''8.8.8.8'', ''1.1.1.1'']"
proof -
  have ips: "siteRoutes (\<lambda>a. True) (vpnSites exampleSettings (storedRouteMode exampleSettings)) = Some [''5.6.7.8'', ''8.8.8.8'']"
    using exampleSites_routes by (simp add: exampleSettings_def vpnSites_def)
  have "appendSplitTunnelingConfig (\<lambda>a. True) exampleSettings OpenVpn exampleVpnConfig \<noteq> None" by code_simp
  then obtain cfg where cfg: "appendSplitTunnelingConfig (\<lambda>a. True) exampleSettings OpenVpn exampleVpnConfig = Some cfg" by blast
  have "filter (checkIpSubnetFormat (\<lambda>a. True)) (dnsStrings exampleVpnConfig) = [''1.1.1.1'']" by code_simp
  then show ?thesis
    using plan_of_settings [OF readsQuads_True _ _ _ cfg ips, of "''9.9.9.9''"] cfg
    by (simp add: exampleSettings_def wireguardConfig_def Let_def)
qed

end
