(* ===== verification/Connection_Health.thy ===== *)
theory Connection_Health
  imports Main
begin

text \<open>
  \<^verbatim>\<open>client/core/utils/connectionHealth.cpp\<close>: the state and the health of a connection, the texts the user sees, and
  which healths are problems. Texts are those of the source language.
\<close>

datatype connState = StateUnknown | Disconnected | Preparing | Connecting | Connected | Disconnecting | Reconnecting | ErrorState

datatype health = HealthUnknown | Idle | PreparingConfig | CheckingLocalNetwork | CheckingApi | CheckingLocalService
  | StartingProtocol | CheckingTunnelInterface | WaitingHandshake | ApplyingRoutes | CheckingFirewall | CheckingDns
  | CheckingTraffic | HealthConnecting | Checking | Healthy | BackendFailed | LocalNetworkUnavailable | ApiUnavailable
  | ApiSslError | ApiDecryptionFailed | LocalServiceUnavailable | ProtocolStartFailed | TunnelInterfaceMissing
  | HandshakeTimeout | RouteMismatch | FirewallBlocked | DnsFailed | NoTraffic | Recovering | UnknownFailure

text \<open>The error codes that the connection names; every other code is told by its number.\<close>

datatype errorCode = NoError | UnknownError | InternalError | AmneziaServiceConnectionFailed | VpnHandshakeTimeout
  | VpnNoTrafficError | VpnBackendFailure | OtherError nat

fun connectionLifecycleText :: "connState \<Rightarrow> string" where
  "connectionLifecycleText Disconnected = ''Connect''"
| "connectionLifecycleText Preparing = ''Preparing''"
| "connectionLifecycleText Connecting = ''Connecting''"
| "connectionLifecycleText Connected = ''Connected''"
| "connectionLifecycleText Reconnecting = ''Reconnecting''"
| "connectionLifecycleText Disconnecting = ''Disconnecting''"
| "connectionLifecycleText ErrorState = ''Error''"
| "connectionLifecycleText StateUnknown = ''Checking''"

fun connectionHealthText :: "health \<Rightarrow> string" where
  "connectionHealthText Idle = []"
| "connectionHealthText PreparingConfig = ''Preparing configuration''"
| "connectionHealthText CheckingLocalNetwork = ''Checking internet connection''"
| "connectionHealthText CheckingApi = ''Checking Amnezia API''"
| "connectionHealthText CheckingLocalService = ''Checking local VPN service''"
| "connectionHealthText StartingProtocol = ''Starting VPN protocol''"
| "connectionHealthText CheckingTunnelInterface = ''Checking VPN tunnel interface''"
| "connectionHealthText WaitingHandshake = ''Waiting for VPN server response''"
| "connectionHealthText ApplyingRoutes = ''Applying network routes''"
| "connectionHealthText CheckingFirewall = ''Checking firewall rules''"
| "connectionHealthText CheckingDns = ''Checking DNS''"
| "connectionHealthText CheckingTraffic = ''Checking traffic''"
| "connectionHealthText Checking = ''Checking traffic''"
| "connectionHealthText HealthConnecting = ''Connecting...''"
| "connectionHealthText Healthy = ''VPN is working''"
| "connectionHealthText BackendFailed = ''Local VPN service failed''"
| "connectionHealthText LocalServiceUnavailable = ''Local VPN service failed''"
| "connectionHealthText LocalNetworkUnavailable = ''Internet connection is unavailable''"
| "connectionHealthText ApiUnavailable = ''Amnezia API is not responding''"
| "connectionHealthText ApiSslError = ''Amnezia API SSL error''"
| "connectionHealthText ApiDecryptionFailed = ''Failed to decrypt Amnezia API response''"
| "connectionHealthText ProtocolStartFailed = ''VPN protocol failed to start''"
| "connectionHealthText TunnelInterfaceMissing = ''VPN tunnel interface is missing''"
| "connectionHealthText HandshakeTimeout = ''VPN server is not responding''"
| "connectionHealthText RouteMismatch = ''Network routes do not match VPN mode''"
| "connectionHealthText FirewallBlocked = ''Firewall is blocking VPN traffic''"
| "connectionHealthText DnsFailed = ''DNS is not resolving domains''"
| "connectionHealthText NoTraffic = ''VPN is connected, but traffic is not passing''"
| "connectionHealthText Recovering = ''Recovering connection...''"
| "connectionHealthText UnknownFailure = ''Connection failed for an unknown reason''"
| "connectionHealthText HealthUnknown = ''Checking connection...''"

definition connectionHealthVisible :: "health \<Rightarrow> bool" where
  "connectionHealthVisible h \<longleftrightarrow> h \<noteq> Idle"

definition connectionHealthProblem :: "health \<Rightarrow> bool" where
  "connectionHealthProblem h \<longleftrightarrow> h \<in> set [BackendFailed, LocalNetworkUnavailable, ApiUnavailable, ApiSslError,
     ApiDecryptionFailed, LocalServiceUnavailable, ProtocolStartFailed, TunnelInterfaceMissing, HandshakeTimeout,
     RouteMismatch, FirewallBlocked, DnsFailed, NoTraffic, UnknownFailure]"

definition connectionStatusText :: "connState \<Rightarrow> health \<Rightarrow> string" where
  "connectionStatusText state h =
     (if state \<in> {Connecting, Reconnecting, ErrorState} then connectionHealthText h else connectionLifecycleText state)"

section \<open>Error codes\<close>

text \<open>Functions of \<^verbatim>\<open>client/vpnConnection.cpp\<close>.\<close>

fun connectionHealthForError :: "errorCode \<Rightarrow> health" where
  "connectionHealthForError AmneziaServiceConnectionFailed = LocalServiceUnavailable"
| "connectionHealthForError VpnBackendFailure = LocalServiceUnavailable"
| "connectionHealthForError VpnHandshakeTimeout = HandshakeTimeout"
| "connectionHealthForError VpnNoTrafficError = NoTraffic"
| "connectionHealthForError _ = UnknownFailure"

definition recoverableProtocolError :: "errorCode \<Rightarrow> bool" where
  "recoverableProtocolError e \<longleftrightarrow> e = AmneziaServiceConnectionFailed \<or> e = VpnBackendFailure \<or> e = VpnHandshakeTimeout \<or>
     e = VpnNoTrafficError"

lemma problem_forError [simp]: "connectionHealthProblem (connectionHealthForError e)"
  by (cases e) (simp_all add: connectionHealthProblem_def)

lemma not_problem [simp]:
  "\<not> connectionHealthProblem Idle" "\<not> connectionHealthProblem CheckingDns" "\<not> connectionHealthProblem ApplyingRoutes"
  "\<not> connectionHealthProblem CheckingFirewall" "\<not> connectionHealthProblem Recovering" "\<not> connectionHealthProblem StartingProtocol"
  "\<not> connectionHealthProblem WaitingHandshake" "\<not> connectionHealthProblem CheckingTraffic" "\<not> connectionHealthProblem Healthy"
  "\<not> connectionHealthProblem PreparingConfig" "\<not> connectionHealthProblem CheckingLocalNetwork"
  by (simp_all add: connectionHealthProblem_def)

lemma problem [simp]:
  "connectionHealthProblem UnknownFailure" "connectionHealthProblem DnsFailed" "connectionHealthProblem RouteMismatch"
  "connectionHealthProblem FirewallBlocked" "connectionHealthProblem LocalServiceUnavailable" "connectionHealthProblem ProtocolStartFailed"
  "connectionHealthProblem HandshakeTimeout" "connectionHealthProblem NoTraffic"
  by (simp_all add: connectionHealthProblem_def)

text \<open>Every problem has a text of its own to show.\<close>

lemma problem_text: "connectionHealthProblem h \<Longrightarrow> connectionHealthText h \<noteq> []"
  by (cases h) (simp_all add: connectionHealthProblem_def)

end
