(* ===== verification/Vpn_Connection.thy ===== *)
theory Vpn_Connection
  imports Split_Config Connection_Health
begin

text \<open>
  \<^verbatim>\<open>client/vpnConnection.cpp\<close> in the build for macOS: the life cycle of a connection, from the user's request through
  the protocol's signals, the timers and the health checks to automatic recovery. A run is a sequence of events
  (\<open>vcStep\<close>); what happens outside the class is a parameter (\<open>vcEnv\<close>): whether the service can be reached and what it
  answers, and which signals a protocol emits while it starts or stops. Answers may depend on everything that
  happened before (the log). The concrete protocols are not modelled: a protocol is an arbitrary source of signals.
  While a protocol starts, Qt may run other events; the model allows for its own signals and for a disconnect by the user.
  Timers are flags; a timer event happens only while its timer runs.
\<close>

section \<open>Repositories\<close>

datatype configType = AmneziaFreeV2 | AmneziaFreeV3 | AmneziaPremiumV1 | AmneziaPremiumV2 | SelfHosted | ExternalPremium
  | SelfHostedAdmin | SelfHostedUser | Native | InvalidConfig

text \<open>Of a server's configuration only its default container matters.\<close>

record serversRepo =
  defaultServerId :: string
  serverKind :: "string \<Rightarrow> configType"
  selfHostedAdminConfig :: "string \<Rightarrow> dockerContainer option"
  selfHostedUserConfig :: "string \<Rightarrow> dockerContainer option"
  nativeConfig :: "string \<Rightarrow> dockerContainer option"
  apiV2Config :: "string \<Rightarrow> dockerContainer option"

definition containerByKind :: "serversRepo \<Rightarrow> string \<Rightarrow> dockerContainer" where
  "containerByKind repo serverId =
     (let orNone = (\<lambda>c. case c of Some container \<Rightarrow> container | None \<Rightarrow> NoContainer)
      in case serverKind repo serverId of
        SelfHostedAdmin \<Rightarrow> orNone (selfHostedAdminConfig repo serverId)
      | SelfHostedUser \<Rightarrow> orNone (selfHostedUserConfig repo serverId)
      | Native \<Rightarrow> orNone (nativeConfig repo serverId)
      | AmneziaPremiumV2 \<Rightarrow> orNone (apiV2Config repo serverId)
      | AmneziaFreeV3 \<Rightarrow> orNone (apiV2Config repo serverId)
      | ExternalPremium \<Rightarrow> orNone (apiV2Config repo serverId)
      | _ \<Rightarrow> NoContainer)"

definition defaultContainerForServer :: "serversRepo \<Rightarrow> string \<Rightarrow> dockerContainer" where
  "defaultContainerForServer repo serverId = (if serverId = [] then NoContainer else containerByKind repo serverId)"

definition legacyRouting :: "dockerContainer \<Rightarrow> bool" where
  "legacyRouting container \<longleftrightarrow> \<not> isAwgContainer container \<and> container \<noteq> WireGuard"

section \<open>State\<close>

datatype pendingAction = NoAction | StartConnection | RequestReconnect | StartSilentReconnect

datatype ipcCall =
    SetConnectionProtection bool jobj
  | PhysicalNetworkReady
  | ConfigureDnsSplitTunnel "string list" string bool
  | RouteAddList string "string list"
  | RouteDeleteList string "string list"
  | AddKillSwitchAllowedRange "string list"
  | FlushDns
  | ResetIpStack
  | ClearSavedRoutes
  | SetAlwaysBlockedSites "string list"
  | RefreshKillSwitch bool

text \<open>The log: calls whose answer is awaited (\<^const>\<open>None\<close>: no answer in time), calls without, what is asked of a protocol
  and the signals of the connection.\<close>

datatype vcAct =
    Called ipcCall "int option"
  | Sent ipcCall
  | ProtocolStart nat
  | ProtocolStop nat
  | ConnectionStateChanged connState
  | ConnectionHealthChanged health
  | VpnProtocolError errorCode
  | BytesChanged "64 word" "64 word"

datatype protoSignal = StateSignal connState | ErrorSignal errorCode | BytesSignal "64 word" "64 word"

datatype startEvent = Emits protoSignal | UserDisconnects

record vcEnv =
  serviceUp :: "vcAct list \<Rightarrow> bool"
  ipcReply :: "vcAct list \<Rightarrow> ipcCall \<Rightarrow> int option"
  startResult :: "vcAct list \<Rightarrow> startEvent list \<times> errorCode"
  stopSignals :: "vcAct list \<Rightarrow> protoSignal list"
  requestStatus :: "vcAct list \<Rightarrow> bool"
  protocolLastError :: "vcAct list \<Rightarrow> errorCode"
  routeGateway :: "vcAct list \<Rightarrow> string"
  vpnGateway :: "vcAct list \<Rightarrow> string"
  readsIPv4 :: "string \<Rightarrow> bool"
  getIPAddress :: "string \<Rightarrow> string"

text \<open>What goes wrong outside the defined behaviour of C++: a null protocol is used, or a rule text normalises to nothing.\<close>

datatype vcFault = NullProtocol | EmptyRule

text \<open>Calls posted to the event loop: the first health check, and the routes of the sites, which wait for a second and
  are dropped when their protocol is gone.\<close>

datatype posted = PostHealthCheck | PostSiteRoutes routeMode nat

record vcState =
  m_serversRepository :: "serversRepo option"
  m_appSettingsRepository :: "appSettings option"
  m_vpnProtocol :: "nat option"
  protocolErrorSlot :: bool
  stateSlot :: bool
  m_vpnConfiguration :: jobj
  m_remoteAddress :: string
  connectingTimer :: bool
  healthTimer :: bool
  connectedRecoveryTimer :: bool
  pendingNetworkTimer :: bool
  pendingNetworkDeadlineTimer :: bool
  dnsFlushDebounce :: bool
  m_connectivityProbe :: bool
  m_connectivityProbeWindow :: "int list"
  m_connectionState :: connState
  m_connectionHealth :: health
  m_lastError :: errorCode
  m_healthChecksWithoutTraffic :: nat
  m_connectedRecoveryAttempts :: nat
  m_noTrafficRecoveryAttempted :: bool
  m_silentReconnectInProgress :: bool
  m_stoppingAfterFailure :: bool
  m_pendingNetworkAction :: pendingAction
  m_currentServerId :: string
  m_currentContainer :: dockerContainer
  nextProtocol :: nat
  postedCalls :: "posted list"
  vcFaults :: "vcFault list"
  vcLog :: "vcAct list"

definition kMaxConnectedRecoveryAttempts :: nat where
  "kMaxConnectedRecoveryAttempts = 3"

definition act :: "vcAct \<Rightarrow> vcState \<Rightarrow> vcState" where
  "act a s = s\<lparr>vcLog := vcLog s @ [a]\<rparr>"

definition raise :: "vcFault \<Rightarrow> vcState \<Rightarrow> vcState" where
  "raise f s = s\<lparr>vcFaults := vcFaults s @ [f]\<rparr>"

text \<open>A use of \<^verbatim>\<open>m_vpnProtocol->\<close>.\<close>

definition useProtocol :: "vcState \<Rightarrow> vcState" where
  "useProtocol s = (if m_vpnProtocol s = None then raise NullProtocol s else s)"

definition callService :: "vcEnv \<Rightarrow> ipcCall \<Rightarrow> vcState \<Rightarrow> int option \<times> vcState" where
  "callService env call s = (let r = ipcReply env (vcLog s) call in (r, act (Called call r) s))"

definition replyOk :: "int option \<Rightarrow> bool" where
  "replyOk r \<longleftrightarrow> r \<noteq> None \<and> r \<noteq> Some 0"

definition withInterface :: "vcEnv \<Rightarrow> (vcState \<Rightarrow> vcState) \<Rightarrow> vcState \<Rightarrow> vcState" where
  "withInterface env f s = (if serviceUp env (vcLog s) then f s else s)"

section \<open>Timers, errors and health\<close>

definition markLastError :: "errorCode \<Rightarrow> vcState \<Rightarrow> vcState" where
  "markLastError e s = s\<lparr>m_lastError := e\<rparr>"

definition startConnectingWatchdog :: "vcState \<Rightarrow> vcState" where
  "startConnectingWatchdog s = s\<lparr>connectingTimer := True\<rparr>"

definition stopConnectingWatchdog :: "vcState \<Rightarrow> vcState" where
  "stopConnectingWatchdog s = s\<lparr>connectingTimer := False\<rparr>"

definition stopPendingNetworkAction :: "vcState \<Rightarrow> vcState" where
  "stopPendingNetworkAction s =
     s\<lparr>m_pendingNetworkAction := NoAction, pendingNetworkTimer := False, pendingNetworkDeadlineTimer := False\<rparr>"

definition stopConnectedHealthCheck :: "vcState \<Rightarrow> vcState" where
  "stopConnectedHealthCheck s = s\<lparr>healthTimer := False, m_healthChecksWithoutTraffic := 0\<rparr>"

definition stopConnectedRecovery :: "vcState \<Rightarrow> vcState" where
  "stopConnectedRecovery s = s\<lparr>connectedRecoveryTimer := False\<rparr>"

definition startConnectivityProbe :: "vcState \<Rightarrow> vcState" where
  "startConnectivityProbe s = s\<lparr>m_connectivityProbe := True\<rparr>"

definition stopConnectivityProbe :: "vcState \<Rightarrow> vcState" where
  "stopConnectivityProbe s = s\<lparr>m_connectivityProbe := False\<rparr>"

definition recordConnectivityProbe :: "int \<Rightarrow> vcState \<Rightarrow> vcState" where
  "recordConnectivityProbe connectMs s =
     (let window = m_connectivityProbeWindow s @ [connectMs]
      in s\<lparr>m_connectivityProbeWindow := drop (length window - 20) window\<rparr>)"

definition shouldPublishConnectionHealth :: "health \<Rightarrow> vcState \<Rightarrow> bool" where
  "shouldPublishConnectionHealth h s \<longleftrightarrow>
     (if m_connectionState s = Disconnected then h = Idle \<or> (m_lastError s \<noteq> NoError \<and> connectionHealthProblem h)
      else if m_connectionState s = ErrorState then connectionHealthProblem h
      else True)"

definition setConnectionHealth :: "health \<Rightarrow> vcState \<Rightarrow> vcState" where
  "setConnectionHealth h s =
     (if \<not> shouldPublishConnectionHealth h s \<or> m_connectionHealth s = h then s
      else act (ConnectionHealthChanged h) (s\<lparr>m_connectionHealth := h\<rparr>))"

definition startConnectedHealthCheck :: "vcState \<Rightarrow> vcState" where
  "startConnectedHealthCheck s =
     (let s = s\<lparr>m_healthChecksWithoutTraffic := 0\<rparr>;
          s = (if \<not> connectionHealthProblem (m_connectionHealth s) then setConnectionHealth CheckingTraffic s else s)
      in s\<lparr>healthTimer := True, postedCalls := postedCalls s @ [PostHealthCheck]\<rparr>)"

definition lastError :: "vcEnv \<Rightarrow> vcState \<Rightarrow> errorCode" where
  "lastError env s =
     (if m_lastError s \<noteq> NoError then m_lastError s
      else let protocolError = (if m_vpnProtocol s = None then NoError else protocolLastError env (vcLog s)) in
        if protocolError \<noteq> NoError then protocolError
        else if m_connectionState s = ErrorState then UnknownError else NoError)"

section \<open>Routes and DNS of the sites\<close>

definition syncAlwaysBlockedSites :: "vcEnv \<Rightarrow> vcState \<Rightarrow> vcState" where
  "syncAlwaysBlockedSites env s = (case m_appSettingsRepository s of
       None \<Rightarrow> s
     | Some st \<Rightarrow> (case alwaysBlocked (readsIPv4 env) st of
           None \<Rightarrow> raise EmptyRule s
         | Some blocked \<Rightarrow> withInterface env (act (Sent (SetAlwaysBlockedSites blocked))) s))"

definition onKillSwitchModeChanged :: "vcEnv \<Rightarrow> bool \<Rightarrow> vcState \<Rightarrow> vcState" where
  "onKillSwitchModeChanged env enabled s =
     withInterface env (\<lambda>s. snd (callService env (RefreshKillSwitch enabled) s)) (syncAlwaysBlockedSites env s)"

definition configureDnsSplitTunnel :: "vcEnv \<Rightarrow> string \<Rightarrow> routeMode \<Rightarrow> vcState \<Rightarrow> vcState" where
  "configureDnsSplitTunnel env gw mode s = (case (m_appSettingsRepository s, m_serversRepository s) of
       (Some st, Some repo) \<Rightarrow>
         if \<not> legacyRouting (defaultContainerForServer repo (defaultServerId repo)) then s
         else (case siteDnsRules (vpnSites st mode) of
             None \<Rightarrow> raise EmptyRule s
           | Some rules \<Rightarrow>
               let syncKillSwitch = (mode = VpnAllExceptSites \<and> isKillSwitchEnabled st) in
               withInterface env (act (Sent (ConfigureDnsSplitTunnel rules gw syncKillSwitch)))
                 (setConnectionHealth CheckingDns s))
     | _ \<Rightarrow> s)"

definition addSplitTunnelRoutes :: "vcEnv \<Rightarrow> string \<Rightarrow> routeMode \<Rightarrow> string list \<Rightarrow> vcState \<Rightarrow> vcState" where
  "addSplitTunnelRoutes env gw mode ips s =
     (if ips = [] then s
      else withInterface env (\<lambda>s.
        let (r, s) = callService env (RouteAddList gw ips) s;
            s = (if r \<noteq> Some (int (length ips)) then setConnectionHealth RouteMismatch s else s);
            killSwitch = (case m_appSettingsRepository s of Some st \<Rightarrow> isKillSwitchEnabled st | None \<Rightarrow> False);
            allowedIps = killSwitchAllowedIps mode killSwitch ips
        in if allowedIps = [] then s
           else let s = setConnectionHealth CheckingFirewall s;
                    (r, s) = callService env (AddKillSwitchAllowedRange allowedIps) s
                in if \<not> replyOk r then setConnectionHealth FirewallBlocked s else s)
        (setConnectionHealth ApplyingRoutes s))"

definition addSitesRoutes :: "vcEnv \<Rightarrow> string \<Rightarrow> routeMode \<Rightarrow> vcState \<Rightarrow> vcState" where
  "addSitesRoutes env gw mode s = (case (m_appSettingsRepository s, m_serversRepository s) of
       (Some st, Some repo) \<Rightarrow>
         if \<not> legacyRouting (defaultContainerForServer repo (defaultServerId repo)) then s
         else (case siteRoutes (readsIPv4 env) (vpnSites st mode) of
             None \<Rightarrow> raise EmptyRule s
           | Some ips \<Rightarrow> addSplitTunnelRoutes env gw mode ips s)
     | _ \<Rightarrow> s)"

definition siteRoutesAt :: "vcEnv \<Rightarrow> string \<Rightarrow> routeMode \<Rightarrow> vcState \<Rightarrow> vcState" where
  "siteRoutesAt env gw mode s = addSitesRoutes env gw mode (configureDnsSplitTunnel env gw mode s)"

definition refreshSiteSplitTunnelRoutes :: "vcEnv \<Rightarrow> vcState \<Rightarrow> vcState" where
  "refreshSiteSplitTunnelRoutes env s =
     (if m_connectionState s \<noteq> Connected then s
      else case m_appSettingsRepository s of
          None \<Rightarrow> s
        | Some st \<Rightarrow>
            let mode = storedRouteMode st;
                gw = (if m_vpnProtocol s = None then []
                      else if mode = VpnAllExceptSites then routeGateway env (vcLog s) else vpnGateway env (vcLog s))
            in siteRoutesAt env gw mode s)"

section \<open>Changes of state\<close>

text \<open>The first switch of \<^verbatim>\<open>onConnectionStateChanged\<close>.\<close>

definition stateEntered :: "connState \<Rightarrow> vcState \<Rightarrow> vcState" where
  "stateEntered state s =
     (let quiet = (\<lambda>s. stopConnectedRecovery (stopConnectedHealthCheck (stopConnectivityProbe (stopConnectingWatchdog s)))) in
      case state of
        Connecting \<Rightarrow> stopConnectedHealthCheck (stopConnectivityProbe (startConnectingWatchdog (stopConnectedRecovery
          (setConnectionHealth (if m_silentReconnectInProgress s then Recovering else StartingProtocol) s))))
      | Reconnecting \<Rightarrow> stopConnectedHealthCheck (stopConnectivityProbe (startConnectingWatchdog (stopConnectedRecovery
          (setConnectionHealth Recovering s))))
      | Connected \<Rightarrow> setConnectionHealth ApplyingRoutes (stopConnectingWatchdog s)
      | Disconnected \<Rightarrow> (let s = quiet s;
            s = (if \<not> connectionHealthProblem (m_connectionHealth s) then markLastError NoError s else s)
          in setConnectionHealth Idle s)
      | ErrorState \<Rightarrow> (let s = quiet s in
          if \<not> connectionHealthProblem (m_connectionHealth s) then setConnectionHealth UnknownFailure s else s)
      | Preparing \<Rightarrow> setConnectionHealth PreparingConfig s
      | Disconnecting \<Rightarrow> quiet s
      | StateUnknown \<Rightarrow> quiet s)"

text \<open>The routes of a tunnel that everything goes through except the listed sites.\<close>

definition exceptRoutes :: "vcEnv \<Rightarrow> string list \<Rightarrow> vcState \<Rightarrow> vcState" where
  "exceptRoutes env dns s =
     (let s = useProtocol (setConnectionHealth ApplyingRoutes s);
          (first, s) = callService env (RouteAddList (vpnGateway env (vcLog s)) [''0.0.0.0/1'']) s;
          (second, s) = callService env (RouteAddList (vpnGateway env (vcLog s)) [''128.0.0.0/1'']) s;
          s = (if first \<noteq> Some 1 \<or> second \<noteq> Some 1 then setConnectionHealth RouteMismatch s else s);
          (remote, s) = callService env (RouteAddList (routeGateway env (vcLog s)) [m_remoteAddress s]) s;
          s = (if remote \<noteq> Some 1 then setConnectionHealth RouteMismatch s else s);
          s = setConnectionHealth CheckingDns s;
          (dnsRoutes, s) = callService env (RouteAddList (routeGateway env (vcLog s)) dns) s;
          s = (if dnsRoutes \<noteq> Some 2 then setConnectionHealth DnsFailed s else s)
      in siteRoutesAt env (routeGateway env (vcLog s)) VpnAllExceptSites s)"

definition connectedRoutes :: "vcEnv \<Rightarrow> appSettings \<Rightarrow> vcState \<Rightarrow> vcState" where
  "connectedRoutes env st s =
     (let s = setConnectionHealth CheckingDns (act (Sent ResetIpStack) s);
          (flushed, s) = callService env FlushDns s;
          s = (if replyOk flushed then s else setConnectionHealth DnsFailed s);
          dns = dnsStrings (m_vpnConfiguration s);
          s = (if \<not> isSitesSplitTunnelingEnabled st \<or> storedRouteMode st \<noteq> VpnAllExceptSites
               then let s = useProtocol s in act (Sent (RouteAddList (vpnGateway env (vcLog s)) dns)) s else s)
      in if isSitesSplitTunnelingEnabled st then
           let s = useProtocol s; s = act (Sent (RouteDeleteList (vpnGateway env (vcLog s)) [''0.0.0.0''])) s in
           case (storedRouteMode st, m_vpnProtocol s) of
             (VpnOnlyForwardSites, Some p) \<Rightarrow> s\<lparr>postedCalls := postedCalls s @ [PostSiteRoutes VpnOnlyForwardSites p]\<rparr>
           | (VpnAllExceptSites, _) \<Rightarrow> exceptRoutes env dns s
           | _ \<Rightarrow> s
         else configureDnsSplitTunnel env [] VpnAllSites s)"

definition disconnectedRoutes :: "vcEnv \<Rightarrow> vcState \<Rightarrow> vcState" where
  "disconnectedRoutes env s =
     (let s = configureDnsSplitTunnel env [] VpnAllSites (s\<lparr>dnsFlushDebounce := False\<rparr>)
      in act (Sent ClearSavedRoutes) (act (Sent FlushDns) s))"

definition onConnectionStateChanged :: "vcEnv \<Rightarrow> connState \<Rightarrow> vcState \<Rightarrow> vcState" where
  "onConnectionStateChanged env state s =
     (let s = stateEntered state s;
          checked = (\<lambda>s. if state = Connected then startConnectedHealthCheck s else s)
      in case (m_serversRepository s, m_appSettingsRepository s) of
           (Some repo, Some st) \<Rightarrow>
             if \<not> legacyRouting (containerByKind repo (defaultServerId repo)) then checked s
             else checked (withInterface env
               (if state = Connected then connectedRoutes env st
                else if state = Disconnected \<or> state = ErrorState then disconnectedRoutes env else (\<lambda>s. s)) s)
         | _ \<Rightarrow> checked s)"

text \<open>\<^verbatim>\<open>setConnectionState\<close> after its first test.\<close>

definition changeState :: "vcEnv \<Rightarrow> connState \<Rightarrow> vcState \<Rightarrow> vcState" where
  "changeState env state s =
     (let previousState = m_connectionState s in
      if m_stoppingAfterFailure s \<and> state = Disconnected then s
      else if previousState = ErrorState \<and> state = Disconnected \<and> m_lastError s \<noteq> NoError then s
      else
        let s = (if state = Connected then s\<lparr>m_silentReconnectInProgress := False\<rparr> else s);
            s = (if state = ErrorState \<and> m_lastError s = NoError \<and>
                    (m_vpnProtocol s = None \<or> protocolLastError env (vcLog s) = NoError)
                 then markLastError UnknownError s else s);
            s' = onConnectionStateChanged env state (s\<lparr>m_connectionState := state\<rparr>)
        in if state = Disconnected \<and> previousState = Reconnecting then s'\<lparr>m_connectionState := previousState\<rparr>
           else act (ConnectionStateChanged state) s')"

definition recoverConnectedTunnel :: "health \<Rightarrow> errorCode \<Rightarrow> vcState \<Rightarrow> bool \<times> vcState" where
  "recoverConnectedTunnel h error s =
     (let s = setConnectionHealth h (markLastError error s) in
      if m_connectionState s \<noteq> Connected \<or> m_silentReconnectInProgress s \<or> m_vpnProtocol s = None \<or> m_currentServerId s = []
      then (False, stopConnectedHealthCheck s)
      else if connectedRecoveryTimer s \<or> m_pendingNetworkAction s \<noteq> NoAction then (True, s)
      else if m_connectedRecoveryAttempts s \<ge> kMaxConnectedRecoveryAttempts then (False, stopConnectedHealthCheck s)
      else (True, (stopConnectivityProbe (stopConnectedHealthCheck
             (s\<lparr>m_connectedRecoveryAttempts := m_connectedRecoveryAttempts s + 1, m_noTrafficRecoveryAttempted := True\<rparr>)))
               \<lparr>connectedRecoveryTimer := True\<rparr>))"

definition dropSlots :: "vcState \<Rightarrow> vcState" where
  "dropSlots s = s\<lparr>protocolErrorSlot := False, stateSlot := False\<rparr>"

text \<open>A protocol that is stopped after its slots were disconnected is not heard any more. The state is set to an error
  only, which the first test of \<^verbatim>\<open>setConnectionState\<close> lets through.\<close>

definition handleSilentReconnectFailure :: "vcEnv \<Rightarrow> health \<Rightarrow> errorCode \<Rightarrow> vcState \<Rightarrow> bool \<times> vcState" where
  "handleSilentReconnectFailure env h error s =
     (let s = (stopConnectingWatchdog s)\<lparr>m_silentReconnectInProgress := False\<rparr>;
          s = (case m_vpnProtocol s of
                 Some p \<Rightarrow> (act (ProtocolStop p) (dropSlots (s\<lparr>m_stoppingAfterFailure := True\<rparr>)))\<lparr>m_stoppingAfterFailure := False\<rparr>
               | None \<Rightarrow> s)
      in case recoverConnectedTunnel h error s of
           (True, s) \<Rightarrow> (True, s)
         | (False, s) \<Rightarrow> (False, act (VpnProtocolError error) (changeState env ErrorState s)))"

definition setConnectionState :: "vcEnv \<Rightarrow> connState \<Rightarrow> vcState \<Rightarrow> vcState" where
  "setConnectionState env state s =
     (if m_silentReconnectInProgress s \<and> state = Disconnected \<and> m_connectionState s = Connected
      then snd (handleSilentReconnectFailure env LocalServiceUnavailable AmneziaServiceConnectionFailed s)
      else changeState env state s)"

section \<open>Signals of the protocol\<close>

definition onBytesChanged :: "64 word \<Rightarrow> 64 word \<Rightarrow> vcState \<Rightarrow> vcState" where
  "onBytesChanged receivedBytes sentBytes s =
     act (BytesChanged receivedBytes sentBytes)
       (if m_connectionState s = Connected \<and> receivedBytes > 0 then s\<lparr>m_healthChecksWithoutTraffic := 0\<rparr> else s)"

definition onProtocolError :: "vcEnv \<Rightarrow> errorCode \<Rightarrow> vcState \<Rightarrow> vcState" where
  "onProtocolError env error s =
     (if m_silentReconnectInProgress s \<and> recoverableProtocolError error
      then snd (handleSilentReconnectFailure env (connectionHealthForError error) error s)
      else
        let s = markLastError error s;
            s = (if error = AmneziaServiceConnectionFailed \<or> error = VpnBackendFailure
                 then setConnectionHealth LocalServiceUnavailable s else s);
            s = (if m_connectionState s \<noteq> Disconnected \<and> m_connectionState s \<noteq> Disconnecting
                 then setConnectionState env ErrorState (s\<lparr>m_silentReconnectInProgress := False\<rparr>) else s)
        in act (VpnProtocolError error) s)"

fun deliver :: "vcEnv \<Rightarrow> protoSignal \<Rightarrow> vcState \<Rightarrow> vcState" where
  "deliver env (StateSignal state) s = (if stateSlot s then setConnectionState env state s else s)"
| "deliver env (ErrorSignal e) s = (if protocolErrorSlot s then onProtocolError env e s else s)"
| "deliver env (BytesSignal r t) s = (if stateSlot s then onBytesChanged r t s else s)"

text \<open>\<^verbatim>\<open>m_vpnProtocol->stop()\<close> with the signals it emits.\<close>

definition stopProtocol :: "vcEnv \<Rightarrow> vcState \<Rightarrow> vcState" where
  "stopProtocol env s = (case m_vpnProtocol s of
       None \<Rightarrow> raise NullProtocol s
     | Some p \<Rightarrow> (let s = act (ProtocolStop p) s in fold (deliver env) (stopSignals env (vcLog s)) s))"

section \<open>Disconnecting\<close>

definition disconnectFromVpn :: "vcEnv \<Rightarrow> vcState \<Rightarrow> vcState" where
  "disconnectFromVpn env s =
     (let s = withInterface env (\<lambda>s. snd (callService env (SetConnectionProtection False []) s)) s;
          s = (stopPendingNetworkAction s)\<lparr>m_silentReconnectInProgress := False, m_stoppingAfterFailure := False,
                m_connectedRecoveryAttempts := 0, m_noTrafficRecoveryAttempted := False\<rparr>;
          s = stopConnectingWatchdog (stopConnectedRecovery s)
      in if m_vpnProtocol s = None then setConnectionState env Disconnected s
         else
           let s = (stopProtocol env (setConnectionState env Disconnecting s))\<lparr>m_vpnProtocol := None\<rparr>
           in if m_connectionState s = Disconnecting then setConnectionState env Disconnected s else s)"

section \<open>Starting a protocol\<close>

fun factory :: "dockerContainer \<Rightarrow> bool" where
  "factory OpenVpn = True"
| "factory WireGuard = True"
| "factory Awg2 = True"
| "factory Awg = True"
| "factory Xray = True"
| "factory SSXray = True"
| "factory _ = False"

definition createProtocol :: "vcState \<Rightarrow> vcState" where
  "createProtocol s = (if factory (m_currentContainer s)
     then dropSlots (s\<lparr>m_vpnProtocol := Some (nextProtocol s), nextProtocol := nextProtocol s + 1\<rparr>)
     else dropSlots (s\<lparr>m_vpnProtocol := None\<rparr>))"

definition createProtocolConnections :: "vcState \<Rightarrow> vcState" where
  "createProtocolConnections s = s\<lparr>protocolErrorSlot := True, stateSlot := True\<rparr>"

fun startStep :: "vcEnv \<Rightarrow> startEvent \<Rightarrow> vcState \<Rightarrow> vcState" where
  "startStep env (Emits sig) s = deliver env sig s"
| "startStep env UserDisconnects s = disconnectFromVpn env s"

text \<open>\<^verbatim>\<open>protocol->start()\<close>\<close>

definition startProtocol :: "vcEnv \<Rightarrow> nat \<Rightarrow> vcState \<Rightarrow> errorCode \<times> vcState" where
  "startProtocol env p s =
     (let s = act (ProtocolStart p) s; (events, err) = startResult env (vcLog s)
      in (err, fold (startStep env) events s))"

definition startFailed :: "vcEnv \<Rightarrow> errorCode \<Rightarrow> health \<Rightarrow> vcState \<Rightarrow> vcState" where
  "startFailed env err h s =
     act (VpnProtocolError err) (setConnectionState env ErrorState (setConnectionHealth h (markLastError err s)))"

definition startConfiguredConnection :: "vcEnv \<Rightarrow> vcState \<Rightarrow> vcState" where
  "startConfiguredConnection env s =
     (let s = createProtocol (startConnectingWatchdog (stopPendingNetworkAction s)) in
      case m_vpnProtocol s of
        None \<Rightarrow> act (VpnProtocolError InternalError) (setConnectionState env ErrorState (markLastError InternalError s))
      | Some p \<Rightarrow> (case startProtocol env p (createProtocolConnections s) of (err, s) \<Rightarrow>
          if m_vpnProtocol s \<noteq> Some p then dropSlots s
          else if err \<noteq> NoError then startFailed env err ProtocolStartFailed s
          else if \<not> m_silentReconnectInProgress s then setConnectionHealth WaitingHandshake s else s))"

section \<open>Waiting for the physical network\<close>

definition physicalNetworkReady :: "vcEnv \<Rightarrow> vcState \<Rightarrow> bool \<times> vcState" where
  "physicalNetworkReady env s =
     (if serviceUp env (vcLog s) then
        (case callService env PhysicalNetworkReady s of (r, s) \<Rightarrow> (case r of None \<Rightarrow> True | Some v \<Rightarrow> v \<noteq> 0, s))
      else (True, s))"

definition deferUntilPhysicalNetworkReady :: "vcEnv \<Rightarrow> pendingAction \<Rightarrow> health \<Rightarrow> vcState \<Rightarrow> bool \<times> vcState" where
  "deferUntilPhysicalNetworkReady env action h s = (case physicalNetworkReady env s of
       (True, s) \<Rightarrow> (False, s)
     | (False, s) \<Rightarrow>
         let s = s\<lparr>m_pendingNetworkAction := action, pendingNetworkTimer := True\<rparr>;
             s = (if action = StartConnection then s\<lparr>pendingNetworkDeadlineTimer := True\<rparr> else s);
             s = stopConnectivityProbe (stopConnectedRecovery (stopConnectingWatchdog s))
         in (True, setConnectionHealth h s))"

section \<open>Reconnecting\<close>

definition startSilentReconnect :: "vcEnv \<Rightarrow> vcState \<Rightarrow> vcState" where
  "startSilentReconnect env s =
     (if m_silentReconnectInProgress s then s
      else case deferUntilPhysicalNetworkReady env StartSilentReconnect Recovering s of
          (True, s) \<Rightarrow> s
        | (False, s) \<Rightarrow>
            let s = stopConnectedRecovery (stopConnectingWatchdog (stopPendingNetworkAction s));
                s = setConnectionHealth Recovering (s\<lparr>m_silentReconnectInProgress := True\<rparr>);
                s = dropSlots (useProtocol s);
                s = (case m_vpnProtocol s of Some old \<Rightarrow> act (ProtocolStop old) s | None \<Rightarrow> s);
                s = createProtocol s
            in case m_vpnProtocol s of
                 None \<Rightarrow> startFailed env InternalError ProtocolStartFailed (s\<lparr>m_silentReconnectInProgress := False\<rparr>)
               | Some p \<Rightarrow>
                   (case startProtocol env p (startConnectingWatchdog (createProtocolConnections s)) of (err, s) \<Rightarrow>
                      if m_vpnProtocol s \<noteq> Some p then dropSlots s
                      else if err \<noteq> NoError then
                        if recoverableProtocolError err
                        then snd (handleSilentReconnectFailure env (connectionHealthForError err) err s)
                        else startFailed env err ProtocolStartFailed
                               ((stopConnectingWatchdog s)\<lparr>m_silentReconnectInProgress := False\<rparr>)
                      else if m_silentReconnectInProgress s then setConnectionHealth Recovering s else s))"

definition reconnectToVpn :: "vcEnv \<Rightarrow> vcState \<Rightarrow> vcState" where
  "reconnectToVpn env s =
     (if m_vpnProtocol s = None then s
      else if m_silentReconnectInProgress s \<or> connectedRecoveryTimer s \<or> m_pendingNetworkAction s \<noteq> NoAction then s
      else if m_connectionState s \<noteq> Connected then s
      else case deferUntilPhysicalNetworkReady env RequestReconnect Recovering s of
          (True, s) \<Rightarrow> s
        | (False, s) \<Rightarrow>
            let s = (if \<not> m_silentReconnectInProgress s then s\<lparr>m_connectedRecoveryAttempts := 0\<rparr> else s) in
            if m_connectedRecoveryAttempts s \<ge> kMaxConnectedRecoveryAttempts then s
            else startSilentReconnect env
              (s\<lparr>m_connectedRecoveryAttempts := m_connectedRecoveryAttempts s + 1, m_noTrafficRecoveryAttempted := True\<rparr>))"

definition resumePendingNetworkAction :: "vcEnv \<Rightarrow> vcState \<Rightarrow> vcState" where
  "resumePendingNetworkAction env s =
     (if m_pendingNetworkAction s = NoAction then s
      else case physicalNetworkReady env s of
          (False, s) \<Rightarrow> s
        | (True, s) \<Rightarrow>
            let action = m_pendingNetworkAction s; s = stopPendingNetworkAction s in
            case action of
              StartConnection \<Rightarrow> if m_connectionState s = Connecting then startConfiguredConnection env s else s
            | RequestReconnect \<Rightarrow> if m_connectionState s = Connected then reconnectToVpn env s else s
            | StartSilentReconnect \<Rightarrow> if m_connectionState s = Connected then startSilentReconnect env s else s
            | NoAction \<Rightarrow> s)"

definition onConnectingTimedOut :: "vcEnv \<Rightarrow> vcState \<Rightarrow> vcState" where
  "onConnectingTimedOut env s =
     (let silentReconnectTimedOut = (m_silentReconnectInProgress s \<and> m_connectionState s = Connected) in
      if \<not> silentReconnectTimedOut \<and> m_connectionState s \<noteq> Connecting \<and> m_connectionState s \<noteq> Reconnecting then s
      else if silentReconnectTimedOut then snd (handleSilentReconnectFailure env HandshakeTimeout VpnHandshakeTimeout s)
      else
        let s = setConnectionHealth HandshakeTimeout (markLastError VpnHandshakeTimeout s);
            s = (if m_vpnProtocol s \<noteq> None then stopProtocol env (s\<lparr>m_stoppingAfterFailure := True\<rparr>) else s)
        in act (VpnProtocolError VpnHandshakeTimeout)
             ((setConnectionState env ErrorState s)\<lparr>m_stoppingAfterFailure := False\<rparr>))"

section \<open>Connecting\<close>

text \<open>The connection is protected before anything is started.\<close>

definition protectConnection :: "vcEnv \<Rightarrow> bool \<Rightarrow> jobj \<Rightarrow> vcState \<Rightarrow> bool \<times> vcState" where
  "protectConnection env enabled config s =
     (if serviceUp env (vcLog s)
      then (case callService env (SetConnectionProtection enabled config) s of (r, s) \<Rightarrow> (replyOk r, s))
      else (False, s))"

definition discardProtocol :: "vcEnv \<Rightarrow> vcState \<Rightarrow> vcState" where
  "discardProtocol env s =
     (if m_vpnProtocol s = None then s
      else dropSlots ((stopProtocol env (s\<lparr>protocolErrorSlot := False\<rparr>))\<lparr>m_vpnProtocol := None\<rparr>))"

definition connectRequested :: "vcEnv \<Rightarrow> string \<Rightarrow> dockerContainer \<Rightarrow> jobj \<Rightarrow> vcState \<Rightarrow> vcState" where
  "connectRequested env serverId container vpnConfiguration s =
     (let s = (stopConnectedRecovery ((markLastError NoError s)\<lparr>m_connectedRecoveryAttempts := 0,
                 m_noTrafficRecoveryAttempted := False\<rparr>))\<lparr>m_stoppingAfterFailure := False, m_currentServerId := serverId,
                 m_currentContainer := container,
                 m_remoteAddress := getIPAddress env (jToString (jvalue vpnConfiguration ''hostName''))\<rparr>
      in (setConnectionState env Connecting (stopPendingNetworkAction s))\<lparr>m_vpnConfiguration := vpnConfiguration\<rparr>)"

definition connectToVpn :: "vcEnv \<Rightarrow> string \<Rightarrow> dockerContainer \<Rightarrow> jobj \<Rightarrow> vcState \<Rightarrow> vcState" where
  "connectToVpn env serverId container vpnConfiguration s =
     (case (m_appSettingsRepository s, m_serversRepository s) of
        (Some st, Some repo) \<Rightarrow>
          let s = connectRequested env serverId container vpnConfiguration s in
          (case appendSplitTunnelingConfig (readsIPv4 env) st (m_currentContainer s)
                  (appendKillSwitchConfig st (m_vpnConfiguration s)) of
             None \<Rightarrow> raise EmptyRule s
           | Some config \<Rightarrow>
               (case protectConnection env (isKillSwitchEnabled st) (qinsert ''vpnServer'' (JStr (m_remoteAddress s)) config)
                       (s\<lparr>m_vpnConfiguration := config\<rparr>) of
                  (False, s) \<Rightarrow> startFailed env AmneziaServiceConnectionFailed LocalServiceUnavailable s
                | (True, s) \<Rightarrow>
                    (case deferUntilPhysicalNetworkReady env StartConnection CheckingLocalNetwork (discardProtocol env s) of
                       (True, s) \<Rightarrow> s
                     | (False, s) \<Rightarrow> startConfiguredConnection env s)))
      | _ \<Rightarrow> setConnectionState env ErrorState s)"

section \<open>Health checks\<close>

definition checkConnectedHealth :: "vcEnv \<Rightarrow> vcState \<Rightarrow> vcState" where
  "checkConnectedHealth env s =
     (if m_connectionState s \<noteq> Connected then stopConnectedHealthCheck s
      else if m_silentReconnectInProgress s then s
      else if m_connectionHealth s = DnsFailed then s
      else if m_connectionHealth s = Healthy then startConnectivityProbe s
      else if m_vpnProtocol s = None then startConnectivityProbe s
      else if \<not> requestStatus env (vcLog s) then startConnectivityProbe s
      else let s = s\<lparr>m_healthChecksWithoutTraffic := m_healthChecksWithoutTraffic s + 1\<rparr>
           in if m_healthChecksWithoutTraffic s \<ge> 5 then startConnectivityProbe s else s)"

text \<open>The answer to the look-up that \<^verbatim>\<open>checkDnsHealth\<close> starts.\<close>

definition onDnsHealthAnswer :: "bool \<Rightarrow> vcState \<Rightarrow> vcState" where
  "onDnsHealthAnswer resolved s =
     (if m_connectionState s \<noteq> Connected \<or> m_silentReconnectInProgress s then s
      else if \<not> resolved then snd (recoverConnectedTunnel DnsFailed VpnNoTrafficError s)
      else if m_connectionHealth s = DnsFailed then setConnectionHealth Healthy (markLastError NoError s) else s)"

definition onConnectivityProbeSucceeded :: "vcState \<Rightarrow> vcState" where
  "onConnectivityProbeSucceeded s =
     (let s = stopConnectivityProbe s in
      if m_connectionState s \<noteq> Connected then s
      else
        let s = (markLastError NoError s)\<lparr>m_connectedRecoveryAttempts := 0, m_noTrafficRecoveryAttempted := False\<rparr>
        in if m_connectionHealth s \<noteq> DnsFailed then setConnectionHealth Healthy s else s)"

definition onConnectivityProbeFailed :: "vcState \<Rightarrow> vcState" where
  "onConnectivityProbeFailed s =
     (let s = stopConnectivityProbe s in
      if m_connectionState s \<noteq> Connected \<or> m_silentReconnectInProgress s then s
      else snd (recoverConnectedTunnel NoTraffic VpnNoTrafficError s))"

section \<open>Requests of the application\<close>

text \<open>The signals that are connected here, and the call that is queued, are the events \<open>BlockedSitesChanged\<close>.\<close>

definition setRepositories :: "serversRepo option \<Rightarrow> appSettings option \<Rightarrow> vcState \<Rightarrow> vcState" where
  "setRepositories repo st s = s\<lparr>m_serversRepository := repo, m_appSettingsRepository := st\<rparr>"

definition disconnectSlots :: "vcState \<Rightarrow> vcState" where
  "disconnectSlots s = (if m_vpnProtocol s = None then s else dropSlots s)"

section \<open>Runs\<close>

datatype vcEvent =
    Connect string dockerContainer jobj
  | Disconnect
  | ReconnectRequested          \<comment> \<open>the service reports a changed network or a wake-up\<close>
  | PhysicalNetworkReadyChanged bool
  | StateRequested connState    \<comment> \<open>the user interface prepares a connection or gives up\<close>
  | DiagnosticRequested health
  | ProtocolSignal protoSignal
  | ConnectingTimeout
  | HealthTick
  | RecoveryTimeout
  | PendingTick
  | PendingDeadline
  | ResumeQueued
  | PostedRuns posted
  | ProbeConnected int
  | ProbeFailed
  | DnsHealthAnswer bool
  | DnsConfigured bool
  | KillSwitchModeChanged bool
  | SettingsChanged appSettings
  | RepositoriesSet "serversRepo option" "appSettings option"
  | SlotsDisconnected
  | BlockedSitesChanged
  | RoutesRefreshed

text \<open>The user interface asks only for the states below.\<close>

fun vcStep :: "vcEnv \<Rightarrow> vcEvent \<Rightarrow> vcState \<Rightarrow> vcState" where
  "vcStep env (Connect serverId container config) s = connectToVpn env serverId container config s"
| "vcStep env Disconnect s = disconnectFromVpn env s"
| "vcStep env ReconnectRequested s = reconnectToVpn env s"
| "vcStep env (PhysicalNetworkReadyChanged ready) s = (if ready then resumePendingNetworkAction env s else s)"
| "vcStep env (StateRequested state) s =
     (if state = Preparing \<or> state = Disconnected then setConnectionState env state s else s)"
| "vcStep env (DiagnosticRequested h) s = setConnectionHealth h s"
| "vcStep env (ProtocolSignal sig) s = (if m_vpnProtocol s = None then s else deliver env sig s)"
| "vcStep env ConnectingTimeout s =
     (if connectingTimer s then onConnectingTimedOut env (s\<lparr>connectingTimer := False\<rparr>) else s)"
| "vcStep env HealthTick s = (if healthTimer s then checkConnectedHealth env s else s)"
| "vcStep env RecoveryTimeout s =
     (if connectedRecoveryTimer s then
        let s = s\<lparr>connectedRecoveryTimer := False\<rparr> in
        if m_connectionState s \<noteq> Connected \<or> m_silentReconnectInProgress s \<or> m_vpnProtocol s = None \<or> m_currentServerId s = []
        then s else startSilentReconnect env s
      else s)"
| "vcStep env PendingTick s = (if pendingNetworkTimer s then resumePendingNetworkAction env s else s)"
| "vcStep env PendingDeadline s =
     (if pendingNetworkDeadlineTimer s then
        let s = s\<lparr>pendingNetworkDeadlineTimer := False\<rparr> in
        if m_pendingNetworkAction s \<noteq> StartConnection then s else onConnectingTimedOut env (stopPendingNetworkAction s)
      else s)"
| "vcStep env ResumeQueued s = resumePendingNetworkAction env s"
| "vcStep env (PostedRuns p) s =
     (if p \<in> set (postedCalls s) then
        let s = s\<lparr>postedCalls := remove1 p (postedCalls s)\<rparr> in
        case p of
          PostHealthCheck \<Rightarrow> startConnectivityProbe (checkConnectedHealth env s)
        | PostSiteRoutes mode q \<Rightarrow>
            if m_vpnProtocol s = Some q then siteRoutesAt env (vpnGateway env (vcLog s)) mode (useProtocol s) else s
      else s)"
| "vcStep env (ProbeConnected ms) s =
     (if m_connectivityProbe s then onConnectivityProbeSucceeded (recordConnectivityProbe ms s) else s)"
| "vcStep env ProbeFailed s =
     (if m_connectivityProbe s then onConnectivityProbeFailed (recordConnectivityProbe (-1) s) else s)"
| "vcStep env (DnsHealthAnswer resolved) s = onDnsHealthAnswer resolved s"
| "vcStep env (DnsConfigured ok) s = (if ok then s else setConnectionHealth DnsFailed s)"
| "vcStep env (KillSwitchModeChanged enabled) s = onKillSwitchModeChanged env enabled s"
| "vcStep env (SettingsChanged st) s = s\<lparr>m_appSettingsRepository := Some st\<rparr>"
| "vcStep env (RepositoriesSet repo st) s = setRepositories repo st s"
| "vcStep env SlotsDisconnected s = disconnectSlots s"
| "vcStep env BlockedSitesChanged s = syncAlwaysBlockedSites env s"
| "vcStep env RoutesRefreshed s = refreshSiteSplitTunnelRoutes env s"

definition vcState0 :: "serversRepo option \<Rightarrow> appSettings option \<Rightarrow> vcState" where
  "vcState0 repo st = \<lparr>m_serversRepository = repo, m_appSettingsRepository = st, m_vpnProtocol = None,
     protocolErrorSlot = False, stateSlot = False, m_vpnConfiguration = [], m_remoteAddress = [],
     connectingTimer = False, healthTimer = False, connectedRecoveryTimer = False, pendingNetworkTimer = False,
     pendingNetworkDeadlineTimer = False, dnsFlushDebounce = False, m_connectivityProbe = False,
     m_connectivityProbeWindow = [], m_connectionState = Disconnected, m_connectionHealth = Idle, m_lastError = NoError,
     m_healthChecksWithoutTraffic = 0, m_connectedRecoveryAttempts = 0, m_noTrafficRecoveryAttempted = False,
     m_silentReconnectInProgress = False, m_stoppingAfterFailure = False, m_pendingNetworkAction = NoAction,
     m_currentServerId = [], m_currentContainer = NoContainer, nextProtocol = 0, postedCalls = [], vcFaults = [], vcLog = []\<rparr>"

end
