(* ===== verification/Vpn_Lifecycle.thy ===== *)
theory Vpn_Lifecycle
  imports Vpn_Connection
begin

text \<open>
  What holds of every run of the connection of \<^verbatim>\<open>client/vpnConnection.cpp\<close>, whatever the service answers and whatever the
  protocols signal. The proofs go in layers: \<open>keeps\<close> (what setting a health, calling the service or setting routes
  may change), \<open>signalled\<close> (what any signals of a protocol may change) and \<open>ended\<close> (what a disconnect leaves behind);
  the operations that start tunnels then need only these relations. \<open>safe\<close> is the invariant of all runs. \<open>asks\<close> says which
  requests for protection an operation may send while the kill switch is on, and \<open>budget\<close> counts the starts that may
  still follow.
\<close>

named_theorems keeps_intros
named_theorems signalled_intros

section \<open>What the properties speak of\<close>

text \<open>A start of a protocol, and a request to the service that sets or releases the protection of the connection.\<close>

fun isStart :: "vcAct \<Rightarrow> bool" where
  "isStart (ProtocolStart p) = True"
| "isStart _ = False"

fun isProtection :: "vcAct \<Rightarrow> bool" where
  "isProtection (Called (SetConnectionProtection enabled config) r) = True"
| "isProtection _ = False"

definition harmless :: "vcAct \<Rightarrow> bool" where
  "harmless a \<longleftrightarrow> \<not> isStart a \<and> \<not> isProtection a"

text \<open>Whether the service has accepted the configuration of a connection and no disconnect has been reported to it
  since, after one more entry of the log. A connection sends its configuration whether the kill switch is on or not;
  with the kill switch off the request releases the protection, see \<open>releases\<close>.\<close>

fun accepts :: "vcAct \<Rightarrow> bool \<Rightarrow> bool" where
  "accepts (Called (SetConnectionProtection enabled config) r) b =
     (if \<not> enabled \<and> config = [] then False else replyOk r \<or> b)"
| "accepts _ b = b"

definition acceptedAfter :: "vcAct list \<Rightarrow> bool" where
  "acceptedAfter l = fold accepts l False"

text \<open>Every start of a protocol follows an accepted configuration.\<close>

fun startsAcceptedFrom :: "bool \<Rightarrow> vcAct list \<Rightarrow> bool" where
  "startsAcceptedFrom b [] = True"
| "startsAcceptedFrom b (a # l) = ((isStart a \<longrightarrow> b) \<and> startsAcceptedFrom (accepts a b) l)"

definition startsAccepted :: "vcAct list \<Rightarrow> bool" where
  "startsAccepted l = startsAcceptedFrom False l"

definition startCount :: "vcAct list \<Rightarrow> nat" where
  "startCount l = length (filter isStart l)"

lemma startsAcceptedFrom_append:
  "startsAcceptedFrom b (l @ m) \<longleftrightarrow> startsAcceptedFrom b l \<and> startsAcceptedFrom (fold accepts l b) m"
  by (induction l arbitrary: b) auto

lemma startsAcceptedFrom_iff:
  "startsAcceptedFrom b l \<longleftrightarrow> (\<forall>pre p post. l = pre @ ProtocolStart p # post \<longrightarrow> fold accepts pre b)"
proof (induction l arbitrary: b)
  case (Cons a l)
  have start: "isStart a \<longleftrightarrow> (\<exists>p. a = ProtocolStart p)" by (cases a) auto
  have split: "(\<forall>pre. P pre) \<longleftrightarrow> P [] \<and> (\<forall>x xs. P (x # xs))" for P :: "vcAct list \<Rightarrow> bool" by (metis list.exhaust)
  have "(\<forall>pre p post. a # l = pre @ ProtocolStart p # post \<longrightarrow> fold accepts pre b) \<longleftrightarrow>
      (\<forall>p. a = ProtocolStart p \<longrightarrow> b) \<and>
      (\<forall>pre p post. l = pre @ ProtocolStart p # post \<longrightarrow> fold accepts pre (accepts a b))"
    by (subst split) auto
  then show ?case unfolding startsAcceptedFrom.simps Cons.IH start by blast
qed simp

lemma startsAccepted_iff:
  "startsAccepted l \<longleftrightarrow> (\<forall>pre p post. l = pre @ ProtocolStart p # post \<longrightarrow> acceptedAfter pre)"
  by (simp add: startsAccepted_def acceptedAfter_def startsAcceptedFrom_iff)

text \<open>The requests that end the protection of the connection (\<^verbatim>\<open>KillSwitch::setConnectionProtection\<close> with
  \<^verbatim>\<open>enabled\<close> false), the one among them that a disconnect sends, and those that a connection sends.\<close>

fun releases :: "vcAct \<Rightarrow> bool" where
  "releases (Called (SetConnectionProtection enabled config) r) = (\<not> enabled)"
| "releases _ = False"

fun givesUp :: "vcAct \<Rightarrow> bool" where
  "givesUp (Called (SetConnectionProtection enabled config) r) = (\<not> enabled \<and> config = [])"
| "givesUp _ = False"

definition unprotected :: "vcAct \<Rightarrow> bool" where
  "unprotected a \<longleftrightarrow> releases a \<and> \<not> givesUp a"

text \<open>The accepted request that a log ends with.\<close>

lemma accepted_request:
  "acceptedAfter l \<longleftrightarrow> (\<exists>x enabled config r y. l = x @ Called (SetConnectionProtection enabled config) r # y \<and>
     replyOk r \<and> (enabled \<or> config \<noteq> []) \<and> list_all (\<lambda>a. \<not> givesUp a) y)"
  (is "_ \<longleftrightarrow> ?P l")
proof (induction l rule: rev_induct)
  case (snoc a l)
  have P: "?P (l @ [a]) \<longleftrightarrow> (\<exists>enabled config r. a = Called (SetConnectionProtection enabled config) r \<and> replyOk r \<and>
      (enabled \<or> config \<noteq> [])) \<or> (\<not> givesUp a \<and> ?P l)" (is "_ \<longleftrightarrow> ?now \<or> _")
  proof
    assume "?P (l @ [a])"
    then obtain x enabled config r y where 1: "l @ [a] = x @ Called (SetConnectionProtection enabled config) r # y"
      "replyOk r" "enabled \<or> config \<noteq> []" "list_all (\<lambda>a. \<not> givesUp a) y" by blast
    show "?now \<or> (\<not> givesUp a \<and> ?P l)"
    proof (cases y rule: rev_cases)
      case Nil
      then show ?thesis using 1 by auto
    next
      case (snoc z b)
      with 1(1) have "l = x @ Called (SetConnectionProtection enabled config) r # z" "a = b" by simp_all
      moreover have "list_all (\<lambda>a. \<not> givesUp a) z" "\<not> givesUp b" using 1(4) snoc by simp_all
      ultimately show ?thesis using 1(2,3) by blast
    qed
  next
    assume "?now \<or> (\<not> givesUp a \<and> ?P l)"
    then show "?P (l @ [a])"
    proof
      assume ?now
      then obtain enabled config r where "a = Called (SetConnectionProtection enabled config) r" "replyOk r"
        "enabled \<or> config \<noteq> []" by blast
      then have "l @ [a] = l @ Called (SetConnectionProtection enabled config) r # []" "replyOk r"
        "enabled \<or> config \<noteq> []" "list_all (\<lambda>a. \<not> givesUp a) []" by simp_all
      then show ?thesis by blast
    next
      assume "\<not> givesUp a \<and> ?P l"
      then obtain x enabled config r y where "l @ [a] = x @ Called (SetConnectionProtection enabled config) r # (y @ [a])"
        "replyOk r" "enabled \<or> config \<noteq> []" "list_all (\<lambda>a. \<not> givesUp a) (y @ [a])" by auto
      then show ?thesis by blast
    qed
  qed
  have "acceptedAfter (l @ [a]) \<longleftrightarrow> accepts a (acceptedAfter l)" by (simp add: acceptedAfter_def)
  also have "\<dots> \<longleftrightarrow> ?now \<or> (\<not> givesUp a \<and> acceptedAfter l)"
    by (cases "(a, acceptedAfter l)" rule: accepts.cases) auto
  finally show ?case unfolding snoc.IH P .
qed (simp add: acceptedAfter_def)

lemma unprotected_simps [simp]:
  "unprotected (Called (SetConnectionProtection enabled config) r) \<longleftrightarrow> \<not> enabled \<and> config \<noteq> []"
  "\<not> unprotected (ProtocolStart p)"
  by (auto simp: unprotected_def)

lemma harmless_protection: "harmless a \<Longrightarrow> \<not> unprotected a"
  by (cases a rule: releases.cases) (auto simp: harmless_def unprotected_def)

text \<open>The log grows, without a start or a change of protection.\<close>

definition extends :: "vcAct list \<Rightarrow> vcAct list \<Rightarrow> bool" where
  "extends l m \<longleftrightarrow> (\<exists>x. m = l @ x \<and> list_all harmless x)"

lemma extends_refl [simp]: "extends l l"
  by (simp add: extends_def)

lemma extends_trans [trans]: "extends l m \<Longrightarrow> extends m n \<Longrightarrow> extends l n"
  by (auto simp: extends_def)

lemma extends_snoc: "extends l m \<Longrightarrow> harmless a \<Longrightarrow> extends l (m @ [a])"
  by (auto simp: extends_def)

lemma accepts_harmless: "harmless a \<Longrightarrow> accepts a b = b"
  by (cases "(a, b)" rule: accepts.cases) (auto simp: harmless_def)

lemma fold_accepts_harmless: "list_all harmless x \<Longrightarrow> fold accepts x b = b"
  by (induction x arbitrary: b) (auto simp: accepts_harmless)

lemma startsAcceptedFrom_harmless: "list_all harmless x \<Longrightarrow> startsAcceptedFrom b x"
  by (induction x arbitrary: b) (auto simp: accepts_harmless harmless_def)

lemma filter_isStart_harmless: "list_all harmless x \<Longrightarrow> filter isStart x = []"
  by (induction x) (auto simp: harmless_def)

lemma extends_facts:
  assumes "extends l m"
  shows "acceptedAfter m = acceptedAfter l" "startsAccepted m = startsAccepted l" "startCount m = startCount l"
  using assms by (auto simp: extends_def acceptedAfter_def startsAccepted_def startCount_def startsAcceptedFrom_append
      fold_accepts_harmless startsAcceptedFrom_harmless filter_isStart_harmless)

section \<open>Health, calls and routes\<close>

text \<open>A closed connection shows a problem or nothing, an error a problem.\<close>

definition healthInv :: "vcState \<Rightarrow> bool" where
  "healthInv s \<longleftrightarrow> (m_connectionState s = ErrorState \<longrightarrow> connectionHealthProblem (m_connectionHealth s)) \<and>
     (m_connectionState s = Disconnected \<longrightarrow> m_connectionHealth s = Idle \<or> connectionHealthProblem (m_connectionHealth s))"

definition nullFree :: "vcState \<Rightarrow> bool" where
  "nullFree s \<longleftrightarrow> NullProtocol \<notin> set (vcFaults s)"

definition core :: "vcState \<Rightarrow> vcState" where
  "core s = s\<lparr>m_connectionHealth := Idle, m_lastError := NoError, healthTimer := False, m_healthChecksWithoutTraffic := 0,
     m_connectivityProbe := False, m_connectivityProbeWindow := [], m_noTrafficRecoveryAttempted := False,
     dnsFlushDebounce := False, postedCalls := [], vcFaults := [], vcLog := []\<rparr>"

definition keeps :: "vcState \<Rightarrow> vcState \<Rightarrow> bool" where
  "keeps r s \<longleftrightarrow> core s = core r \<and> extends (vcLog r) (vcLog s) \<and> (healthInv r \<longrightarrow> healthInv s) \<and>
     (nullFree r \<longrightarrow> nullFree s \<or> m_vpnProtocol r = None)"

lemma core_fields:
  assumes "core s = core r"
  shows "m_serversRepository s = m_serversRepository r" "m_appSettingsRepository s = m_appSettingsRepository r"
    "m_vpnProtocol s = m_vpnProtocol r" "protocolErrorSlot s = protocolErrorSlot r" "stateSlot s = stateSlot r"
    "connectingTimer s = connectingTimer r" "connectedRecoveryTimer s = connectedRecoveryTimer r"
    "pendingNetworkTimer s = pendingNetworkTimer r" "pendingNetworkDeadlineTimer s = pendingNetworkDeadlineTimer r"
    "m_connectionState s = m_connectionState r"
    "m_connectedRecoveryAttempts s = m_connectedRecoveryAttempts r"
    "m_silentReconnectInProgress s = m_silentReconnectInProgress r"
    "m_stoppingAfterFailure s = m_stoppingAfterFailure r" "m_pendingNetworkAction s = m_pendingNetworkAction r"
    "m_currentServerId s = m_currentServerId r" "m_currentContainer s = m_currentContainer r"
    "m_vpnConfiguration s = m_vpnConfiguration r" "m_remoteAddress s = m_remoteAddress r"
  using assms by (cases s; cases r; simp add: core_def)+

lemma keeps_refl [simp]: "keeps s s"
  by (simp add: keeps_def)

lemma keeps_trans: "keeps r s \<Longrightarrow> keeps s t \<Longrightarrow> keeps r t"
  using core_fields(3) [of s r] by (simp add: keeps_def) (metis extends_trans)

lemmas keeps_fields = core_fields [OF keeps_def [THEN iffD1, THEN conjunct1]]

lemma keeps_via:
  assumes "\<And>s. keeps s (f s)" "keeps r s"
  shows "keeps r (f s)"
  using assms keeps_trans by blast

lemma keeps_act [keeps_intros]: "harmless a \<Longrightarrow> keeps r s \<Longrightarrow> keeps r (act a s)"
  by (rule keeps_via, auto simp: keeps_def act_def core_def healthInv_def nullFree_def intro: extends_snoc)

lemma keeps_called [keeps_intros]:
  "\<not> isProtection (Called call None) \<Longrightarrow> keeps r s \<Longrightarrow> keeps r (snd (callService env call s))"
  by (cases call; simp add: callService_def Let_def keeps_intros harmless_def)

lemma keeps_sent [keeps_intros]: "keeps r s \<Longrightarrow> keeps r (act (Sent call) s)"
  by (simp add: keeps_intros harmless_def)

lemma keeps_empty_rule [keeps_intros]: "keeps r s \<Longrightarrow> keeps r (raise EmptyRule s)"
  by (rule keeps_via, auto simp: keeps_def raise_def core_def healthInv_def nullFree_def)

lemma keeps_useProtocol [keeps_intros]: "keeps r s \<Longrightarrow> keeps r (useProtocol s)"
  by (rule keeps_via, auto simp: keeps_def useProtocol_def raise_def core_def healthInv_def nullFree_def)

lemma keeps_posted [keeps_intros]: "keeps r s \<Longrightarrow> keeps r (s\<lparr>postedCalls := q\<rparr>)"
  using keeps_via [of "\<lambda>s. s\<lparr>postedCalls := q\<rparr>"] by (simp add: keeps_def core_def healthInv_def nullFree_def)

lemma keeps_debounce [keeps_intros]: "keeps r s \<Longrightarrow> keeps r (s\<lparr>dnsFlushDebounce := b\<rparr>)"
  using keeps_via [of "\<lambda>s. s\<lparr>dnsFlushDebounce := b\<rparr>"] by (simp add: keeps_def core_def healthInv_def nullFree_def)

lemma keeps_health [keeps_intros]: "keeps r s \<Longrightarrow> keeps r (setConnectionHealth h s)"
  by (rule keeps_via, auto simp: keeps_def setConnectionHealth_def shouldPublishConnectionHealth_def act_def core_def
      healthInv_def nullFree_def harmless_def intro!: extends_snoc split: if_splits)

lemma keeps_withInterface [keeps_intros]:
  "(\<And>s. keeps r s \<Longrightarrow> keeps r (f s)) \<Longrightarrow> keeps r s \<Longrightarrow> keeps r (withInterface env f s)"
  by (simp add: withInterface_def)

lemma keeps_if [keeps_intros]: "keeps r s \<Longrightarrow> keeps r t \<Longrightarrow> keeps r (if b then s else t)"
  by simp

lemma keeps_syncAlwaysBlockedSites [keeps_intros]: "keeps r s \<Longrightarrow> keeps r (syncAlwaysBlockedSites env s)"
  by (simp add: syncAlwaysBlockedSites_def keeps_intros split: option.split)

lemma keeps_onKillSwitchModeChanged [keeps_intros]: "keeps r s \<Longrightarrow> keeps r (onKillSwitchModeChanged env enabled s)"
  by (simp add: onKillSwitchModeChanged_def keeps_intros)

lemma keeps_configureDnsSplitTunnel [keeps_intros]: "keeps r s \<Longrightarrow> keeps r (configureDnsSplitTunnel env gw mode s)"
  by (simp add: configureDnsSplitTunnel_def Let_def keeps_intros split: option.split)

lemma keeps_addSplitTunnelRoutes [keeps_intros]: "keeps r s \<Longrightarrow> keeps r (addSplitTunnelRoutes env gw mode ips s)"
  by (simp add: addSplitTunnelRoutes_def Let_def split_beta keeps_intros)

lemma keeps_addSitesRoutes [keeps_intros]: "keeps r s \<Longrightarrow> keeps r (addSitesRoutes env gw mode s)"
  by (simp add: addSitesRoutes_def keeps_intros split: option.split)

lemma keeps_siteRoutesAt [keeps_intros]: "keeps r s \<Longrightarrow> keeps r (siteRoutesAt env gw mode s)"
  by (simp add: siteRoutesAt_def keeps_intros)

lemma keeps_refreshSiteSplitTunnelRoutes [keeps_intros]: "keeps r s \<Longrightarrow> keeps r (refreshSiteSplitTunnelRoutes env s)"
  by (simp add: refreshSiteSplitTunnelRoutes_def Let_def keeps_intros split: option.split)

lemma keeps_exceptRoutes [keeps_intros]: "keeps r s \<Longrightarrow> keeps r (exceptRoutes env dns s)"
  by (simp add: exceptRoutes_def Let_def split_beta keeps_intros)

lemma keeps_connectedRoutes [keeps_intros]: "keeps r s \<Longrightarrow> keeps r (connectedRoutes env st s)"
  by (simp add: connectedRoutes_def Let_def split_beta keeps_intros split: option.split routeMode.split)

lemma keeps_disconnectedRoutes [keeps_intros]: "keeps r s \<Longrightarrow> keeps r (disconnectedRoutes env s)"
  by (simp add: disconnectedRoutes_def Let_def keeps_intros)

lemma keeps_fold_update:
  assumes "\<And>s. core (f s) = core s" "\<And>s. vcLog (f s) = vcLog s" "\<And>s. healthInv (f s) = healthInv s"
    "\<And>s. nullFree (f s) = nullFree s" "keeps r s"
  shows "keeps r (f s)"
  using assms by (simp add: keeps_def)

lemma keeps_markLastError [keeps_intros]: "keeps r s \<Longrightarrow> keeps r (markLastError e s)"
  by (rule keeps_fold_update) (auto simp: markLastError_def core_def healthInv_def nullFree_def)

lemma keeps_stopConnectedHealthCheck [keeps_intros]: "keeps r s \<Longrightarrow> keeps r (stopConnectedHealthCheck s)"
  by (rule keeps_fold_update) (auto simp: stopConnectedHealthCheck_def core_def healthInv_def nullFree_def)

lemma keeps_startConnectivityProbe [keeps_intros]: "keeps r s \<Longrightarrow> keeps r (startConnectivityProbe s)"
  by (rule keeps_fold_update) (auto simp: startConnectivityProbe_def core_def healthInv_def nullFree_def)

lemma keeps_stopConnectivityProbe [keeps_intros]: "keeps r s \<Longrightarrow> keeps r (stopConnectivityProbe s)"
  by (rule keeps_fold_update) (auto simp: stopConnectivityProbe_def core_def healthInv_def nullFree_def)

lemma keeps_recordConnectivityProbe [keeps_intros]: "keeps r s \<Longrightarrow> keeps r (recordConnectivityProbe ms s)"
  by (rule keeps_fold_update) (auto simp: recordConnectivityProbe_def Let_def core_def healthInv_def nullFree_def)

lemma keeps_healthChecks [keeps_intros]: "keeps r s \<Longrightarrow> keeps r (s\<lparr>m_healthChecksWithoutTraffic := n\<rparr>)"
  by (rule keeps_fold_update) (auto simp: core_def healthInv_def nullFree_def)

lemma keeps_healthTimer [keeps_intros]: "keeps r s \<Longrightarrow> keeps r (s\<lparr>healthTimer := b, postedCalls := q\<rparr>)"
  by (rule keeps_fold_update) (auto simp: core_def healthInv_def nullFree_def)

lemma keeps_startConnectedHealthCheck [keeps_intros]: "keeps r s \<Longrightarrow> keeps r (startConnectedHealthCheck s)"
  by (simp add: startConnectedHealthCheck_def Let_def keeps_intros)

lemma keeps_onConnectionStateChanged [keeps_intros]:
  "keeps r (stateEntered state s) \<Longrightarrow> keeps r (onConnectionStateChanged env state s)"
  by (cases state; simp add: onConnectionStateChanged_def Let_def keeps_intros split: option.split)

lemma keeps_onBytesChanged [keeps_intros]: "keeps r s \<Longrightarrow> keeps r (onBytesChanged rx tx s)"
  by (simp add: onBytesChanged_def keeps_intros harmless_def)

lemma keeps_checkConnectedHealth [keeps_intros]: "keeps r s \<Longrightarrow> keeps r (checkConnectedHealth env s)"
  by (simp add: checkConnectedHealth_def Let_def keeps_intros)

section \<open>Signals\<close>

text \<open>A connection that is being set up is watched by a timer.\<close>

definition connectInv :: "vcState \<Rightarrow> bool" where
  "connectInv s \<longleftrightarrow> (m_connectionState s = Connecting \<longrightarrow>
     connectingTimer s \<or> (m_pendingNetworkAction s = StartConnection \<and> pendingNetworkDeadlineTimer s))"

text \<open>How often the tunnel can still be restarted before something else happens.\<close>

definition retriesLeft :: "vcState \<Rightarrow> nat" where
  "retriesLeft s = (if m_vpnProtocol s = None then 0
     else (kMaxConnectedRecoveryAttempts - m_connectedRecoveryAttempts s) + (if connectedRecoveryTimer s then 1 else 0) +
       (if m_pendingNetworkAction s = StartSilentReconnect then 1 else 0))"

definition request :: "vcState \<Rightarrow> appSettings option \<times> string \<times> dockerContainer \<times> jobj \<times> string" where
  "request s = (m_appSettingsRepository s, m_currentServerId s, m_currentContainer s, m_vpnConfiguration s, m_remoteAddress s)"

definition loosely :: "vcState \<Rightarrow> vcState \<Rightarrow> bool" where
  "loosely r s \<longleftrightarrow> m_vpnProtocol s = m_vpnProtocol r \<and> m_pendingNetworkAction s = m_pendingNetworkAction r \<and>
     pendingNetworkDeadlineTimer s = pendingNetworkDeadlineTimer r \<and> request s = request r \<and>
     (m_connectedRecoveryAttempts r \<le> 3 \<longrightarrow> m_connectedRecoveryAttempts s \<le> 3) \<and>
     (connectedRecoveryTimer s \<longrightarrow> connectedRecoveryTimer r \<or> m_pendingNetworkAction r = NoAction) \<and>
     retriesLeft s \<le> retriesLeft r \<and> extends (vcLog r) (vcLog s) \<and> (healthInv r \<longrightarrow> healthInv s) \<and>
     (nullFree r \<longrightarrow> nullFree s \<or> m_vpnProtocol r = None)"

definition signalled :: "vcState \<Rightarrow> vcState \<Rightarrow> bool" where
  "signalled r s \<longleftrightarrow> loosely r s \<and> (connectInv r \<longrightarrow> connectInv s)"

lemma loosely_refl [simp]: "loosely s s"
  by (simp add: loosely_def)

lemma signalled_refl [simp]: "signalled s s"
  by (simp add: signalled_def)

lemma loosely_trans: "loosely r s \<Longrightarrow> loosely s t \<Longrightarrow> loosely r t"
  using extends_trans [of "vcLog r" "vcLog s" "vcLog t"] unfolding loosely_def
  by (elim conjE, intro conjI; (simp; fail | metis order_trans))

lemma signalled_trans: "signalled r s \<Longrightarrow> signalled s t \<Longrightarrow> signalled r t"
  unfolding signalled_def using loosely_trans by blast

lemma keeps_signalled: "keeps r s \<Longrightarrow> signalled r s"
  using keeps_fields [of r s] by (simp add: signalled_def loosely_def retriesLeft_def connectInv_def request_def keeps_def)

lemma signalled_protocol: "signalled r s \<Longrightarrow> m_vpnProtocol s = m_vpnProtocol r"
  by (simp add: signalled_def loosely_def)

lemma signalled_via:
  assumes "\<And>s. signalled s (f s)" "signalled r s"
  shows "signalled r (f s)"
  using assms signalled_trans by blast

lemma signalled_keeps: "keeps s t \<Longrightarrow> signalled r s \<Longrightarrow> signalled r t"
  using keeps_signalled signalled_trans by blast

text \<open>Entering a state sets the timers and makes the health fit it.\<close>

lemma stateEntered_healthInv: "m_connectionState s = state \<Longrightarrow> healthInv (stateEntered state s)"
  by (cases state) (auto simp: stateEntered_def healthInv_def Let_def setConnectionHealth_def
      shouldPublishConnectionHealth_def act_def stopConnectedRecovery_def stopConnectedHealthCheck_def
      stopConnectivityProbe_def stopConnectingWatchdog_def startConnectingWatchdog_def markLastError_def)

definition timersFor :: "connState \<Rightarrow> vcState \<Rightarrow> vcState" where
  "timersFor state s = (case state of
       Connecting \<Rightarrow> s\<lparr>connectingTimer := True, connectedRecoveryTimer := False\<rparr>
     | Reconnecting \<Rightarrow> s\<lparr>connectingTimer := True, connectedRecoveryTimer := False\<rparr>
     | Connected \<Rightarrow> s\<lparr>connectingTimer := False\<rparr>
     | Preparing \<Rightarrow> s
     | _ \<Rightarrow> s\<lparr>connectingTimer := False, connectedRecoveryTimer := False\<rparr>)"

lemma stateEntered_core: "core (stateEntered state s) = core (timersFor state s)"
  by (cases state) (auto simp: stateEntered_def timersFor_def core_def Let_def setConnectionHealth_def act_def
      stopConnectedRecovery_def stopConnectedHealthCheck_def stopConnectivityProbe_def stopConnectingWatchdog_def
      startConnectingWatchdog_def markLastError_def)

lemma stateEntered_rest:
  "extends (vcLog s) (vcLog (stateEntered state s))" "vcFaults (stateEntered state s) = vcFaults s"
  by (cases state; auto simp: stateEntered_def Let_def setConnectionHealth_def act_def harmless_def
      stopConnectedRecovery_def stopConnectedHealthCheck_def stopConnectivityProbe_def stopConnectingWatchdog_def
      startConnectingWatchdog_def markLastError_def intro!: extends_snoc)+

text \<open>What \<^const>\<open>onConnectionStateChanged\<close> leaves, in one step.\<close>

lemma entered:
  fixes env :: vcEnv
  assumes "m_connectionState s = state"
  defines "t \<equiv> onConnectionStateChanged env state s"
  shows "core t = core (timersFor state s)" "extends (vcLog s) (vcLog t)" "healthInv t"
    "nullFree s \<Longrightarrow> nullFree t \<or> m_vpnProtocol s = None"
proof -
  have k: "keeps (stateEntered state s) t" by (simp add: t_def keeps_intros)
  show "core t = core (timersFor state s)" using k by (simp add: keeps_def stateEntered_core)
  show "extends (vcLog s) (vcLog t)" using k stateEntered_rest(1) [of s state] by (auto simp: keeps_def intro: extends_trans)
  show "healthInv t" using k stateEntered_healthInv [OF assms(1)] by (simp add: keeps_def)
  assume n: "nullFree s"
  have "m_vpnProtocol (stateEntered state s) = m_vpnProtocol s"
    using core_fields(3) [OF stateEntered_core, of state s] by (cases state) (simp_all add: timersFor_def)
  then show "nullFree t \<or> m_vpnProtocol s = None"
    using k n by (simp add: keeps_def nullFree_def stateEntered_rest(2))
qed

lemma entered_fields:
  fixes env :: vcEnv
  assumes "m_connectionState s = state"
  defines "t \<equiv> onConnectionStateChanged env state s"
  shows "m_vpnProtocol t = m_vpnProtocol s" "m_pendingNetworkAction t = m_pendingNetworkAction s"
    "pendingNetworkDeadlineTimer t = pendingNetworkDeadlineTimer s" "request t = request s"
    "m_stoppingAfterFailure t = m_stoppingAfterFailure s"
    "m_connectedRecoveryAttempts t = m_connectedRecoveryAttempts s" "m_connectionState t = state"
    "connectedRecoveryTimer t \<Longrightarrow> connectedRecoveryTimer s" "state = Connecting \<Longrightarrow> connectingTimer t"
    "m_silentReconnectInProgress t = m_silentReconnectInProgress s"
  using core_fields [OF entered(1) [OF assms(1), where env = env, folded t_def]] assms(1)
  by (simp_all add: timersFor_def request_def split: connState.splits)

lemma signalled_changeState [signalled_intros]: "signalled r s \<Longrightarrow> signalled r (changeState env state s)"
proof (erule signalled_via [rotated])
  fix s
  let ?u = "\<lambda>s. s\<lparr>m_connectionState := state\<rparr>"
  have step: "signalled s (act (ConnectionStateChanged state) (onConnectionStateChanged env state (?u u)))"
       "signalled s ((onConnectionStateChanged env state (?u u))\<lparr>m_connectionState := Reconnecting\<rparr>)"
    if u: "u = s\<lparr>m_silentReconnectInProgress := b, m_lastError := e\<rparr>" for u b e
  proof -
    have st: "m_connectionState (?u u) = state" by simp
    have v: "vcLog (?u u) = vcLog s" "nullFree (?u u) = nullFree s" "request (?u u) = request s"
      by (simp_all add: u nullFree_def request_def)
    show "signalled s (act (ConnectionStateChanged state) (onConnectionStateChanged env state (?u u)))"
      using entered [OF st, where env = env] entered_fields [OF st, where env = env] v
      by (auto simp: signalled_def loosely_def act_def u request_def retriesLeft_def connectInv_def healthInv_def nullFree_def harmless_def
          intro!: extends_snoc)
    show "signalled s ((onConnectionStateChanged env state (?u u))\<lparr>m_connectionState := Reconnecting\<rparr>)"
      using entered [OF st, where env = env] entered_fields [OF st, where env = env] v
      by (auto simp: signalled_def loosely_def u request_def retriesLeft_def connectInv_def healthInv_def nullFree_def)
  qed
  define b where "b = (if state = Connected then False else m_silentReconnectInProgress s)"
  define e where "e = (if state = ErrorState \<and> m_lastError s = NoError \<and>
      (m_vpnProtocol s = None \<or> protocolLastError env (vcLog s) = NoError) then UnknownError else m_lastError s)"
  have "changeState env state s = s \<or> (\<exists>u. u = s\<lparr>m_silentReconnectInProgress := b, m_lastError := e\<rparr> \<and>
      (changeState env state s = act (ConnectionStateChanged state) (onConnectionStateChanged env state (?u u)) \<or>
       changeState env state s = (onConnectionStateChanged env state (?u u))\<lparr>m_connectionState := Reconnecting\<rparr>))"
    by (auto simp: changeState_def Let_def b_def e_def markLastError_def)
  with step show "signalled s (changeState env state s)" by (elim disjE exE conjE) simp_all
qed

text \<open>An unsuccessful restart: either the connection waits for the next one, or it ends in an error.\<close>

lemma changeState_result:
  assumes "\<not> (state = Disconnected \<and>
      (m_stoppingAfterFailure s \<or> m_connectionState s = Reconnecting \<or> m_connectionState s = ErrorState))"
  shows "m_connectionState (changeState env state s) = state"
  using assms by (auto simp: changeState_def Let_def act_def entered_fields(7))

lemma changeState_error [simp]: "m_connectionState (changeState env ErrorState s) = ErrorState"
  by (rule changeState_result) simp

lemma setConnectionState_error [simp]: "m_connectionState (setConnectionState env ErrorState s) = ErrorState"
  by (simp add: setConnectionState_def)

lemma loosely_via: "signalled s t \<Longrightarrow> loosely r s \<Longrightarrow> loosely r t"
  using loosely_trans by (auto simp: signalled_def)

lemma signalled_silent [signalled_intros]: "signalled r s \<Longrightarrow> signalled r (s\<lparr>m_silentReconnectInProgress := b\<rparr>)"
  by (erule signalled_via [rotated, where f = "\<lambda>s. s\<lparr>m_silentReconnectInProgress := b\<rparr>"])
    (simp add: signalled_def loosely_def retriesLeft_def request_def healthInv_def connectInv_def nullFree_def)

lemma signalled_health [signalled_intros]: "signalled r s \<Longrightarrow> signalled r (setConnectionHealth h s)"
  by (rule signalled_keeps) (simp_all add: keeps_intros)

lemma signalled_lastError [signalled_intros]: "signalled r s \<Longrightarrow> signalled r (markLastError e s)"
  by (rule signalled_keeps) (simp_all add: keeps_intros)

lemma signalled_act [signalled_intros]: "harmless a \<Longrightarrow> signalled r s \<Longrightarrow> signalled r (act a s)"
  by (rule signalled_keeps) (simp_all add: keeps_intros)

lemma recover_step:
  "loosely s (snd (recoverConnectedTunnel h error s))"
  "m_connectionState (snd (recoverConnectedTunnel h error s)) = m_connectionState s"
  "connectInv s \<Longrightarrow> connectInv (snd (recoverConnectedTunnel h error s))"
  "fst (recoverConnectedTunnel h error s) \<Longrightarrow> m_connectionState s = Connected"
proof -
  define t where "t = setConnectionHealth h (markLastError error s)"
  have k: "keeps s t" by (simp add: t_def keeps_intros)
  note f = keeps_fields [OF k]
  let ?r = "recoverConnectedTunnel h error s"
  show "fst ?r \<Longrightarrow> m_connectionState s = Connected"
    using f by (auto simp: recoverConnectedTunnel_def Let_def t_def [symmetric] split: if_splits)
  show "m_connectionState (snd ?r) = m_connectionState s" "connectInv s \<Longrightarrow> connectInv (snd ?r)"
    using f by (auto simp: recoverConnectedTunnel_def Let_def t_def [symmetric] connectInv_def stopConnectivityProbe_def
        stopConnectedHealthCheck_def)
  have "loosely s t" using keeps_signalled [OF k] by (simp add: signalled_def)
  then have "loosely s (stopConnectedHealthCheck t)"
    by (rule loosely_via [rotated]) (simp add: keeps_signalled keeps_intros)
  moreover have "loosely t ((stopConnectivityProbe (stopConnectedHealthCheck
      (t\<lparr>m_connectedRecoveryAttempts := m_connectedRecoveryAttempts t + 1, m_noTrafficRecoveryAttempted := True\<rparr>)))
        \<lparr>connectedRecoveryTimer := True\<rparr>)"
    if "m_pendingNetworkAction t = NoAction" "\<not> connectedRecoveryTimer t" "m_connectedRecoveryAttempts t < 3"
    using that by (simp add: loosely_def retriesLeft_def request_def healthInv_def nullFree_def stopConnectivityProbe_def
        stopConnectedHealthCheck_def kMaxConnectedRecoveryAttempts_def) arith
  ultimately show "loosely s (snd ?r)"
    using loosely_trans [OF \<open>loosely s t\<close>] \<open>loosely s t\<close>
    by (simp add: recoverConnectedTunnel_def Let_def t_def [symmetric] kMaxConnectedRecoveryAttempts_def)
qed

lemma signalled_recover [signalled_intros]: "signalled r s \<Longrightarrow> signalled r (snd (recoverConnectedTunnel h error s))"
  by (rule signalled_via) (simp_all add: signalled_def recover_step)

lemma handleSilentReconnectFailure_loosely: "loosely s (snd (handleSilentReconnectFailure env h error s))"
proof -
  define t where "t = (let s = (stopConnectingWatchdog s)\<lparr>m_silentReconnectInProgress := False\<rparr> in
    case m_vpnProtocol s of
      Some p \<Rightarrow> (act (ProtocolStop p) (dropSlots (s\<lparr>m_stoppingAfterFailure := True\<rparr>)))\<lparr>m_stoppingAfterFailure := False\<rparr>
    | None \<Rightarrow> s)"
  have "loosely s t"
    by (cases "m_vpnProtocol s") (simp_all add: t_def loosely_def stopConnectingWatchdog_def act_def dropSlots_def request_def
        retriesLeft_def healthInv_def nullFree_def harmless_def extends_snoc)
  then have r: "loosely s (snd (recoverConnectedTunnel h error t))"
    using recover_step(1) loosely_trans by blast
  have "loosely s (act (VpnProtocolError error) (changeState env ErrorState (snd (recoverConnectedTunnel h error t))))"
    using r by (rule loosely_via [rotated]) (simp add: signalled_intros harmless_def)
  with r show ?thesis
    by (auto simp: handleSilentReconnectFailure_def Let_def t_def split: prod.split bool.split)
qed

lemma handleSilentReconnectFailure_connectInv: "connectInv (snd (handleSilentReconnectFailure env h error s))"
proof -
  have "connectInv (snd (case recoverConnectedTunnel h error t of (True, s) \<Rightarrow> (True, s)
      | (False, s) \<Rightarrow> (False, act (VpnProtocolError error) (changeState env ErrorState s))))" for t
    using recover_step(2,4) [of h error t]
    by (cases "recoverConnectedTunnel h error t"; cases "fst (recoverConnectedTunnel h error t)")
      (simp_all add: connectInv_def act_def)
  then show ?thesis by (simp add: handleSilentReconnectFailure_def Let_def)
qed

lemma signalled_silentFailure [signalled_intros]:
  "signalled r s \<Longrightarrow> signalled r (snd (handleSilentReconnectFailure env h error s))"
  by (rule signalled_via)
    (simp_all add: signalled_def handleSilentReconnectFailure_loosely handleSilentReconnectFailure_connectInv)

lemma signalled_setConnectionState [signalled_intros]: "signalled r s \<Longrightarrow> signalled r (setConnectionState env state s)"
  by (simp add: setConnectionState_def signalled_intros)

lemma signalled_onProtocolError [signalled_intros]: "signalled r s \<Longrightarrow> signalled r (onProtocolError env e s)"
  by (simp add: onProtocolError_def Let_def signalled_intros harmless_def)

lemma signalled_onBytesChanged [signalled_intros]: "signalled r s \<Longrightarrow> signalled r (onBytesChanged rx tx s)"
  by (rule signalled_keeps) (simp_all add: keeps_intros)

lemma signalled_deliver [signalled_intros]: "signalled r s \<Longrightarrow> signalled r (deliver env sig s)"
  by (cases sig) (simp_all add: signalled_intros)

lemma signalled_fold [signalled_intros]: "signalled r s \<Longrightarrow> signalled r (fold (deliver env) sigs s)"
  by (induction sigs arbitrary: s) (simp_all add: signalled_intros)

lemma signalled_stopProtocol [signalled_intros]:
  "m_vpnProtocol r \<noteq> None \<Longrightarrow> signalled r s \<Longrightarrow> signalled r (stopProtocol env s)"
  by (rule signalled_trans, assumption)
    (auto simp: signalled_protocol stopProtocol_def Let_def signalled_intros harmless_def)

lemma signalled_startFailed [signalled_intros]: "signalled r s \<Longrightarrow> signalled r (startFailed env err h s)"
  by (simp add: startFailed_def signalled_intros harmless_def)

section \<open>Disconnecting and starting\<close>

definition noStarts :: "vcAct list \<Rightarrow> vcAct list \<Rightarrow> bool" where
  "noStarts l m \<longleftrightarrow> (\<exists>x. m = l @ x \<and> list_all (\<lambda>a. \<not> isStart a) x)"

lemma noStarts_refl [simp]: "noStarts l l"
  by (simp add: noStarts_def)

lemma noStarts_trans: "noStarts l m \<Longrightarrow> noStarts m n \<Longrightarrow> noStarts l n"
  by (auto simp: noStarts_def)

lemma extends_noStarts: "extends l m \<Longrightarrow> noStarts l m"
  by (auto simp: extends_def noStarts_def harmless_def list_all_iff)

lemma noStarts_count: "noStarts l m \<Longrightarrow> startCount m = startCount l"
  by (auto simp: noStarts_def startCount_def list_all_iff)

lemma startsAcceptedFrom_noStarts: "list_all (\<lambda>a. \<not> isStart a) x \<Longrightarrow> startsAcceptedFrom b x"
  by (induction x arbitrary: b) auto

lemma noStarts_accepted: "noStarts l m \<Longrightarrow> startsAccepted l \<Longrightarrow> startsAccepted m"
  by (auto simp: noStarts_def startsAccepted_def startsAcceptedFrom_append startsAcceptedFrom_noStarts)

text \<open>The settings stay, and no connection asks for a release.\<close>

definition asks :: "vcState \<Rightarrow> vcState \<Rightarrow> bool" where
  "asks r s \<longleftrightarrow> m_appSettingsRepository s = m_appSettingsRepository r \<and>
     (\<exists>x. vcLog s = vcLog r @ x \<and> list_all (\<lambda>a. \<not> unprotected a) x)"

lemma asks_refl [simp]: "asks s s"
  by (simp add: asks_def)

lemma asks_trans [trans]: "asks r s \<Longrightarrow> asks s t \<Longrightarrow> asks r t"
  by (auto simp: asks_def)

lemma asks_same: "m_appSettingsRepository s = m_appSettingsRepository r \<Longrightarrow> extends (vcLog r) (vcLog s) \<Longrightarrow> asks r s"
  using harmless_protection by (auto simp: asks_def extends_def list_all_iff)

text \<open>The tunnel was ended on the way.\<close>

definition ended :: "vcState \<Rightarrow> vcState \<Rightarrow> bool" where
  "ended r s \<longleftrightarrow> m_vpnProtocol s = None \<and> m_pendingNetworkAction s = NoAction \<and> noStarts (vcLog r) (vcLog s) \<and>
     (m_connectedRecoveryAttempts r \<le> 3 \<longrightarrow> m_connectedRecoveryAttempts s \<le> 3) \<and> (healthInv r \<longrightarrow> healthInv s) \<and>
     (connectInv r \<longrightarrow> connectInv s) \<and> asks r s"

lemma loosely_facts:
  assumes "loosely r s"
  shows "m_vpnProtocol s = m_vpnProtocol r" "m_pendingNetworkAction s = m_pendingNetworkAction r" "request s = request r"
    "m_connectedRecoveryAttempts r \<le> 3 \<Longrightarrow> m_connectedRecoveryAttempts s \<le> 3"
    "connectedRecoveryTimer s \<Longrightarrow> connectedRecoveryTimer r \<or> m_pendingNetworkAction r = NoAction"
    "retriesLeft s \<le> retriesLeft r" "extends (vcLog r) (vcLog s)" "healthInv r \<Longrightarrow> healthInv s"
    "nullFree r \<Longrightarrow> nullFree s \<or> m_vpnProtocol r = None"
  using assms by (simp_all add: loosely_def)

lemma signalled_facts:
  assumes "signalled r s"
  shows "m_vpnProtocol s = m_vpnProtocol r" "m_pendingNetworkAction s = m_pendingNetworkAction r" "request s = request r"
    "m_connectedRecoveryAttempts r \<le> 3 \<Longrightarrow> m_connectedRecoveryAttempts s \<le> 3"
    "connectedRecoveryTimer s \<Longrightarrow> connectedRecoveryTimer r \<or> m_pendingNetworkAction r = NoAction"
    "retriesLeft s \<le> retriesLeft r" "extends (vcLog r) (vcLog s)" "healthInv r \<Longrightarrow> healthInv s"
    "nullFree r \<Longrightarrow> nullFree s \<or> m_vpnProtocol r = None" "connectInv r \<Longrightarrow> connectInv s"
  using assms loosely_facts [of r s] by (simp_all add: signalled_def)

lemma loosely_asks: "loosely r s \<Longrightarrow> asks r s"
  by (rule asks_same) (simp_all add: loosely_def request_def)

lemma signalled_asks: "signalled r s \<Longrightarrow> asks r s"
  by (simp add: signalled_def loosely_asks)

lemma ended_signalled: "ended r s \<Longrightarrow> signalled s t \<Longrightarrow> ended r t"
  using signalled_facts [of s t] signalled_asks [of s t] extends_noStarts noStarts_trans asks_trans by (simp add: ended_def) metis

lemma signalled_ended: "signalled r s \<Longrightarrow> ended s t \<Longrightarrow> ended r t"
  using signalled_facts [of r s] signalled_asks [of r s] extends_noStarts noStarts_trans asks_trans by (simp add: ended_def) metis

lemma ended_trans: "ended r s \<Longrightarrow> ended s t \<Longrightarrow> ended r t"
  unfolding ended_def using noStarts_trans asks_trans by blast

definition started :: "vcState \<Rightarrow> vcState \<Rightarrow> bool" where
  "started r s \<longleftrightarrow> signalled r s \<or> ended r s"

lemma started_refl [simp]: "started s s"
  by (simp add: started_def)

lemma started_asks: "started r s \<Longrightarrow> asks r s"
  by (auto simp: started_def ended_def signalled_asks)

lemma started_trans: "started r s \<Longrightarrow> started s t \<Longrightarrow> started r t"
  unfolding started_def using signalled_trans ended_signalled signalled_ended ended_trans by blast

text \<open>\<^const>\<open>disconnectFromVpn\<close> before it changes the state.\<close>

definition released :: "vcEnv \<Rightarrow> vcState \<Rightarrow> vcState" where
  "released env s = stopConnectingWatchdog (stopConnectedRecovery
     ((stopPendingNetworkAction (withInterface env (\<lambda>s. snd (callService env (SetConnectionProtection False []) s)) s))
       \<lparr>m_silentReconnectInProgress := False, m_stoppingAfterFailure := False, m_connectedRecoveryAttempts := 0,
        m_noTrafficRecoveryAttempted := False\<rparr>))"

lemma released_fields:
  "m_vpnProtocol (released env s) = m_vpnProtocol s" "m_pendingNetworkAction (released env s) = NoAction"
  "m_connectedRecoveryAttempts (released env s) = 0" "m_silentReconnectInProgress (released env s) = False"
  "m_stoppingAfterFailure (released env s) = False" "m_connectionState (released env s) = m_connectionState s"
  "noStarts (vcLog s) (vcLog (released env s))" "healthInv (released env s) = healthInv s"
  "vcFaults (released env s) = vcFaults s" "stateSlot (released env s) = stateSlot s" "asks s (released env s)"
  by (auto simp: asks_def released_def withInterface_def stopConnectingWatchdog_def stopConnectedRecovery_def callService_def Let_def
      stopPendingNetworkAction_def act_def healthInv_def noStarts_def)

lemma disconnectFromVpn_eq:
  "disconnectFromVpn env s = (let s = released env s in
     if m_vpnProtocol s = None then changeState env Disconnected s
     else let s = (stopProtocol env (changeState env Disconnecting s))\<lparr>m_vpnProtocol := None\<rparr>
          in if m_connectionState s = Disconnecting then setConnectionState env Disconnected s else s)"
  unfolding disconnectFromVpn_def released_def [symmetric] Let_def
  by (simp add: setConnectionState_def released_fields)

lemma changeState_leaves:
  assumes "state = Disconnected \<or> state = Disconnecting"
  shows "m_connectionState (changeState env state s) = Connecting \<longleftrightarrow> m_connectionState s = Connecting \<and>
    state = Disconnected \<and> m_stoppingAfterFailure s"
  using assms by (auto simp: changeState_def Let_def act_def entered_fields(7))

lemma disconnect_ended: "ended r (disconnectFromVpn env r)"
proof (cases "m_vpnProtocol r")
  case None
  let ?u = "released env r"
  have s: "signalled ?u (changeState env Disconnected ?u)" by (simp add: signalled_intros)
  have "connectInv (changeState env Disconnected ?u)"
    by (simp add: connectInv_def changeState_leaves released_fields)
  then have "ended r (changeState env Disconnected ?u)"
    using signalled_facts [OF s] signalled_asks [OF s] None released_fields [where env = env and s = r]
    by (simp add: ended_def) (blast intro: noStarts_trans extends_noStarts asks_trans)
  then show ?thesis by (simp add: disconnectFromVpn_eq None released_fields)
next
  case (Some p)
  let ?u = "released env r"
  define v where "v = changeState env Disconnecting ?u"
  define w where "w = stopProtocol env v"
  have v: "signalled ?u v" by (simp add: v_def signalled_intros)
  have w: "signalled v w" using v Some by (simp add: w_def signalled_facts signalled_intros released_fields)
  have vw: "signalled ?u w" using v w by (rule signalled_trans)
  have "connectInv v" by (simp add: v_def connectInv_def changeState_leaves)
  moreover have "asks r (w\<lparr>m_vpnProtocol := None\<rparr>)"
    using asks_trans [OF released_fields(11) signalled_asks [OF vw]] by (simp add: asks_def)
  ultimately have "ended r (w\<lparr>m_vpnProtocol := None\<rparr>)"
    using signalled_facts [OF vw] signalled_facts(10) [OF w] released_fields [where env = env and s = r]
    by (simp add: ended_def connectInv_def healthInv_def) (blast intro: noStarts_trans extends_noStarts)
  then have "ended r (if m_connectionState w = Disconnecting
      then setConnectionState env Disconnected (w\<lparr>m_vpnProtocol := None\<rparr>) else w\<lparr>m_vpnProtocol := None\<rparr>)"
    using ended_signalled signalled_setConnectionState signalled_refl by simp
  then show ?thesis by (simp add: disconnectFromVpn_eq Some released_fields Let_def v_def [symmetric] w_def [symmetric])
qed

lemma started_startStep: "started r s \<Longrightarrow> started r (startStep env e s)"
proof (rule started_trans, assumption)
  show "started s (startStep env e s)"
    by (cases e) (simp_all add: started_def signalled_intros disconnect_ended)
qed

lemma started_startProtocol: "started (act (ProtocolStart p) s) (snd (startProtocol env p s))"
proof -
  have "started r (fold (startStep env) es t)" if "started r t" for r es t
    using that by (induction es arbitrary: t) (simp_all add: started_startStep)
  then show ?thesis by (simp add: startProtocol_def Let_def split_beta)
qed

section \<open>The invariant\<close>

text \<open>A tunnel that exists, or that waits to be started, is protected; only an existing tunnel is restarted; a restart that
  waits for its timer does not also wait for the network.\<close>

definition safeBut :: "vcState \<Rightarrow> bool" where
  "safeBut s \<longleftrightarrow> healthInv s \<and> m_connectedRecoveryAttempts s \<le> 3 \<and> startsAccepted (vcLog s) \<and>
     (m_pendingNetworkAction s \<in> {RequestReconnect, StartSilentReconnect} \<longrightarrow> m_vpnProtocol s \<noteq> None) \<and>
     (connectedRecoveryTimer s \<longrightarrow> m_pendingNetworkAction s = NoAction) \<and>
     (m_vpnProtocol s \<noteq> None \<or> m_pendingNetworkAction s = StartConnection \<longrightarrow> acceptedAfter (vcLog s))"

definition safe :: "vcState \<Rightarrow> bool" where
  "safe s \<longleftrightarrow> safeBut s \<and> connectInv s"

lemma safeBut_loosely:
  assumes "safeBut r" "loosely r s"
  shows "safeBut s"
proof -
  note f = loosely_facts [OF assms(2)] and e = extends_facts [OF loosely_facts(7) [OF assms(2)]]
  show ?thesis using assms(1) f(4,5,8) unfolding safeBut_def f(1,2) e by blast
qed

lemma safe_signalled: "safe r \<Longrightarrow> signalled r s \<Longrightarrow> safe s"
  using safeBut_loosely by (auto simp: safe_def signalled_def)

lemma safeBut_signalled: "safeBut r \<Longrightarrow> signalled r s \<Longrightarrow> safeBut s"
  using safeBut_loosely by (auto simp: signalled_def)

lemma safe_keeps: "safe r \<Longrightarrow> keeps r s \<Longrightarrow> safe s"
  using safe_signalled keeps_signalled by blast

lemma safe_ended:
  assumes "safe r" "ended r s"
  shows "safe s"
proof -
  have f: "m_vpnProtocol s = None" "m_pendingNetworkAction s = NoAction" using assms(2) by (simp_all add: ended_def)
  have "healthInv s" "connectInv s" "m_connectedRecoveryAttempts s \<le> 3" "startsAccepted (vcLog s)"
    using assms noStarts_accepted unfolding safe_def safeBut_def ended_def by blast+
  with f show ?thesis by (simp add: safe_def safeBut_def)
qed

lemma safe_started: "safe r \<Longrightarrow> started r s \<Longrightarrow> safe s"
  unfolding started_def using safe_signalled safe_ended by blast

lemma safe_dropSlots [simp]: "safe (dropSlots s) = safe s"
  by (simp add: safe_def safeBut_def dropSlots_def healthInv_def connectInv_def)

lemma safe_connections [simp]: "safe (createProtocolConnections s) = safe s"
  by (simp add: safe_def safeBut_def createProtocolConnections_def healthInv_def connectInv_def)

lemma safe_start:
  assumes "safe s" "m_vpnProtocol s = Some p"
  shows "safe (snd (startProtocol env p s))"
proof -
  have "safe (act (ProtocolStart p) s)"
    using assms by (simp add: safe_def safeBut_def act_def healthInv_def connectInv_def startsAccepted_def
        startsAcceptedFrom_append acceptedAfter_def)
  then show ?thesis using started_startProtocol safe_started by blast
qed

text \<open>A fresh protocol: nothing is pending, the watchdog runs.\<close>

lemma safe_created:
  assumes "safeBut s" "acceptedAfter (vcLog s)" "m_pendingNetworkAction s = NoAction" "connectInv (createProtocol s)"
  shows "safe (createProtocol s)"
  using assms by (auto simp: safe_def safeBut_def createProtocol_def dropSlots_def healthInv_def)

lemma created_protocol: "m_vpnProtocol (createProtocol s) = (if factory (m_currentContainer s) then Some (nextProtocol s) else None)"
  by (simp add: createProtocol_def dropSlots_def)

lemma safeBut_stopPending: "safeBut s \<Longrightarrow> safeBut (stopPendingNetworkAction s)"
  by (simp add: safeBut_def stopPendingNetworkAction_def healthInv_def)

lemma safe_startConfiguredConnection:
  assumes "safeBut s" "acceptedAfter (vcLog s)"
  shows "safe (startConfiguredConnection env s)"
proof -
  define u where "u = createProtocol (startConnectingWatchdog (stopPendingNetworkAction s))"
  have "safe u" unfolding u_def
    by (rule safe_created) (use assms in \<open>auto simp: safeBut_def healthInv_def connectInv_def createProtocol_def dropSlots_def
        startConnectingWatchdog_def stopPendingNetworkAction_def\<close>)
  show ?thesis
  proof (cases "m_vpnProtocol u")
    case None
    then have "startConfiguredConnection env s =
        act (VpnProtocolError InternalError) (setConnectionState env ErrorState (markLastError InternalError u))"
      by (simp add: startConfiguredConnection_def u_def Let_def)
    then show ?thesis using safe_signalled [OF \<open>safe u\<close>] by (simp add: signalled_intros harmless_def)
  next
    case (Some p)
    define v where "v = startProtocol env p (createProtocolConnections u)"
    have "safe (snd v)" unfolding v_def
      by (rule safe_start) (use \<open>safe u\<close> Some in \<open>simp_all add: createProtocolConnections_def safe_connections [unfolded createProtocolConnections_def]\<close>)
    moreover have "startConfiguredConnection env s = (if m_vpnProtocol (snd v) \<noteq> Some p then dropSlots (snd v)
        else if fst v \<noteq> NoError then startFailed env (fst v) ProtocolStartFailed (snd v)
        else if \<not> m_silentReconnectInProgress (snd v) then setConnectionHealth WaitingHandshake (snd v) else snd v)"
      using Some by (simp add: startConfiguredConnection_def u_def v_def Let_def split_beta)
    ultimately show ?thesis by (simp add: safe_signalled signalled_intros)
  qed
qed

section \<open>Restarting\<close>

lemma signalled_dropSlots [signalled_intros]: "signalled r s \<Longrightarrow> signalled r (dropSlots s)"
  by (erule signalled_via [rotated]) (simp add: signalled_def loosely_def dropSlots_def retriesLeft_def request_def healthInv_def
      connectInv_def nullFree_def)

lemma keeps_physicalNetworkReady [keeps_intros]: "keeps r s \<Longrightarrow> keeps r (snd (physicalNetworkReady env s))"
  by (simp add: physicalNetworkReady_def split_beta keeps_intros)

text \<open>The parts of \<^const>\<open>startSilentReconnect\<close>: what the wait for the network sets, the old tunnel torn down, and what
  follows the start of the new one.\<close>

definition deferred :: "pendingAction \<Rightarrow> health \<Rightarrow> vcState \<Rightarrow> vcState" where
  "deferred action h s = setConnectionHealth h (stopConnectivityProbe (stopConnectedRecovery (stopConnectingWatchdog
     (let s = s\<lparr>m_pendingNetworkAction := action, pendingNetworkTimer := True\<rparr>
      in if action = StartConnection then s\<lparr>pendingNetworkDeadlineTimer := True\<rparr> else s))))"

lemma deferUntilPhysicalNetworkReady_eq:
  "deferUntilPhysicalNetworkReady env action h s = (let (ready, s) = physicalNetworkReady env s in
     if ready then (False, s) else (True, deferred action h s))"
  by (auto simp: deferUntilPhysicalNetworkReady_def deferred_def Let_def split: prod.split bool.split)

lemma deferred_fields:
  "m_vpnProtocol (deferred action h s) = m_vpnProtocol s" "m_pendingNetworkAction (deferred action h s) = action"
  "m_connectedRecoveryAttempts (deferred action h s) = m_connectedRecoveryAttempts s"
  "m_connectionState (deferred action h s) = m_connectionState s" "\<not> connectedRecoveryTimer (deferred action h s)"
  "action = StartConnection \<Longrightarrow> pendingNetworkDeadlineTimer (deferred action h s)"
  "extends (vcLog s) (vcLog (deferred action h s))" "healthInv s \<Longrightarrow> healthInv (deferred action h s)"
  "vcFaults (deferred action h s) = vcFaults s"
proof -
  define t where "t = stopConnectivityProbe (stopConnectedRecovery (stopConnectingWatchdog
     (let s = s\<lparr>m_pendingNetworkAction := action, pendingNetworkTimer := True\<rparr>
      in if action = StartConnection then s\<lparr>pendingNetworkDeadlineTimer := True\<rparr> else s)))"
  have t: "m_vpnProtocol t = m_vpnProtocol s" "m_pendingNetworkAction t = action"
    "m_connectedRecoveryAttempts t = m_connectedRecoveryAttempts s" "m_connectionState t = m_connectionState s"
    "\<not> connectedRecoveryTimer t" "action = StartConnection \<Longrightarrow> pendingNetworkDeadlineTimer t" "vcLog t = vcLog s"
    "healthInv t = healthInv s" "vcFaults t = vcFaults s"
    by (simp_all add: t_def Let_def stopConnectivityProbe_def stopConnectedRecovery_def stopConnectingWatchdog_def healthInv_def)
  have k: "keeps t (deferred action h s)" by (simp add: deferred_def t_def [symmetric] keeps_intros)
  have "vcFaults (deferred action h s) = vcFaults t"
    by (simp add: deferred_def t_def [symmetric] setConnectionHealth_def act_def)
  with k t keeps_fields [OF k] show "m_vpnProtocol (deferred action h s) = m_vpnProtocol s"
    "m_pendingNetworkAction (deferred action h s) = action"
    "m_connectedRecoveryAttempts (deferred action h s) = m_connectedRecoveryAttempts s"
    "m_connectionState (deferred action h s) = m_connectionState s" "\<not> connectedRecoveryTimer (deferred action h s)"
    "action = StartConnection \<Longrightarrow> pendingNetworkDeadlineTimer (deferred action h s)"
    "extends (vcLog s) (vcLog (deferred action h s))" "healthInv s \<Longrightarrow> healthInv (deferred action h s)"
    "vcFaults (deferred action h s) = vcFaults s"
    by (simp_all add: keeps_def)
qed

lemma safe_deferred:
  assumes "safeBut s" "action = StartConnection \<Longrightarrow> acceptedAfter (vcLog s)"
    "action \<in> {RequestReconnect, StartSilentReconnect} \<Longrightarrow> m_vpnProtocol s \<noteq> None \<and> m_connectionState s = Connected"
    "action \<noteq> NoAction"
  shows "safe (deferred action h s)"
  using assms extends_facts [OF deferred_fields(7) [where s = s and action = action and h = h]] deferred_fields [where s = s and action = action and h = h]
  by (cases action) (simp_all add: safe_def safeBut_def connectInv_def)

definition tornDown :: "nat \<Rightarrow> vcState \<Rightarrow> vcState" where
  "tornDown old s = act (ProtocolStop old) (dropSlots (setConnectionHealth Recovering
     ((stopConnectedRecovery (stopConnectingWatchdog (stopPendingNetworkAction s)))\<lparr>m_silentReconnectInProgress := True\<rparr>)))"

definition silentOutcome :: "vcEnv \<Rightarrow> nat \<Rightarrow> errorCode \<times> vcState \<Rightarrow> vcState" where
  "silentOutcome env p v = (case v of (err, s) \<Rightarrow>
     if m_vpnProtocol s \<noteq> Some p then dropSlots s
     else if err \<noteq> NoError then
       if recoverableProtocolError err then snd (handleSilentReconnectFailure env (connectionHealthForError err) err s)
       else startFailed env err ProtocolStartFailed ((stopConnectingWatchdog s)\<lparr>m_silentReconnectInProgress := False\<rparr>)
     else if m_silentReconnectInProgress s then setConnectionHealth Recovering s else s)"

lemma useProtocol_some [simp]: "m_vpnProtocol s = Some p \<Longrightarrow> useProtocol s = s"
  by (simp add: useProtocol_def)

lemma protocol_health [simp]: "m_vpnProtocol (setConnectionHealth h s) = m_vpnProtocol s"
  by (simp add: setConnectionHealth_def act_def)

lemma startSilentReconnect_eq:
  assumes "m_vpnProtocol s = Some old" "\<not> m_silentReconnectInProgress s" "physicalNetworkReady env s = (ready, t)"
  shows "startSilentReconnect env s = (if \<not> ready then deferred StartSilentReconnect Recovering t
     else let u = createProtocol (tornDown old t) in case m_vpnProtocol u of
         None \<Rightarrow> startFailed env InternalError ProtocolStartFailed (u\<lparr>m_silentReconnectInProgress := False\<rparr>)
       | Some p \<Rightarrow> silentOutcome env p (startProtocol env p (startConnectingWatchdog (createProtocolConnections u))))"
proof -
  have "keeps s t" using keeps_physicalNetworkReady [OF keeps_refl, of s env] assms(3) by simp
  then have "m_vpnProtocol t = Some old" using assms(1) by (simp add: keeps_fields)
  then show ?thesis using assms
    by (simp add: startSilentReconnect_def deferUntilPhysicalNetworkReady_eq tornDown_def silentOutcome_def Let_def
        stopConnectedRecovery_def stopConnectingWatchdog_def stopPendingNetworkAction_def dropSlots_def useProtocol_def
        split: option.split)
qed

lemma signalled_silentOutcome: "signalled (snd v) (silentOutcome env p v)"
proof -
  have "signalled s (startFailed env err ProtocolStartFailed ((stopConnectingWatchdog s)\<lparr>m_silentReconnectInProgress := False\<rparr>))"
    for s err
  proof -
    let ?t = "(stopConnectingWatchdog s)\<lparr>m_silentReconnectInProgress := False\<rparr>"
    have "loosely s ?t"
      by (simp add: loosely_def stopConnectingWatchdog_def retriesLeft_def request_def healthInv_def nullFree_def)
    then have "loosely s (startFailed env err ProtocolStartFailed ?t)"
      by (rule loosely_via [rotated]) (simp add: signalled_intros)
    moreover have "m_connectionState (startFailed env err ProtocolStartFailed ?t) = ErrorState"
      by (simp add: startFailed_def act_def)
    ultimately show ?thesis by (simp add: signalled_def connectInv_def)
  qed
  then show ?thesis by (simp add: silentOutcome_def split_beta signalled_intros)
qed

text \<open>The state right before the new protocol is created.\<close>

lemma tornDown_fields:
  "m_vpnProtocol (tornDown old s) = m_vpnProtocol s" "m_pendingNetworkAction (tornDown old s) = NoAction"
  "m_connectedRecoveryAttempts (tornDown old s) = m_connectedRecoveryAttempts s"
  "m_connectionState (tornDown old s) = m_connectionState s" "\<not> connectedRecoveryTimer (tornDown old s)"
  "extends (vcLog s) (vcLog (tornDown old s))" "healthInv s \<Longrightarrow> healthInv (tornDown old s)"
  "vcFaults (tornDown old s) = vcFaults s"
  by (auto simp: tornDown_def stopConnectedRecovery_def stopConnectingWatchdog_def stopPendingNetworkAction_def dropSlots_def
      act_def setConnectionHealth_def shouldPublishConnectionHealth_def healthInv_def harmless_def extends_def)

lemma safe_tornDown:
  assumes "safeBut s" "m_vpnProtocol s \<noteq> None" "m_connectionState s = Connected"
  shows "safe (createProtocol (tornDown old s))"
proof (rule safe_created)
  note f = tornDown_fields [where s = s and old = old] and e = extends_facts [OF tornDown_fields(6) [where s = s and old = old]]
  show "safeBut (tornDown old s)" "acceptedAfter (vcLog (tornDown old s))" "m_pendingNetworkAction (tornDown old s) = NoAction"
    using assms f e by (simp_all add: safeBut_def)
  show "connectInv (createProtocol (tornDown old s))"
    using assms f by (simp add: connectInv_def createProtocol_def dropSlots_def)
qed

lemma safe_startSilentReconnect:
  assumes "safe s" "m_vpnProtocol s \<noteq> None" "m_connectionState s = Connected"
  shows "safe (startSilentReconnect env s)"
proof (cases "m_silentReconnectInProgress s")
  case True
  then show ?thesis using assms(1) by (simp add: startSilentReconnect_def)
next
  case False
  obtain old where old: "m_vpnProtocol s = Some old" using assms(2) by auto
  obtain ready t where t: "physicalNetworkReady env s = (ready, t)" by fastforce
  have k: "keeps s t" using keeps_physicalNetworkReady [OF keeps_refl, of s env] t by simp
  have st: "safe t" "m_vpnProtocol t \<noteq> None" "m_connectionState t = Connected"
    using safe_keeps [OF assms(1) k] keeps_fields [OF k] assms by simp_all
  let ?u = "createProtocol (tornDown old t)"
  have u: "safe ?u" using safe_tornDown st by (simp add: safe_def)
  have "safe (startFailed env InternalError ProtocolStartFailed (?u\<lparr>m_silentReconnectInProgress := False\<rparr>))"
    using safe_signalled [OF u] by (simp add: signalled_intros)
  moreover have "safe (silentOutcome env p (startProtocol env p (startConnectingWatchdog (createProtocolConnections ?u))))"
    if "m_vpnProtocol ?u = Some p" for p
  proof (rule safe_signalled [OF _ signalled_silentOutcome], rule safe_start)
    show "safe (startConnectingWatchdog (createProtocolConnections ?u))"
      using u by (auto simp: safe_def safeBut_def connectInv_def healthInv_def startConnectingWatchdog_def createProtocolConnections_def)
    show "m_vpnProtocol (startConnectingWatchdog (createProtocolConnections ?u)) = Some p"
      using that by (simp add: startConnectingWatchdog_def createProtocolConnections_def)
  qed
  moreover have "safe (deferred StartSilentReconnect Recovering t)"
    using st by (intro safe_deferred) (simp_all add: safe_def)
  ultimately show ?thesis
    by (simp add: startSilentReconnect_eq [OF old False t] Let_def split: option.split)
qed

lemma safe_reconnectToVpn:
  assumes "safe s"
  shows "safe (reconnectToVpn env s)"
proof (cases "m_vpnProtocol s = None \<or> m_connectionState s \<noteq> Connected")
  case True
  then show ?thesis using assms by (auto simp: reconnectToVpn_def)
next
  case False
  obtain ready t where t: "physicalNetworkReady env s = (ready, t)" by fastforce
  have k: "keeps s t" using keeps_physicalNetworkReady [OF keeps_refl, of s env] t by simp
  have st: "safe t" "m_vpnProtocol t \<noteq> None" "m_connectionState t = Connected"
    using safe_keeps [OF assms(1) k] keeps_fields [OF k] False by simp_all
  have "safe (deferred RequestReconnect Recovering t)"
    using st by (intro safe_deferred) (simp_all add: safe_def)
  moreover have "safe (startSilentReconnect env (t\<lparr>m_connectedRecoveryAttempts := n, m_noTrafficRecoveryAttempted := True\<rparr>))"
    "safe (t\<lparr>m_connectedRecoveryAttempts := n\<rparr>)" if "n \<le> 3" for n
  proof -
    have "safe (t\<lparr>m_connectedRecoveryAttempts := n, m_noTrafficRecoveryAttempted := True\<rparr>)" "safe (t\<lparr>m_connectedRecoveryAttempts := n\<rparr>)"
      using st(1) that by (simp_all add: safe_def safeBut_def connectInv_def healthInv_def)
    then show "safe (startSilentReconnect env (t\<lparr>m_connectedRecoveryAttempts := n, m_noTrafficRecoveryAttempted := True\<rparr>))"
      "safe (t\<lparr>m_connectedRecoveryAttempts := n\<rparr>)" using st by (simp_all add: safe_startSilentReconnect)
  qed
  ultimately show ?thesis
    using assms t st(1) by (simp add: reconnectToVpn_def deferUntilPhysicalNetworkReady_eq Let_def kMaxConnectedRecoveryAttempts_def)
qed

lemma safe_resumePendingNetworkAction:
  assumes "safe s"
  shows "safe (resumePendingNetworkAction env s)"
proof -
  obtain ready t where t: "physicalNetworkReady env s = (ready, t)" by fastforce
  have k: "keeps s t" using keeps_physicalNetworkReady [OF keeps_refl, of s env] t by simp
  have st: "safe t" using safe_keeps [OF assms(1) k] .
  let ?u = "stopPendingNetworkAction t"
  have u: "safeBut ?u" using st safeBut_stopPending by (simp add: safe_def)
  have f: "m_connectionState ?u = m_connectionState t" "m_vpnProtocol ?u = m_vpnProtocol t" "vcLog ?u = vcLog t"
    "connectingTimer ?u = connectingTimer t"
    by (simp_all add: stopPendingNetworkAction_def)
  have quiet: "safe ?u" if "m_connectionState t = Connecting \<Longrightarrow> m_pendingNetworkAction t \<noteq> StartConnection"
    using u that st by (auto simp: safe_def connectInv_def f)
  have "safe (startConfiguredConnection env ?u)" if "m_pendingNetworkAction t = StartConnection"
    using safe_startConfiguredConnection [OF u] st that by (simp add: f safe_def safeBut_def)
  moreover have "safe (startSilentReconnect env ?u)"
    if "m_pendingNetworkAction t = StartSilentReconnect" "m_connectionState t = Connected"
    using st that by (intro safe_startSilentReconnect quiet) (simp_all add: f safe_def safeBut_def)
  ultimately show ?thesis
    using assms st t quiet safe_reconnectToVpn
    by (auto simp: resumePendingNetworkAction_def Let_def f split: pendingAction.split bool.split)
qed

section \<open>Time-outs and requests\<close>

lemma stopping_neutral [simp]:
  "loosely (r\<lparr>m_stoppingAfterFailure := b\<rparr>) s = loosely r s" "loosely r (s\<lparr>m_stoppingAfterFailure := b\<rparr>) = loosely r s"
  by (simp_all add: loosely_def retriesLeft_def request_def healthInv_def nullFree_def)

text \<open>The end of an attempt to connect.\<close>

definition timedOut :: "vcEnv \<Rightarrow> vcState \<Rightarrow> vcState" where
  "timedOut env s =
     (let s = setConnectionHealth HandshakeTimeout (markLastError VpnHandshakeTimeout s);
          s = (if m_vpnProtocol s \<noteq> None then stopProtocol env (s\<lparr>m_stoppingAfterFailure := True\<rparr>) else s)
      in act (VpnProtocolError VpnHandshakeTimeout)
           ((setConnectionState env ErrorState s)\<lparr>m_stoppingAfterFailure := False\<rparr>))"

lemma onConnectingTimedOut_eq:
  "onConnectingTimedOut env s =
     (if m_connectionState s = Connecting \<or> m_connectionState s = Reconnecting then timedOut env s
      else if m_silentReconnectInProgress s \<and> m_connectionState s = Connected
        then snd (handleSilentReconnectFailure env HandshakeTimeout VpnHandshakeTimeout s) else s)"
  by (auto simp: onConnectingTimedOut_def timedOut_def)

lemma timedOut_error [simp]: "m_connectionState (timedOut env s) = ErrorState"
  by (simp add: timedOut_def act_def Let_def)

lemma loosely_timedOut: "loosely s (timedOut env s)"
proof -
  define t where "t = setConnectionHealth HandshakeTimeout (markLastError VpnHandshakeTimeout s)"
  have t: "loosely s t" using signalled_health [OF signalled_lastError, OF signalled_refl] by (simp add: t_def signalled_def)
  let ?t = "t\<lparr>m_stoppingAfterFailure := True\<rparr>"
  define u where "u = (if m_vpnProtocol t \<noteq> None then stopProtocol env ?t else t)"
  have "loosely ?t (stopProtocol env ?t)" if "m_vpnProtocol t \<noteq> None"
    using that signalled_stopProtocol [of ?t ?t env] by (simp add: signalled_def)
  then have "loosely s u" using t loosely_trans by (simp add: u_def)
  then have "loosely s (setConnectionState env ErrorState u)"
    by (rule loosely_via [rotated]) (simp add: signalled_intros)
  then have "loosely s ((setConnectionState env ErrorState u)\<lparr>m_stoppingAfterFailure := False\<rparr>)" by simp
  then show ?thesis unfolding timedOut_def t_def [symmetric] Let_def u_def [symmetric]
    by (rule loosely_via [rotated]) (simp add: signalled_intros harmless_def)
qed

lemma safe_onConnectingTimedOut:
  assumes "safeBut s"
  shows "safe (onConnectingTimedOut env s)"
  using safeBut_loosely [OF assms loosely_timedOut] safeBut_loosely [OF assms handleSilentReconnectFailure_loosely] assms
  by (auto simp: onConnectingTimedOut_eq safe_def connectInv_def handleSilentReconnectFailure_connectInv [unfolded connectInv_def])

lemma requested_fields:
  fixes env :: vcEnv and serverId :: string and container :: dockerContainer and config :: jobj
  assumes "safe s"
  defines "t \<equiv> connectRequested env serverId container config s"
  shows "safe t" "m_pendingNetworkAction t = NoAction"
proof -
  define u where "u = stopPendingNetworkAction ((stopConnectedRecovery ((markLastError NoError s)
      \<lparr>m_connectedRecoveryAttempts := 0, m_noTrafficRecoveryAttempted := False\<rparr>))\<lparr>m_stoppingAfterFailure := False,
      m_currentServerId := serverId, m_currentContainer := container,
      m_remoteAddress := getIPAddress env (jToString (jvalue config ''hostName''))\<rparr>)"
  define v where "v = setConnectionState env Connecting u"
  have t: "t = v\<lparr>m_vpnConfiguration := config\<rparr>" by (simp add: t_def connectRequested_def u_def v_def Let_def)
  have u: "safeBut u" using assms(1)
    by (simp add: u_def safe_def safeBut_def healthInv_def stopPendingNetworkAction_def stopConnectedRecovery_def markLastError_def)
  have uv: "signalled u v" by (simp add: v_def signalled_intros)
  have "v = changeState env Connecting u" by (simp add: v_def setConnectionState_def)
  then have "connectingTimer v"
    by (simp add: changeState_def Let_def act_def entered_fields(9))
  then show "safe t"
    using safeBut_signalled [OF u uv] by (simp add: t safe_def safeBut_def healthInv_def connectInv_def)
  have "m_pendingNetworkAction u = NoAction" by (simp add: u_def stopPendingNetworkAction_def)
  then show "m_pendingNetworkAction t = NoAction" using uv by (simp add: t signalled_facts)
qed

lemma requested_values:
  fixes env :: vcEnv and serverId :: string and container :: dockerContainer and config :: jobj and s :: vcState
  defines "t \<equiv> connectRequested env serverId container config s"
  shows "m_currentContainer t = container" "m_vpnConfiguration t = config"
    "m_remoteAddress t = getIPAddress env (jToString (jvalue config ''hostName''))" "extends (vcLog s) (vcLog t)"
    "m_pendingNetworkAction t = NoAction" "m_appSettingsRepository t = m_appSettingsRepository s"
proof -
  define u where "u = stopPendingNetworkAction ((stopConnectedRecovery ((markLastError NoError s)
      \<lparr>m_connectedRecoveryAttempts := 0, m_noTrafficRecoveryAttempted := False\<rparr>))\<lparr>m_stoppingAfterFailure := False,
      m_currentServerId := serverId, m_currentContainer := container,
      m_remoteAddress := getIPAddress env (jToString (jvalue config ''hostName''))\<rparr>)"
  have t: "t = (setConnectionState env Connecting u)\<lparr>m_vpnConfiguration := config\<rparr>"
    by (simp add: t_def connectRequested_def u_def Let_def)
  have u: "m_currentContainer u = container" "m_remoteAddress u = getIPAddress env (jToString (jvalue config ''hostName''))"
    "m_pendingNetworkAction u = NoAction" "vcLog u = vcLog s" "m_appSettingsRepository u = m_appSettingsRepository s"
    by (simp_all add: u_def stopPendingNetworkAction_def stopConnectedRecovery_def markLastError_def)
  have "signalled u (setConnectionState env Connecting u)" by (simp add: signalled_intros)
  from signalled_facts [OF this] u show "m_currentContainer t = container" "m_vpnConfiguration t = config"
    "m_remoteAddress t = getIPAddress env (jToString (jvalue config ''hostName''))" "extends (vcLog s) (vcLog t)"
    "m_pendingNetworkAction t = NoAction" "m_appSettingsRepository t = m_appSettingsRepository s"
    by (simp_all add: t request_def)
qed

lemma qinsert_neq_Nil [simp]: "qinsert k v o1 \<noteq> []"
  by (cases o1) (auto split: if_splits)

lemma accepts_call:
  assumes "config \<noteq> []"
  shows "acceptedAfter (l @ [Called (SetConnectionProtection enabled config) r]) \<longleftrightarrow> replyOk r \<or> acceptedAfter l"
  using assms by (simp add: acceptedAfter_def)

lemma protectConnection_fields:
  assumes "config \<noteq> []" "protectConnection env enabled config s = (ok, t)"
  shows "safe s \<Longrightarrow> safe t" "ok \<Longrightarrow> acceptedAfter (vcLog t)" "m_pendingNetworkAction t = m_pendingNetworkAction s"
    "nullFree t = nullFree s" "noStarts (vcLog s) (vcLog t)"
proof -
  consider "t = s" "\<not> ok" | r where "t = act (Called (SetConnectionProtection enabled config) r) s" "ok = replyOk r"
    using assms(2) by (auto simp: protectConnection_def callService_def Let_def split: if_splits)
  then have "(safe s \<longrightarrow> safe t) \<and> (ok \<longrightarrow> acceptedAfter (vcLog t)) \<and> m_pendingNetworkAction t = m_pendingNetworkAction s \<and>
      nullFree t = nullFree s \<and> noStarts (vcLog s) (vcLog t)"
  proof cases
    case (2 r)
    have "noStarts (vcLog s) (vcLog t)" by (simp add: 2 act_def noStarts_def)
    with noStarts_accepted show ?thesis
      using accepts_call [OF assms(1)] by (simp add: 2 act_def safe_def safeBut_def healthInv_def connectInv_def nullFree_def)
  qed simp
  then show "safe s \<Longrightarrow> safe t" "ok \<Longrightarrow> acceptedAfter (vcLog t)" "m_pendingNetworkAction t = m_pendingNetworkAction s"
    "nullFree t = nullFree s" "noStarts (vcLog s) (vcLog t)" by simp_all
qed

lemma discard_fields:
  assumes "safe s" "m_pendingNetworkAction s = NoAction" "acceptedAfter (vcLog s)"
  shows "safe (discardProtocol env s)" "acceptedAfter (vcLog (discardProtocol env s))"
    "nullFree s \<Longrightarrow> nullFree (discardProtocol env s)"
proof -
  let ?t = "s\<lparr>protocolErrorSlot := False\<rparr>"
  define v where "v = stopProtocol env ?t"
  have "safe (discardProtocol env s) \<and> acceptedAfter (vcLog (discardProtocol env s)) \<and>
      (nullFree s \<longrightarrow> nullFree (discardProtocol env s))" if m: "m_vpnProtocol s \<noteq> None"
  proof -
    have sig: "signalled ?t v" using m by (simp add: v_def signalled_stopProtocol)
    have "safe ?t" "nullFree ?t = nullFree s"
      using assms by (simp_all add: safe_def safeBut_def connectInv_def healthInv_def nullFree_def)
    then have v: "safe v" "nullFree s \<Longrightarrow> nullFree v" using sig safe_signalled signalled_facts(9) m by fastforce+
    have "acceptedAfter (vcLog v)" using extends_facts(1) [OF signalled_facts(7) [OF sig]] assms(3) by simp
    moreover have "discardProtocol env s = dropSlots (v\<lparr>m_vpnProtocol := None\<rparr>)"
      using m by (auto simp: discardProtocol_def v_def)
    ultimately show ?thesis
      using v assms(2) signalled_facts(2) [OF sig]
      by (simp add: dropSlots_def safe_def safeBut_def healthInv_def connectInv_def nullFree_def)
  qed
  moreover have "discardProtocol env s = s" if "m_vpnProtocol s = None" using that by (simp add: discardProtocol_def)
  ultimately show "safe (discardProtocol env s)" "acceptedAfter (vcLog (discardProtocol env s))"
    "nullFree s \<Longrightarrow> nullFree (discardProtocol env s)" using assms by (cases "m_vpnProtocol s"; simp)+
qed

text \<open>After the protection was accepted.\<close>

definition launch :: "vcEnv \<Rightarrow> vcState \<Rightarrow> vcState" where
  "launch env s = (let (ready, t) = physicalNetworkReady env (discardProtocol env s) in
     if ready then startConfiguredConnection env t else deferred StartConnection CheckingLocalNetwork t)"

lemma safe_launch:
  assumes "safe s" "m_pendingNetworkAction s = NoAction" "acceptedAfter (vcLog s)"
  shows "safe (launch env s)"
proof -
  let ?u = "discardProtocol env s"
  obtain ready t where t: "physicalNetworkReady env ?u = (ready, t)" by fastforce
  have k: "keeps ?u t" using keeps_physicalNetworkReady [OF keeps_refl, of ?u env] t by simp
  have "safe t" using safe_keeps [OF discard_fields(1) [OF assms] k] .
  moreover have "acceptedAfter (vcLog t)"
    using discard_fields(2) [OF assms] k extends_facts(1) by (auto simp: keeps_def)
  ultimately show ?thesis
    using t safe_startConfiguredConnection safe_deferred [of t StartConnection] by (simp add: launch_def safe_def)
qed

lemma connectToVpn_eq:
  "connectToVpn env serverId container vpnConfiguration s =
     (case (m_appSettingsRepository s, m_serversRepository s) of
        (Some st, Some repo) \<Rightarrow>
          let s = connectRequested env serverId container vpnConfiguration s in
          (case appendSplitTunnelingConfig (readsIPv4 env) st (m_currentContainer s)
                  (appendKillSwitchConfig st (m_vpnConfiguration s)) of
             None \<Rightarrow> raise EmptyRule s
           | Some config \<Rightarrow>
               let v = protectConnection env (isKillSwitchEnabled st) (qinsert ''vpnServer'' (JStr (m_remoteAddress s)) config)
                         (s\<lparr>m_vpnConfiguration := config\<rparr>) in
               if fst v then launch env (snd v)
               else startFailed env AmneziaServiceConnectionFailed LocalServiceUnavailable (snd v))
      | _ \<Rightarrow> setConnectionState env ErrorState s)"
  by (auto simp: connectToVpn_def launch_def deferUntilPhysicalNetworkReady_eq Let_def
      split: option.split prod.split bool.split)

lemma safe_connectToVpn:
  assumes "safe s"
  shows "safe (connectToVpn env serverId container vpnConfiguration s)"
proof (cases "\<exists>st repo. m_appSettingsRepository s = Some st \<and> m_serversRepository s = Some repo")
  case True
  then obtain st repo where 1: "m_appSettingsRepository s = Some st" "m_serversRepository s = Some repo" by blast
  define t where "t = connectRequested env serverId container vpnConfiguration s"
  note t = requested_fields [OF assms, where env = env and serverId = serverId and container = container
      and config = vpnConfiguration, folded t_def]
  show ?thesis
  proof (cases "appendSplitTunnelingConfig (readsIPv4 env) st (m_currentContainer t) (appendKillSwitchConfig st (m_vpnConfiguration t))")
    case None
    then show ?thesis using 1 safe_keeps [OF t(1)] by (simp add: connectToVpn_eq t_def [symmetric] keeps_intros)
  next
    case (Some config)
    let ?u = "t\<lparr>m_vpnConfiguration := config\<rparr>"
    obtain ok v where v: "protectConnection env (isKillSwitchEnabled st)
        (qinsert ''vpnServer'' (JStr (m_remoteAddress t)) config) ?u = (ok, v)" by fastforce
    have "safe ?u" using t by (simp add: safe_def safeBut_def connectInv_def healthInv_def)
    note f = protectConnection_fields [OF qinsert_neq_Nil v]
    have "safe v" using f(1) [OF \<open>safe ?u\<close>] .
    moreover have "m_pendingNetworkAction v = NoAction" using f(3) t(2) by simp
    ultimately show ?thesis
      using 1 Some v f(2) safe_launch safe_signalled [OF \<open>safe v\<close>]
      by (simp add: connectToVpn_eq t_def [symmetric] signalled_intros Let_def)
  qed
next
  case False
  then have "connectToVpn env serverId container vpnConfiguration s = setConnectionState env ErrorState s"
    by (auto simp: connectToVpn_def split: option.split)
  then show ?thesis using safe_signalled [OF assms] by (simp add: signalled_intros)
qed

section \<open>Runs\<close>

text \<open>What is outside the class may change from event to event.\<close>

definition vcRun :: "(vcEnv \<times> vcEvent) list \<Rightarrow> vcState \<Rightarrow> vcState" where
  "vcRun es s = fold (\<lambda>(env, e). vcStep env e) es s"

lemma vcRun_Nil [simp]: "vcRun [] s = s"
  by (simp add: vcRun_def)

lemma vcRun_Cons [simp]: "vcRun ((env, e) # es) s = vcRun es (vcStep env e s)"
  by (simp add: vcRun_def)

lemma vcRun_append: "vcRun (es @ fs) s = vcRun fs (vcRun es s)"
  by (simp add: vcRun_def)

lemma run_invariant:
  assumes "P s" "\<And>env e s. (env, e) \<in> set es \<Longrightarrow> P s \<Longrightarrow> P (vcStep env e s)"
  shows "P (vcRun es s)"
  using assms by (induction es arbitrary: s) auto

text \<open>The events that only signal, or only set health and routes.\<close>

fun observes :: "vcEvent \<Rightarrow> bool" where
  "observes (StateRequested state) = True"
| "observes (DiagnosticRequested h) = True"
| "observes (ProtocolSignal sig) = True"
| "observes HealthTick = True"
| "observes (PostedRuns p) = True"
| "observes ProbeFailed = True"
| "observes (DnsHealthAnswer resolved) = True"
| "observes (DnsConfigured ok) = True"
| "observes (KillSwitchModeChanged enabled) = True"
| "observes SlotsDisconnected = True"
| "observes BlockedSitesChanged = True"
| "observes RoutesRefreshed = True"
| "observes _ = False"

lemma signalled_observes:
  assumes "observes e"
  shows "signalled s (vcStep env e s)"
proof -
  have k: "signalled s t" if "keeps s t" for t using that keeps_signalled by blast
  have r: "signalled s (snd (recoverConnectedTunnel h err t))" if "keeps s t" for h err t
    using k [OF that] by (simp add: signalled_intros)
  show ?thesis
    using assms by (cases e)
      (auto simp: k r signalled_intros keeps_intros onConnectivityProbeFailed_def onDnsHealthAnswer_def disconnectSlots_def Let_def
        split: posted.split)
qed

lemma safe_settings [simp]:
  "safe (s\<lparr>m_appSettingsRepository := st\<rparr>) = safe s" "safe (setRepositories repo sett s) = safe s"
  by (simp_all add: safe_def safeBut_def connectInv_def healthInv_def setRepositories_def)

lemma safe_probeSucceeded:
  assumes "safe s"
  shows "safe (onConnectivityProbeSucceeded s)"
proof -
  have s: "safe (stopConnectivityProbe s)" using safe_keeps [OF assms] by (simp add: keeps_intros)
  then have "safe ((markLastError NoError (stopConnectivityProbe s))\<lparr>m_connectedRecoveryAttempts := 0, m_noTrafficRecoveryAttempted := False\<rparr>)"
    by (simp add: safe_def safeBut_def connectInv_def healthInv_def markLastError_def)
  then show ?thesis
    using s safe_keeps by (simp add: onConnectivityProbeSucceeded_def Let_def) (blast intro: keeps_health keeps_refl)
qed

lemma safe_vcStep:
  assumes "safe s"
  shows "safe (vcStep env e s)"
proof (cases "observes e")
  case True
  then show ?thesis using safe_signalled [OF assms signalled_observes] by blast
next
  case False
  have timers: "safeBut (s\<lparr>connectingTimer := False\<rparr>)" "safeBut (stopPendingNetworkAction (s\<lparr>pendingNetworkDeadlineTimer := False\<rparr>))"
    "safe (s\<lparr>connectedRecoveryTimer := False\<rparr>)"
    using assms by (simp_all add: safe_def safeBut_def healthInv_def connectInv_def stopPendingNetworkAction_def)
  show ?thesis
  proof (cases e)
    case RecoveryTimeout
    then show ?thesis using assms timers(3) by (simp add: Let_def safe_startSilentReconnect)
  next
    case PendingDeadline
    have "safe (s\<lparr>pendingNetworkDeadlineTimer := False\<rparr>)" if "m_pendingNetworkAction s \<noteq> StartConnection"
      using assms that by (simp add: safe_def safeBut_def healthInv_def connectInv_def)
    then show ?thesis using assms timers(2) PendingDeadline by (simp add: Let_def safe_onConnectingTimedOut)
  next
    case (ProbeConnected ms)
    then show ?thesis using assms safe_keeps [OF assms] by (simp add: safe_probeSucceeded keeps_intros)
  qed (use False assms timers(1) in \<open>simp_all add: safe_connectToVpn safe_reconnectToVpn safe_resumePendingNetworkAction
      safe_onConnectingTimedOut safe_ended [OF _ disconnect_ended]\<close>)
qed

lemma safe_vcState0: "safe (vcState0 repo st)"
  by (simp add: vcState0_def safe_def safeBut_def healthInv_def connectInv_def startsAccepted_def)

lemma safe_vcRun: "safe (vcRun es (vcState0 repo st))"
  by (rule run_invariant) (simp_all add: safe_vcState0 safe_vcStep)

section \<open>Requests for protection with the kill switch on\<close>

text \<open>While the settings have the kill switch on, no request of a connection releases the protection.\<close>

lemma asks_keeps: "keeps r s \<Longrightarrow> asks r s"
  by (simp add: signalled_asks keeps_signalled)

lemma asks_created: "asks s (createProtocol s)" "asks s (startConnectingWatchdog s)" "asks s (createProtocolConnections s)"
  "asks s (stopPendingNetworkAction s)" "asks s (dropSlots s)" "asks s (deferred action h s)" "asks s (tornDown old s)"
  by (auto intro!: asks_same simp: createProtocol_def dropSlots_def startConnectingWatchdog_def createProtocolConnections_def
      stopPendingNetworkAction_def deferred_fields tornDown_fields)
   (simp_all add: deferred_def tornDown_def setConnectionHealth_def act_def Let_def stopConnectivityProbe_def dropSlots_def
      stopConnectedRecovery_def stopConnectingWatchdog_def stopPendingNetworkAction_def)

lemma asks_startProtocol: "asks s (snd (startProtocol env p s))"
  using started_asks [OF started_startProtocol] by (rule asks_trans [rotated]) (simp add: asks_def act_def)

text \<open>The protocol of a new connection, and what follows its start.\<close>

definition configured :: "vcState \<Rightarrow> vcState" where
  "configured s = createProtocol (startConnectingWatchdog (stopPendingNetworkAction s))"

lemma startConfiguredConnection_cases:
  obtains "m_vpnProtocol (configured s) = None" "signalled (configured s) (startConfiguredConnection env s)"
  | p where "m_vpnProtocol (configured s) = Some p"
    "signalled (snd (startProtocol env p (createProtocolConnections (configured s)))) (startConfiguredConnection env s)"
proof (cases "m_vpnProtocol (configured s)")
  case None
  then have "signalled (configured s) (startConfiguredConnection env s)"
    by (simp add: startConfiguredConnection_def configured_def [symmetric] Let_def signalled_intros harmless_def)
  with None that(1) show ?thesis by blast
next
  case (Some p)
  then have "signalled (snd (startProtocol env p (createProtocolConnections (configured s)))) (startConfiguredConnection env s)"
    by (simp add: startConfiguredConnection_def configured_def [symmetric] Let_def split_beta signalled_intros)
  with Some that(2) show ?thesis by blast
qed

lemma asks_startConfiguredConnection: "asks s (startConfiguredConnection env s)"
proof -
  have u: "asks s (configured s)" unfolding configured_def by (meson asks_created asks_trans)
  show ?thesis
  proof (cases rule: startConfiguredConnection_cases [of s env])
    case 1
    then show ?thesis using u signalled_asks asks_trans by blast
  next
    case (2 p)
    then show ?thesis using asks_trans [OF asks_trans [OF u asks_created(3)] asks_startProtocol] signalled_asks asks_trans by blast
  qed
qed

lemma asks_physical: "physicalNetworkReady env s = (ready, t) \<Longrightarrow> asks s t"
  using asks_keeps [OF keeps_physicalNetworkReady [OF keeps_refl], of s env] by simp

lemma asks_startSilentReconnect:
  assumes "m_vpnProtocol s \<noteq> None"
  shows "asks s (startSilentReconnect env s)"
proof (cases "m_silentReconnectInProgress s")
  case True
  then show ?thesis by (simp add: startSilentReconnect_def)
next
  case False
  obtain old where old: "m_vpnProtocol s = Some old" using assms by auto
  obtain ready t where t: "physicalNetworkReady env s = (ready, t)" by fastforce
  let ?u = "createProtocol (tornDown old t)"
  have u: "asks s ?u" using asks_physical [OF t] by (meson asks_created asks_trans)
  have "asks s (startFailed env InternalError ProtocolStartFailed (?u\<lparr>m_silentReconnectInProgress := False\<rparr>))"
    using u by (rule asks_trans) (simp add: signalled_asks signalled_intros)
  moreover have "asks s (silentOutcome env p (startProtocol env p (startConnectingWatchdog (createProtocolConnections ?u))))" for p
    using u by (meson asks_created asks_trans asks_startProtocol signalled_asks signalled_silentOutcome)
  moreover have "asks s (deferred StartSilentReconnect Recovering t)"
    using asks_physical [OF t] by (meson asks_created asks_trans)
  ultimately show ?thesis by (simp add: startSilentReconnect_eq [OF old False t] Let_def split: option.split)
qed

lemma asks_reconnectToVpn: "asks s (reconnectToVpn env s)"
proof (cases "m_vpnProtocol s = None")
  case True
  then show ?thesis by (simp add: reconnectToVpn_def)
next
  case False
  obtain ready t where t: "physicalNetworkReady env s = (ready, t)" by fastforce
  have st: "asks s t" "m_vpnProtocol t = m_vpnProtocol s"
    using asks_physical [OF t] keeps_fields(3) [OF keeps_physicalNetworkReady [OF keeps_refl], of env s] t by simp_all
  have "asks s (deferred RequestReconnect Recovering t)" using st(1) by (meson asks_created asks_trans)
  moreover have n: "asks s (t\<lparr>m_connectedRecoveryAttempts := n\<rparr>)"
    "asks s (t\<lparr>m_connectedRecoveryAttempts := n, m_noTrafficRecoveryAttempted := b\<rparr>)" for n b
    using st(1) by (simp_all add: asks_def)
  moreover have "asks s (startSilentReconnect env (t\<lparr>m_connectedRecoveryAttempts := n, m_noTrafficRecoveryAttempted := b\<rparr>))" for n b
    using n(2) False st(2) by (intro asks_trans [OF n(2) asks_startSilentReconnect]) simp
  ultimately show ?thesis
    using st(1) t by (simp add: reconnectToVpn_def deferUntilPhysicalNetworkReady_eq Let_def)
qed

lemma asks_resume:
  assumes "safe s"
  shows "asks s (resumePendingNetworkAction env s)"
proof -
  obtain ready t where t: "physicalNetworkReady env s = (ready, t)" by fastforce
  have k: "keeps s t" using keeps_physicalNetworkReady [OF keeps_refl, of s env] t by simp
  let ?u = "stopPendingNetworkAction t"
  have u: "asks s ?u" using asks_keeps [OF k] by (meson asks_created asks_trans)
  have p: "m_vpnProtocol ?u \<noteq> None" if "m_pendingNetworkAction t = StartSilentReconnect"
    using safe_keeps [OF assms k] that by (simp add: safe_def safeBut_def stopPendingNetworkAction_def)
  have "asks s (startConfiguredConnection env ?u)" "asks s (reconnectToVpn env ?u)"
    using u asks_startConfiguredConnection asks_reconnectToVpn by (blast intro: asks_trans)+
  moreover have "asks s (startSilentReconnect env ?u)" if "m_pendingNetworkAction t = StartSilentReconnect"
    using u asks_startSilentReconnect [OF p [OF that]] by (rule asks_trans)
  ultimately show ?thesis
    using u asks_keeps [OF k] t by (auto simp: resumePendingNetworkAction_def Let_def split: pendingAction.split bool.split)
qed

lemma asks_timedOut: "asks s (onConnectingTimedOut env s)"
  by (simp add: onConnectingTimedOut_eq loosely_asks loosely_timedOut handleSilentReconnectFailure_loosely)

lemma asks_launch: "asks s (launch env s)"
proof -
  let ?t = "s\<lparr>protocolErrorSlot := False\<rparr>"
  have "asks s (discardProtocol env s)"
  proof (cases "m_vpnProtocol s")
    case (Some p)
    then have "asks ?t (stopProtocol env ?t)" by (simp add: signalled_asks signalled_stopProtocol)
    with Some show ?thesis by (simp add: discardProtocol_def dropSlots_def asks_def)
  qed (simp add: discardProtocol_def)
  moreover obtain ready t where t: "physicalNetworkReady env (discardProtocol env s) = (ready, t)" by fastforce
  ultimately have "asks s t" using asks_physical asks_trans by blast
  then show ?thesis using t asks_startConfiguredConnection asks_created(6) by (simp add: launch_def) (blast intro: asks_trans)
qed

lemma asks_connectToVpn:
  assumes "\<forall>x. m_appSettingsRepository s = Some x \<longrightarrow> isKillSwitchEnabled x"
  shows "asks s (connectToVpn env serverId container vpnConfiguration s)"
proof -
  define t where "t = connectRequested env serverId container vpnConfiguration s"
  have t: "asks s t" unfolding t_def by (rule asks_same) (rule requested_values)+
  have e: "asks s (raise EmptyRule t)" using t by (rule asks_trans) (simp add: asks_keeps keeps_intros)
  have s: "asks s (setConnectionState env ErrorState s)" by (simp add: signalled_asks signalled_intros)
  have v: "asks s (snd (protectConnection env True config (t\<lparr>m_vpnConfiguration := cfg\<rparr>)))" for config cfg
    using t by (auto simp: protectConnection_def callService_def Let_def asks_def act_def)
  have "asks s (launch env (snd (protectConnection env True config (t\<lparr>m_vpnConfiguration := cfg\<rparr>))))"
    "asks s (startFailed env AmneziaServiceConnectionFailed LocalServiceUnavailable
       (snd (protectConnection env True config (t\<lparr>m_vpnConfiguration := cfg\<rparr>))))" for config cfg
    using asks_trans [OF v asks_launch] asks_trans [OF v signalled_asks [OF signalled_startFailed [OF signalled_refl]]] by blast+
  then show ?thesis
    using e s assms by (auto simp: connectToVpn_eq t_def [symmetric] Let_def split: option.split)
qed

text \<open>The settings that the events of a run bring.\<close>

fun switchOn :: "vcEvent \<Rightarrow> bool" where
  "switchOn (SettingsChanged st) = isKillSwitchEnabled st"
| "switchOn (RepositoriesSet repo st) = (case st of None \<Rightarrow> True | Some x \<Rightarrow> isKillSwitchEnabled x)"
| "switchOn _ = True"

definition onlyProtected :: "vcState \<Rightarrow> bool" where
  "onlyProtected s \<longleftrightarrow> (\<forall>x. m_appSettingsRepository s = Some x \<longrightarrow> isKillSwitchEnabled x) \<and>
     list_all (\<lambda>a. \<not> unprotected a) (vcLog s)"

lemma onlyProtected_asks: "onlyProtected r \<Longrightarrow> asks r s \<Longrightarrow> onlyProtected s"
  by (auto simp: onlyProtected_def asks_def)

lemma onlyProtected_vcStep:
  assumes "onlyProtected s" "safe s" "switchOn e"
  shows "onlyProtected (vcStep env e s)"
proof (cases "observes e")
  case True
  then show ?thesis using onlyProtected_asks assms(1) signalled_asks [OF signalled_observes] by blast
next
  case False
  note by_asks = onlyProtected_asks [OF assms(1)]
  have same: "onlyProtected (s\<lparr>connectingTimer := b\<rparr>)" "onlyProtected (s\<lparr>connectedRecoveryTimer := b\<rparr>)"
    "onlyProtected (s\<lparr>pendingNetworkDeadlineTimer := b\<rparr>)" "onlyProtected (stopPendingNetworkAction (s\<lparr>pendingNetworkDeadlineTimer := b\<rparr>))"
    for b using assms(1) by (simp_all add: onlyProtected_def stopPendingNetworkAction_def)
  show ?thesis
  proof (cases e)
    case (Connect serverId container config)
    then show ?thesis using by_asks asks_connectToVpn assms(1) by (simp add: onlyProtected_def [of s])
  next
    case RecoveryTimeout
    then show ?thesis using assms(1) same onlyProtected_asks [OF same(2) asks_startSilentReconnect] by (auto simp: Let_def)
  next
    case (ProbeConnected ms)
    have "onlyProtected (onConnectivityProbeSucceeded (recordConnectivityProbe ms s))" using assms(1)
      by (auto simp: onConnectivityProbeSucceeded_def recordConnectivityProbe_def stopConnectivityProbe_def markLastError_def
          setConnectionHealth_def act_def onlyProtected_def Let_def unprotected_def)
    then show ?thesis using ProbeConnected assms(1) by simp
  next
    case Disconnect
    then show ?thesis using by_asks disconnect_ended [of s env] by (simp add: ended_def)
  next
    case (RepositoriesSet repo st)
    then show ?thesis using assms(1,3) by (auto simp: onlyProtected_def setRepositories_def split: option.splits)
  next
    case (SettingsChanged st)
    then show ?thesis using assms(1,3) by (simp add: onlyProtected_def)
  qed (use False assms(1) same in \<open>simp_all add: Let_def by_asks asks_reconnectToVpn asks_resume [OF assms(2)]
      onlyProtected_asks [OF _ asks_timedOut]\<close>)
qed

section \<open>No use of a null protocol\<close>

text \<open>Only \<^const>\<open>connectedRoutes\<close> and \<^const>\<open>startSilentReconnect\<close> use a protocol that might be null.\<close>

named_theorems null_simps

lemma nullFree_updates [null_simps]:
  "nullFree (act a s) = nullFree s" "nullFree (raise EmptyRule s) = nullFree s" "nullFree (setConnectionHealth h s) = nullFree s"
  "nullFree (snd (callService env call s)) = nullFree s" "nullFree (markLastError e s) = nullFree s"
  "nullFree (stateEntered state s) = nullFree s" "nullFree (stopConnectedHealthCheck s) = nullFree s"
  "nullFree (startConnectivityProbe s) = nullFree s" "nullFree (stopConnectivityProbe s) = nullFree s"
  "nullFree (stopConnectingWatchdog s) = nullFree s" "nullFree (startConnectingWatchdog s) = nullFree s"
  "nullFree (stopPendingNetworkAction s) = nullFree s" "nullFree (dropSlots s) = nullFree s"
  "nullFree (createProtocol s) = nullFree s" "nullFree (createProtocolConnections s) = nullFree s"
  "nullFree (tornDown old s) = nullFree s" "nullFree (deferred action h s) = nullFree s" "nullFree (released env s) = nullFree s"
  "nullFree (recordConnectivityProbe ms s) = nullFree s" "nullFree (onBytesChanged rx tx s) = nullFree s"
  "nullFree (snd (physicalNetworkReady env s)) = nullFree s"
  by (auto simp: nullFree_def act_def raise_def setConnectionHealth_def callService_def Let_def markLastError_def
      stateEntered_rest stopConnectedHealthCheck_def startConnectivityProbe_def stopConnectivityProbe_def
      stopConnectingWatchdog_def startConnectingWatchdog_def stopPendingNetworkAction_def dropSlots_def createProtocol_def
      createProtocolConnections_def tornDown_fields deferred_fields released_fields recordConnectivityProbe_def
      onBytesChanged_def physicalNetworkReady_def split: option.split)

lemma nullFree_fields [null_simps]:
  "nullFree (s\<lparr>m_silentReconnectInProgress := b\<rparr>) = nullFree s" "nullFree (s\<lparr>m_stoppingAfterFailure := b\<rparr>) = nullFree s"
  "nullFree (s\<lparr>m_connectionState := state\<rparr>) = nullFree s" "nullFree (s\<lparr>m_vpnProtocol := p\<rparr>) = nullFree s"
  "nullFree (s\<lparr>dnsFlushDebounce := b\<rparr>) = nullFree s" "nullFree (s\<lparr>m_healthChecksWithoutTraffic := n\<rparr>) = nullFree s"
  "nullFree (s\<lparr>postedCalls := q\<rparr>) = nullFree s" "nullFree (s\<lparr>m_vpnConfiguration := config\<rparr>) = nullFree s"
  "nullFree (s\<lparr>m_connectedRecoveryAttempts := n\<rparr>) = nullFree s" "nullFree (s\<lparr>m_noTrafficRecoveryAttempted := b\<rparr>) = nullFree s"
  "nullFree (s\<lparr>connectedRecoveryTimer := b\<rparr>) = nullFree s" "nullFree (s\<lparr>connectingTimer := b\<rparr>) = nullFree s"
  "nullFree (s\<lparr>pendingNetworkDeadlineTimer := b\<rparr>) = nullFree s" "nullFree (s\<lparr>m_appSettingsRepository := st\<rparr>) = nullFree s"
  "nullFree (setRepositories repo sett s) = nullFree s" "nullFree (disconnectSlots s) = nullFree s"
  by (simp_all add: nullFree_def setRepositories_def disconnectSlots_def dropSlots_def)

lemma nullFree_withInterface [null_simps]:
  "(\<And>s. nullFree (f s) = nullFree s) \<Longrightarrow> nullFree (withInterface env f s) = nullFree s"
  by (simp add: withInterface_def)

lemma nullFree_routes [null_simps]:
  "nullFree (syncAlwaysBlockedSites env s) = nullFree s"
  "nullFree (configureDnsSplitTunnel env gw mode s) = nullFree s"
  "nullFree (addSplitTunnelRoutes env gw mode ips s) = nullFree s"
  by (simp_all add: syncAlwaysBlockedSites_def configureDnsSplitTunnel_def addSplitTunnelRoutes_def Let_def split_beta
      null_simps split: option.split)

lemma nullFree_addSitesRoutes [null_simps]: "nullFree (addSitesRoutes env gw mode s) = nullFree s"
  by (simp add: addSitesRoutes_def null_simps split: option.split)

lemma nullFree_siteRoutesAt [null_simps]: "nullFree (siteRoutesAt env gw mode s) = nullFree s"
  by (simp add: siteRoutesAt_def null_simps)

lemma nullFree_refresh [null_simps]: "nullFree (refreshSiteSplitTunnelRoutes env s) = nullFree s"
  by (simp add: refreshSiteSplitTunnelRoutes_def Let_def null_simps split: option.split)

lemma nullFree_closing [null_simps]:
  "nullFree (onKillSwitchModeChanged env enabled s) = nullFree s" "nullFree (disconnectedRoutes env s) = nullFree s"
  "nullFree (checkConnectedHealth env s) = nullFree s"
  by (simp_all add: onKillSwitchModeChanged_def disconnectedRoutes_def checkConnectedHealth_def Let_def null_simps)

lemma nullFree_onConnectionStateChanged:
  "state \<noteq> Connected \<Longrightarrow> nullFree (onConnectionStateChanged env state s) = nullFree s"
  by (simp add: onConnectionStateChanged_def Let_def null_simps split: option.split)

lemma nullFree_changeState: "state \<noteq> Connected \<Longrightarrow> nullFree (changeState env state s) = nullFree s"
  by (simp add: changeState_def Let_def null_simps nullFree_onConnectionStateChanged)

lemma nullFree_recover [null_simps]: "nullFree (snd (recoverConnectedTunnel h err s)) = nullFree s"
  by (simp add: recoverConnectedTunnel_def Let_def null_simps)

lemma nullFree_silentFailure [null_simps]: "nullFree (snd (handleSilentReconnectFailure env h err s)) = nullFree s"
  using nullFree_recover [of h err]
  by (simp add: handleSilentReconnectFailure_def Let_def split_beta null_simps nullFree_changeState
      split: prod.split bool.split option.split)

lemma nullFree_setConnectionState: "state \<noteq> Connected \<Longrightarrow> nullFree (setConnectionState env state s) = nullFree s"
  by (simp add: setConnectionState_def nullFree_changeState null_simps)

lemma nullFree_startFailed [null_simps]: "nullFree (startFailed env err h s) = nullFree s"
  by (simp add: startFailed_def null_simps nullFree_setConnectionState)

lemma nullFree_deliver: "sig \<noteq> StateSignal Connected \<Longrightarrow> nullFree (deliver env sig s) = nullFree s"
  by (cases sig) (simp_all add: null_simps nullFree_setConnectionState onProtocolError_def Let_def)

lemma nullFree_signalled: "signalled r s \<Longrightarrow> m_vpnProtocol r \<noteq> None \<Longrightarrow> nullFree r \<Longrightarrow> nullFree s"
  by (metis signalled_facts(9))

lemma nullFree_loosely: "loosely r s \<Longrightarrow> m_vpnProtocol r \<noteq> None \<Longrightarrow> nullFree r \<Longrightarrow> nullFree s"
  by (metis loosely_facts(9))

text \<open>A protocol that the user disconnects while it is being started does not report later in that start that it is
  connected.\<close>

fun stopsForGood :: "startEvent list \<Rightarrow> bool" where
  "stopsForGood [] = True"
| "stopsForGood (UserDisconnects # es) = (Emits (StateSignal Connected) \<notin> set es)"
| "stopsForGood (Emits sig # es) = stopsForGood es"

definition goodEnv :: "vcEnv \<Rightarrow> bool" where
  "goodEnv env \<longleftrightarrow> (\<forall>l. stopsForGood (fst (startResult env l)))"

lemma nullFree_disconnectFromVpn:
  assumes "nullFree s"
  shows "nullFree (disconnectFromVpn env s)"
proof (cases "m_vpnProtocol s")
  case None
  then show ?thesis using assms
    by (simp add: disconnectFromVpn_eq Let_def released_fields null_simps nullFree_changeState)
next
  case (Some p)
  define v where "v = changeState env Disconnecting (released env s)"
  have v: "signalled (released env s) v" by (simp add: v_def signalled_intros)
  have "signalled v (stopProtocol env v)"
    using v Some by (simp add: signalled_facts signalled_intros released_fields)
  then have "nullFree (stopProtocol env v)"
    using assms v Some by (simp add: nullFree_signalled signalled_facts released_fields null_simps)
  then show ?thesis
    using Some by (simp add: disconnectFromVpn_eq Let_def released_fields v_def [symmetric] null_simps nullFree_setConnectionState)
qed

lemma nullFree_startEvents:
  "Emits (StateSignal Connected) \<notin> set es \<Longrightarrow> nullFree s \<Longrightarrow> nullFree (fold (startStep env) es s)"
proof (induction es arbitrary: s)
  case (Cons e es)
  then have "nullFree (startStep env e s)"
    by (cases e) (auto simp: nullFree_deliver nullFree_disconnectFromVpn)
  then show ?case using Cons by simp
qed simp

lemma protocol_updates [simp]:
  "m_vpnProtocol (act a s) = m_vpnProtocol s" "m_vpnProtocol (createProtocolConnections s) = m_vpnProtocol s"
  "m_vpnProtocol (startConnectingWatchdog s) = m_vpnProtocol s" "m_vpnProtocol (markLastError e s) = m_vpnProtocol s"
  by (simp_all add: markLastError_def act_def createProtocolConnections_def startConnectingWatchdog_def)

lemma nullFree_start:
  assumes "goodEnv env" "m_vpnProtocol s \<noteq> None" "nullFree s"
  shows "nullFree (snd (startProtocol env p s))"
proof -
  have "nullFree (fold (startStep env) es t)" if "stopsForGood es" "m_vpnProtocol t \<noteq> None" "nullFree t" for es t
    using that
  proof (induction es arbitrary: t)
    case (Cons e es)
    show ?case
    proof (cases e)
      case (Emits sig)
      have d: "signalled t (deliver env sig t)" by (simp add: signalled_intros)
      then show ?thesis
        using Cons.IH [of "deliver env sig t"] Cons.prems Emits nullFree_signalled [OF d] by (simp add: signalled_facts)
    next
      case UserDisconnects
      then show ?thesis using Cons.prems nullFree_startEvents nullFree_disconnectFromVpn by simp
    qed
  qed simp
  moreover have "stopsForGood (fst (startResult env l))" for l using assms(1) by (simp add: goodEnv_def)
  ultimately show ?thesis using assms(2,3) by (simp add: startProtocol_def Let_def split_beta null_simps)
qed

lemma nullFree_startConfiguredConnection:
  assumes "goodEnv env" "nullFree s"
  shows "nullFree (startConfiguredConnection env s)"
  using assms nullFree_start [OF assms(1), of "createProtocolConnections (createProtocol (startConnectingWatchdog (stopPendingNetworkAction s)))"]
  by (auto simp: startConfiguredConnection_def Let_def split_beta null_simps nullFree_setConnectionState
      split: option.split)

lemma nullFree_silentOutcome: "nullFree (snd v) \<Longrightarrow> nullFree (silentOutcome env p v)"
  by (simp add: silentOutcome_def split_beta null_simps)

lemma nullFree_startSilentReconnect:
  assumes "goodEnv env" "nullFree s" "m_vpnProtocol s \<noteq> None"
  shows "nullFree (startSilentReconnect env s)"
proof (cases "m_silentReconnectInProgress s")
  case True
  then show ?thesis using assms(2) by (simp add: startSilentReconnect_def)
next
  case False
  obtain old where old: "m_vpnProtocol s = Some old" using assms(3) by auto
  obtain ready t where t: "physicalNetworkReady env s = (ready, t)" by fastforce
  have "nullFree t" using assms(2) t nullFree_updates(21) [of env s] by simp
  then show ?thesis
    using nullFree_start [OF assms(1), of "startConnectingWatchdog (createProtocolConnections (createProtocol (tornDown old t)))"]
    by (auto simp: startSilentReconnect_eq [OF old False t] Let_def null_simps
        intro!: nullFree_silentOutcome split: option.split)
qed

lemma nullFree_reconnectToVpn:
  assumes "goodEnv env" "nullFree s"
  shows "nullFree (reconnectToVpn env s)"
proof -
  obtain ready t where t: "physicalNetworkReady env s = (ready, t)" by fastforce
  have "nullFree t" using assms(2) t nullFree_updates(21) [of env s] by simp
  moreover have "m_vpnProtocol t = m_vpnProtocol s"
    using keeps_fields(3) [OF keeps_physicalNetworkReady [OF keeps_refl], of env s] t by simp
  ultimately show ?thesis
    using assms t by (auto simp: reconnectToVpn_def deferUntilPhysicalNetworkReady_eq Let_def null_simps
        intro!: nullFree_startSilentReconnect)
qed

lemma nullFree_resume:
  assumes "goodEnv env" "nullFree s" "safe s"
  shows "nullFree (resumePendingNetworkAction env s)"
proof -
  obtain ready t where t: "physicalNetworkReady env s = (ready, t)" by fastforce
  have n: "nullFree t" using assms(2) t nullFree_updates(21) [of env s] by simp
  have "keeps s t" using keeps_physicalNetworkReady [OF keeps_refl, of s env] t by simp
  then have "safe t" using safe_keeps assms(3) by blast
  then have "m_vpnProtocol (stopPendingNetworkAction t) \<noteq> None" if "m_pendingNetworkAction t = StartSilentReconnect"
    using that by (simp add: safe_def safeBut_def stopPendingNetworkAction_def)
  with n show ?thesis
    using assms(1,2) t by (auto simp: resumePendingNetworkAction_def Let_def null_simps intro!: nullFree_startSilentReconnect
        nullFree_reconnectToVpn nullFree_startConfiguredConnection split: pendingAction.split bool.split)
qed

lemma nullFree_onConnectingTimedOut:
  assumes "nullFree s"
  shows "nullFree (onConnectingTimedOut env s)"
proof -
  have "nullFree (timedOut env s)"
  proof (cases "m_vpnProtocol s")
    case None
    then show ?thesis using assms
      by (simp add: timedOut_def Let_def null_simps nullFree_setConnectionState)
  next
    case (Some p)
    then show ?thesis using assms nullFree_loosely [OF loosely_timedOut] by simp
  qed
  then show ?thesis using assms by (simp add: onConnectingTimedOut_eq null_simps)
qed

lemma nullFree_connectToVpn:
  assumes "goodEnv env" "nullFree s" "safe s"
  shows "nullFree (connectToVpn env serverId container vpnConfiguration s)"
proof -
  define t where "t = connectRequested env serverId container vpnConfiguration s"
  note f = requested_fields [OF assms(3), where env = env and serverId = serverId and container = container
      and config = vpnConfiguration, folded t_def]
  have t: "nullFree t" using assms(2)
    by (simp add: t_def connectRequested_def Let_def setConnectionState_def null_simps nullFree_changeState)
      (simp add: nullFree_def markLastError_def stopConnectedRecovery_def stopPendingNetworkAction_def)
  have "nullFree (launch env v)" if "nullFree v" "safe v" "m_pendingNetworkAction v = NoAction" "acceptedAfter (vcLog v)" for v
    using that discard_fields [of v env] nullFree_startConfiguredConnection [OF assms(1)] nullFree_updates(21) [of env "discardProtocol env v"]
    by (simp add: launch_def split_beta null_simps)
  moreover have "nullFree (snd v)" "safe (snd v)" "m_pendingNetworkAction (snd v) = NoAction" "fst v \<Longrightarrow> acceptedAfter (vcLog (snd v))"
    if "v = protectConnection env b (qinsert k x config) (t\<lparr>m_vpnConfiguration := config\<rparr>)" for b k x config v
  proof -
    have "safe (t\<lparr>m_vpnConfiguration := config\<rparr>)" using f(1) by (simp add: safe_def safeBut_def connectInv_def healthInv_def)
    moreover obtain ok w where w: "protectConnection env b (qinsert k x config) (t\<lparr>m_vpnConfiguration := config\<rparr>) = (ok, w)"
      by fastforce
    ultimately show "nullFree (snd v)" "safe (snd v)" "m_pendingNetworkAction (snd v) = NoAction"
        "fst v \<Longrightarrow> acceptedAfter (vcLog (snd v))"
      using protectConnection_fields [OF qinsert_neq_Nil w] t f(2) by (simp_all add: that w null_simps)
  qed
  ultimately show ?thesis
    using t assms(2) by (auto simp: connectToVpn_eq t_def [symmetric] Let_def split_beta null_simps nullFree_setConnectionState
        split: option.split)
qed

lemma nullFree_observes:
  assumes "observes e" "nullFree s"
  shows "nullFree (vcStep env e s)"
proof (cases "m_vpnProtocol s")
  case None
  then show ?thesis using assms
    by (cases e) (auto simp: null_simps nullFree_setConnectionState onConnectivityProbeFailed_def onDnsHealthAnswer_def Let_def
        useProtocol_def split: posted.split)
next
  case (Some p)
  then show ?thesis using nullFree_signalled [OF signalled_observes [OF assms(1)]] assms(2) by simp
qed

lemma nullFree_vcStep:
  assumes "goodEnv env" "safe s" "nullFree s"
  shows "nullFree (vcStep env e s)"
proof (cases "observes e")
  case True
  then show ?thesis using nullFree_observes assms(3) by blast
next
  case False
  have "nullFree (onConnectivityProbeSucceeded t) = nullFree t" for t
    by (simp add: onConnectivityProbeSucceeded_def Let_def null_simps)
  with False show ?thesis
    using assms by (cases e) (simp_all add: Let_def null_simps nullFree_connectToVpn nullFree_disconnectFromVpn
        nullFree_reconnectToVpn nullFree_resume nullFree_onConnectingTimedOut nullFree_startSilentReconnect)
qed

text \<open>C14. As long as a protocol that is disconnected during its start does not report afterwards that it is connected,
  no run of the connection ever uses a null protocol: not when routes are set for a connected tunnel, not when a
  tunnel is restarted after a timer or after the network came back.\<close>

theorem null_protocol_never_used:
  assumes "\<forall>(env, e) \<in> set es. goodEnv env"
  shows "NullProtocol \<notin> set (vcFaults (vcRun es (vcState0 repo st)))"
proof -
  have "safe (vcRun es (vcState0 repo st)) \<and> nullFree (vcRun es (vcState0 repo st))"
    by (rule run_invariant)
      (use assms in \<open>auto simp: safe_vcState0 safe_vcStep intro!: nullFree_vcStep, simp add: nullFree_def vcState0_def\<close>)
  then show ?thesis by (simp add: nullFree_def)
qed

text \<open>C5. Every start of a tunnel in a run, the first one and every automatic restart, follows a request in which the client
  sent the configuration of a connection to the service, the service accepted it, and no disconnect was reported to the
  service since. If the kill switch is on in all the settings of the run, that request is one for protection, and no
  request since then released the protection. (With the kill switch off the client sends the same request to release the
  protection, and still waits until it is accepted. A later request that the service did not accept leaves an old tunnel
  under the last accepted one.)\<close>

theorem tunnel_start_protected:
  assumes "vcLog (vcRun es (vcState0 repo st)) = before @ ProtocolStart p # after"
  shows "\<exists>earlier enabled config reply later.
    before = earlier @ Called (SetConnectionProtection enabled config) reply # later \<and> replyOk reply \<and>
    (enabled \<or> config \<noteq> []) \<and> list_all (\<lambda>a. \<not> givesUp a) later \<and>
    ((\<forall>x. st = Some x \<longrightarrow> isKillSwitchEnabled x) \<and> list_all (\<lambda>(env, e). switchOn e) es \<longrightarrow>
       enabled \<and> list_all (\<lambda>a. \<not> releases a) later)"
proof -
  let ?s = "vcRun es (vcState0 repo st)"
  have "acceptedAfter before"
    using safe_vcRun [of es repo st] assms startsAccepted_iff by (fastforce simp: safe_def safeBut_def)
  then obtain earlier enabled config reply later where 1:
    "before = earlier @ Called (SetConnectionProtection enabled config) reply # later" "replyOk reply"
    "enabled \<or> config \<noteq> []" "list_all (\<lambda>a. \<not> givesUp a) later"
    unfolding accepted_request by blast
  have "enabled \<and> list_all (\<lambda>a. \<not> releases a) later"
    if on: "\<forall>x. st = Some x \<longrightarrow> isKillSwitchEnabled x" "list_all (\<lambda>(env, e). switchOn e) es"
  proof -
    have "safe ?s \<and> onlyProtected ?s"
      by (rule run_invariant)
        (use on in \<open>auto simp: safe_vcState0 safe_vcStep onlyProtected_vcStep list_all_iff, simp add: onlyProtected_def vcState0_def\<close>)
    then have "list_all (\<lambda>a. \<not> unprotected a) (earlier @ Called (SetConnectionProtection enabled config) reply # later)"
      using assms 1(1) by (simp add: onlyProtected_def)
    then show ?thesis using 1(3,4) by (auto simp: list_all_iff unprotected_def)
  qed
  with 1 show ?thesis by blast
qed

text \<open>A connection in the error state always shows a problem, a disconnected one shows nothing or the problem that ended it.\<close>

theorem health_fits_state:
  "case m_connectionState (vcRun es (vcState0 repo st)) of
     ErrorState \<Rightarrow> connectionHealthProblem (m_connectionHealth (vcRun es (vcState0 repo st)))
   | Disconnected \<Rightarrow> m_connectionHealth (vcRun es (vcState0 repo st)) = Idle \<or>
       connectionHealthProblem (m_connectionHealth (vcRun es (vcState0 repo st)))
   | _ \<Rightarrow> True"
  using safe_vcRun [of es repo st] by (simp add: safe_def safeBut_def healthInv_def split: connState.split)

text \<open>C15. A connection that is being set up never hangs: its watchdog runs, or it waits for the physical network under a
  deadline, and when that timer fires the attempt ends in the error state, whatever the protocol signals while it is
  being stopped.\<close>

theorem connecting_is_watched:
  assumes "m_connectionState (vcRun es (vcState0 repo st)) = Connecting"
  shows "\<exists>timeout \<in> {ConnectingTimeout, PendingDeadline}.
    (timeout = ConnectingTimeout \<longrightarrow> connectingTimer (vcRun es (vcState0 repo st))) \<and>
    (timeout = PendingDeadline \<longrightarrow> pendingNetworkDeadlineTimer (vcRun es (vcState0 repo st))) \<and>
    (\<forall>env. m_connectionState (vcStep env timeout (vcRun es (vcState0 repo st))) = ErrorState)"
proof -
  let ?s = "vcRun es (vcState0 repo st)"
  have "connectingTimer ?s \<or> (m_pendingNetworkAction ?s = StartConnection \<and> pendingNetworkDeadlineTimer ?s)"
    using safe_vcRun [of es repo st] assms by (simp add: safe_def connectInv_def)
  then show ?thesis
    using assms by (auto simp: onConnectingTimedOut_eq stopPendingNetworkAction_def Let_def)
qed

section \<open>How often a tunnel is restarted\<close>

definition effort :: "vcState \<Rightarrow> nat" where
  "effort s = startCount (vcLog s) + retriesLeft s"

lemma effort_loosely: "loosely r s \<Longrightarrow> effort s \<le> effort r"
  using extends_facts(3) [OF loosely_facts(7), of r s] loosely_facts(6) [of r s] by (simp add: effort_def)

lemma effort_signalled: "signalled r s \<Longrightarrow> effort s \<le> effort r"
  by (simp add: signalled_def effort_loosely)

lemma effort_ended: "ended r s \<Longrightarrow> effort s = startCount (vcLog r)"
  by (simp add: ended_def effort_def noStarts_count retriesLeft_def)

lemma effort_started: "started r s \<Longrightarrow> effort s \<le> effort r"
  unfolding started_def using effort_signalled effort_ended by (auto simp: effort_def)

lemma effort_act: "effort (act (ProtocolStart p) s) = effort s + 1"
  by (simp add: effort_def startCount_def) (simp add: act_def retriesLeft_def)

lemma effort_start: "effort (snd (startProtocol env p s)) \<le> effort s + 1"
  using effort_started [OF started_startProtocol, of env p s] by (simp add: effort_act)

lemma pending_started: "started r s \<Longrightarrow> m_pendingNetworkAction r = NoAction \<Longrightarrow> m_pendingNetworkAction s = NoAction"
  unfolding started_def using signalled_facts(2) by (auto simp: ended_def)

lemma effort_startSilentReconnect:
  assumes "m_vpnProtocol s \<noteq> None" "\<not> m_silentReconnectInProgress s"
  shows "effort (startSilentReconnect env s) \<le> startCount (vcLog s) + (3 - m_connectedRecoveryAttempts s) + 1"
    and "m_pendingNetworkAction (startSilentReconnect env s) \<in> {StartSilentReconnect, NoAction}"
proof -
  obtain old where old: "m_vpnProtocol s = Some old" using assms(1) by auto
  obtain ready t where t: "physicalNetworkReady env s = (ready, t)" by fastforce
  have k: "keeps s t" using keeps_physicalNetworkReady [OF keeps_refl, of s env] t by simp
  have c: "startCount (vcLog t) = startCount (vcLog s)" "m_connectedRecoveryAttempts t = m_connectedRecoveryAttempts s"
    using extends_facts(3) k keeps_fields [OF k] by (auto simp: keeps_def)
  let ?u = "createProtocol (tornDown old t)"
  have u: "effort ?u \<le> startCount (vcLog s) + (3 - m_connectedRecoveryAttempts s)" "m_pendingNetworkAction ?u = NoAction"
    using c tornDown_fields [where old = old and s = t] extends_facts(3) [OF tornDown_fields(6) [where old = old and s = t]]
    by (auto simp: effort_def retriesLeft_def createProtocol_def dropSlots_def kMaxConnectedRecoveryAttempts_def)
  let ?f = "startFailed env InternalError ProtocolStartFailed (?u\<lparr>m_silentReconnectInProgress := False\<rparr>)"
  have f: "signalled ?u ?f" by (simp add: signalled_intros)
  let ?v = "startConnectingWatchdog (createProtocolConnections ?u)"
  have v: "effort ?v = effort ?u" "m_pendingNetworkAction ?v = m_pendingNetworkAction ?u"
    by (simp_all add: effort_def retriesLeft_def startConnectingWatchdog_def createProtocolConnections_def)
  have o: "effort (silentOutcome env p (startProtocol env p ?v)) \<le> effort ?u + 1"
    "m_pendingNetworkAction (silentOutcome env p (startProtocol env p ?v)) = NoAction" for p
    using effort_signalled [OF signalled_silentOutcome, of env p "startProtocol env p ?v"] effort_start [of env p ?v] v
      signalled_facts(2) [OF signalled_silentOutcome, of env p "startProtocol env p ?v"]
      pending_started [OF started_startProtocol, of p ?v env] u(2) by (simp_all add: act_def)
  have d: "effort (deferred StartSilentReconnect Recovering t) \<le> startCount (vcLog s) + (3 - m_connectedRecoveryAttempts s) + 1"
    using c deferred_fields [where s = t and action = StartSilentReconnect and h = Recovering]
      extends_facts(3) [OF deferred_fields(7) [where s = t and action = StartSilentReconnect and h = Recovering]]
    by (simp add: effort_def retriesLeft_def kMaxConnectedRecoveryAttempts_def)
  show "effort (startSilentReconnect env s) \<le> startCount (vcLog s) + (3 - m_connectedRecoveryAttempts s) + 1"
    using d u(1) effort_signalled [OF f] o(1) order_trans
    by (fastforce simp: startSilentReconnect_eq [OF old assms(2) t] Let_def split: option.split)
  show "m_pendingNetworkAction (startSilentReconnect env s) \<in> {StartSilentReconnect, NoAction}"
    using signalled_facts(2) [OF f] o(2) u(2)
    by (simp add: startSilentReconnect_eq [OF old assms(2) t] Let_def deferred_fields split: option.split)
qed

text \<open>The events after which the connection may be started anew or counts its attempts from the beginning.\<close>

fun renews :: "vcEvent \<Rightarrow> bool" where
  "renews (Connect serverId container config) = True"
| "renews ReconnectRequested = True"
| "renews (ProbeConnected ms) = True"
| "renews _ = False"

definition settled :: "vcState \<Rightarrow> bool" where
  "settled s \<longleftrightarrow> m_pendingNetworkAction s \<in> {NoAction, StartSilentReconnect}"

lemma settled_resume:
  assumes "safe s" "settled s"
  shows "effort (resumePendingNetworkAction env s) \<le> effort s \<and> settled (resumePendingNetworkAction env s)"
proof -
  obtain ready t where t: "physicalNetworkReady env s = (ready, t)" by fastforce
  have k: "keeps s t" using keeps_physicalNetworkReady [OF keeps_refl, of s env] t by simp
  have st: "safe t" "settled t" "effort t \<le> effort s"
    using safe_keeps [OF assms(1) k] assms(2) keeps_fields [OF k] effort_signalled [OF keeps_signalled [OF k]]
    by (simp_all add: settled_def)
  let ?u = "stopPendingNetworkAction t"
  have u: "effort ?u \<le> effort t" "settled ?u"
    by (simp_all add: effort_def retriesLeft_def settled_def stopPendingNetworkAction_def)
  have "effort (startSilentReconnect env ?u) \<le> effort t \<and> settled (startSilentReconnect env ?u)"
    if p: "m_pendingNetworkAction t = StartSilentReconnect"
  proof (cases "m_silentReconnectInProgress t")
    case True
    then have "startSilentReconnect env ?u = ?u" by (simp add: startSilentReconnect_def stopPendingNetworkAction_def)
    then show ?thesis using u by simp
  next
    case False
    have "m_vpnProtocol ?u \<noteq> None" "\<not> m_silentReconnectInProgress ?u"
      using False st(1) p by (simp_all add: safe_def safeBut_def stopPendingNetworkAction_def)
    from effort_startSilentReconnect [OF this, of env] show ?thesis
      using p st(1) by (auto simp: effort_def retriesLeft_def settled_def stopPendingNetworkAction_def
          kMaxConnectedRecoveryAttempts_def safe_def safeBut_def)
  qed
  with u st assms t show ?thesis
    by (auto simp: resumePendingNetworkAction_def Let_def settled_def split: bool.split)
qed

lemma effort_vcStep:
  assumes "safe s" "settled s" "\<not> renews e"
  shows "effort (vcStep env e s) \<le> effort s \<and> settled (vcStep env e s)"
proof (cases "observes e")
  case True
  then show ?thesis using effort_signalled [OF signalled_observes] signalled_facts(2) [OF signalled_observes] assms(2)
    by (simp add: settled_def)
next
  case False
  have timeout: "effort (onConnectingTimedOut env t) \<le> effort t \<and> settled (onConnectingTimedOut env t)" if "settled t" for t
    using that effort_loosely [OF loosely_timedOut] effort_loosely [OF handleSilentReconnectFailure_loosely]
      loosely_facts(2) [OF loosely_timedOut] loosely_facts(2) [OF handleSilentReconnectFailure_loosely]
    by (simp add: onConnectingTimedOut_eq settled_def)
  have noop: "effort (s\<lparr>connectingTimer := b\<rparr>) = effort s" "effort (s\<lparr>pendingNetworkDeadlineTimer := b\<rparr>) = effort s"
    "effort (s\<lparr>m_appSettingsRepository := st\<rparr>) = effort s" "settled (s\<lparr>connectingTimer := b\<rparr>)"
    "settled (s\<lparr>pendingNetworkDeadlineTimer := b\<rparr>)" "settled (s\<lparr>m_appSettingsRepository := st\<rparr>)"
    "effort (setRepositories repo sett s) = effort s" "settled (setRepositories repo sett s)" for b st repo sett
    using assms(2) by (simp_all add: effort_def retriesLeft_def settled_def setRepositories_def)
  show ?thesis
  proof (cases e)
    case RecoveryTimeout
    have "effort (s\<lparr>connectedRecoveryTimer := False\<rparr>) \<le> effort s" "settled (s\<lparr>connectedRecoveryTimer := False\<rparr>)"
      using assms(2) by (simp_all add: effort_def retriesLeft_def settled_def)
    then show ?thesis
      using RecoveryTimeout assms effort_startSilentReconnect [of "s\<lparr>connectedRecoveryTimer := False\<rparr>" env]
      by (auto simp: Let_def settled_def effort_def retriesLeft_def kMaxConnectedRecoveryAttempts_def split: if_splits)
  next
    case Disconnect
    have "effort (disconnectFromVpn env s) = startCount (vcLog s)" by (rule effort_ended [OF disconnect_ended])
    moreover have "m_pendingNetworkAction (disconnectFromVpn env s) = NoAction" using disconnect_ended [of s env] by (simp add: ended_def)
    ultimately show ?thesis by (simp add: Disconnect settled_def) (simp add: effort_def)
  next
    case PendingDeadline
    then show ?thesis using assms noop by (auto simp: Let_def settled_def)
  next
    case ConnectingTimeout
    then show ?thesis using timeout [OF noop(4)] noop(1) assms(2) by simp
  qed (use False assms noop settled_resume [OF assms(1,2)] in simp_all)
qed

text \<open>The starts so far and those that may follow: a connection or a reconnect that still waits for the network may use up
  all the attempts.\<close>

definition budget :: "vcState \<Rightarrow> nat" where
  "budget s = (if settled s then effort s else startCount (vcLog s) + kMaxConnectedRecoveryAttempts + 1)"

lemma retriesLeft_bound:
  assumes "safe s"
  shows "retriesLeft s \<le> kMaxConnectedRecoveryAttempts - m_connectedRecoveryAttempts s + 1"
  using assms by (simp add: retriesLeft_def safe_def safeBut_def)

lemma budget_le:
  assumes "safe s"
  shows "budget s \<le> startCount (vcLog s) + 4"
  using retriesLeft_bound [OF assms] by (auto simp: budget_def effort_def kMaxConnectedRecoveryAttempts_def)

lemma budget_startConfiguredConnection:
  assumes "m_connectedRecoveryAttempts s \<le> 3" "\<not> connectedRecoveryTimer s"
  shows "budget (startConfiguredConnection env s) \<le> startCount (vcLog s) + 4"
proof -
  let ?u = "configured s" and ?t = "startConfiguredConnection env s"
  have u: "effort ?u \<le> startCount (vcLog s) + 3" "m_pendingNetworkAction ?u = NoAction"
    using assms by (simp_all add: effort_def retriesLeft_def configured_def createProtocol_def dropSlots_def
        startConnectingWatchdog_def stopPendingNetworkAction_def kMaxConnectedRecoveryAttempts_def)
  have "effort ?t \<le> startCount (vcLog s) + 4 \<and> m_pendingNetworkAction ?t = NoAction"
  proof (cases rule: startConfiguredConnection_cases [of s env])
    case 1
    then show ?thesis using u effort_signalled [of ?u ?t] signalled_facts(2) [of ?u ?t] by simp
  next
    case (2 p)
    let ?c = "createProtocolConnections ?u"
    have c: "effort ?c = effort ?u" "m_pendingNetworkAction ?c = m_pendingNetworkAction ?u"
      by (simp_all add: effort_def retriesLeft_def createProtocolConnections_def)
    have "m_pendingNetworkAction (snd (startProtocol env p ?c)) = NoAction"
      using pending_started [OF started_startProtocol, of p ?c env] c(2) u(2) by (simp add: act_def)
    then show ?thesis
      using effort_signalled [OF 2(2)] signalled_facts(2) [OF 2(2)] effort_start [of env p ?c] c(1) u(1) by simp
  qed
  then show ?thesis by (simp add: budget_def settled_def)
qed

lemma budget_reconnectToVpn:
  assumes "safe s" "m_pendingNetworkAction s = NoAction"
  shows "budget (reconnectToVpn env s) \<le> startCount (vcLog s) + 4"
proof -
  obtain ready t where t: "physicalNetworkReady env s = (ready, t)" by fastforce
  have k: "keeps s t" using keeps_physicalNetworkReady [OF keeps_refl, of s env] t by simp
  have c: "startCount (vcLog t) = startCount (vcLog s)" "m_vpnProtocol t = m_vpnProtocol s"
    "m_silentReconnectInProgress t = m_silentReconnectInProgress s"
    using extends_facts(3) k keeps_fields [OF k] by (auto simp: keeps_def)
  have d: "budget (deferred RequestReconnect Recovering t) \<le> startCount (vcLog s) + 4"
    using c deferred_fields [where s = t and action = RequestReconnect and h = Recovering]
      extends_facts(3) [OF deferred_fields(7) [where s = t and action = RequestReconnect and h = Recovering]]
    by (simp add: budget_def settled_def kMaxConnectedRecoveryAttempts_def)
  have "budget (startSilentReconnect env (t\<lparr>m_connectedRecoveryAttempts := 1, m_noTrafficRecoveryAttempted := True\<rparr>))
      \<le> startCount (vcLog s) + 4" if "m_vpnProtocol s \<noteq> None" "\<not> m_silentReconnectInProgress s"
    using effort_startSilentReconnect [of "t\<lparr>m_connectedRecoveryAttempts := 1, m_noTrafficRecoveryAttempted := True\<rparr>" env] that c
    by (auto simp: budget_def settled_def)
  then show ?thesis
    using d t c budget_le [OF assms(1)]
    by (auto simp: reconnectToVpn_def deferUntilPhysicalNetworkReady_eq Let_def kMaxConnectedRecoveryAttempts_def)
qed

text \<open>Resuming what waits for the network.\<close>

lemma budget_resume:
  assumes "safe s"
  shows "budget (resumePendingNetworkAction env s) \<le> startCount (vcLog s) + 4"
proof (cases "settled s")
  case True
  then show ?thesis using settled_resume [OF assms, of env] budget_le [OF assms] by (simp add: budget_def)
next
  case False
  obtain ready t where t: "physicalNetworkReady env s = (ready, t)" by fastforce
  have k: "keeps s t" using keeps_physicalNetworkReady [OF keeps_refl, of s env] t by simp
  have st: "safe t" "startCount (vcLog t) = startCount (vcLog s)" "\<not> settled t"
    using safe_keeps [OF assms k] extends_facts(3) k keeps_fields [OF k] False by (auto simp: keeps_def settled_def)
  let ?u = "stopPendingNetworkAction t"
  have f: "startCount (vcLog ?u) = startCount (vcLog s)" "m_pendingNetworkAction ?u = NoAction"
    "m_connectedRecoveryAttempts ?u \<le> 3" "\<not> connectedRecoveryTimer ?u" "m_connectionState ?u = m_connectionState t"
    using st by (auto simp: stopPendingNetworkAction_def safe_def safeBut_def settled_def)
  have "effort ?u \<le> startCount (vcLog s) + 3"
    using f by (simp add: effort_def retriesLeft_def kMaxConnectedRecoveryAttempts_def)
  then have u: "budget ?u \<le> startCount (vcLog s) + 4" using f(2) by (simp add: budget_def settled_def)
  have "budget (startConfiguredConnection env ?u) \<le> startCount (vcLog s) + 4"
    using budget_startConfiguredConnection [OF f(3,4), of env] f(1) by simp
  moreover have "budget (reconnectToVpn env ?u) \<le> startCount (vcLog s) + 4"
    if "m_pendingNetworkAction t = RequestReconnect" "m_connectionState t = Connected"
  proof -
    have "safe ?u" using st(1) that safeBut_stopPending by (simp add: safe_def connectInv_def f)
    then show ?thesis using budget_reconnectToVpn [of ?u env] f(1,2) by simp
  qed
  ultimately show ?thesis
    using u t st budget_le [OF st(1)] budget_le [OF assms] False f(5)
    by (auto simp: resumePendingNetworkAction_def Let_def settled_def split: pendingAction.split bool.split)
qed

lemma budget_quiet:
  assumes "startCount (vcLog t) = startCount (vcLog s)" "safe t" "\<not> settled s"
  shows "budget t \<le> budget s"
  using budget_le [OF assms(2)] assms(1,3) by (simp add: budget_def [of s] kMaxConnectedRecoveryAttempts_def)

lemma budget_vcStep:
  assumes "safe s" "\<not> renews e"
  shows "budget (vcStep env e s) \<le> budget s"
proof (cases "settled s")
  case True
  then show ?thesis using effort_vcStep [OF assms(1) True assms(2), of env] by (simp add: budget_def)
next
  case unsettled: False
  then have top: "budget s = startCount (vcLog s) + 4" by (simp add: budget_def kMaxConnectedRecoveryAttempts_def)
  have quiet: "budget (vcStep env e s) \<le> budget s" if "startCount (vcLog (vcStep env e s)) = startCount (vcLog s)"
    using budget_quiet [OF that safe_vcStep [OF assms(1)] unsettled] .
  have loose: "startCount (vcLog t) = startCount (vcLog r)" if "loosely r t" for r t
    using extends_facts(3) [OF loosely_facts(7) [OF that]] .
  have timeout: "startCount (vcLog (onConnectingTimedOut env t)) = startCount (vcLog t)" for t
    using loose [OF loosely_timedOut] loose [OF handleSilentReconnectFailure_loosely] by (simp add: onConnectingTimedOut_eq)
  show ?thesis
  proof (cases "observes e")
    case True
    then show ?thesis using quiet loose signalled_observes [of e s env] by (simp add: signalled_def)
  next
    case False
    have idle: "\<not> connectedRecoveryTimer s" using unsettled assms(1) by (auto simp: settled_def safe_def safeBut_def)
    show ?thesis
    proof (cases e)
      case Disconnect
      then show ?thesis using quiet disconnect_ended [of s env] by (simp add: ended_def noStarts_count)
    next
      case PendingDeadline
      have "vcLog (stopPendingNetworkAction t) = vcLog t" for t by (simp add: stopPendingNetworkAction_def)
      then show ?thesis using quiet PendingDeadline by (simp add: timeout Let_def)
    qed (use False assms idle quiet top budget_resume [OF assms(1)] in \<open>simp_all add: timeout setRepositories_def\<close>)
  qed
qed

text \<open>C7. Automatic recovery is bounded: after any run, as long as nobody asks for a connection, the service reports no changed
  network and no wake-up, and no connectivity probe gets through, the tunnel is started at most once more than the
  recovery attempts that are left (three of them after a probe that got through). If a new connection or a requested
  reconnect still waits for the physical network, all three attempts count as left. This holds whatever timers fire, and
  whatever the protocols signal and the service answers.\<close>

theorem recovery_is_bounded:
  fixes es fs repo st
  defines "s \<equiv> vcRun es (vcState0 repo st)"
  assumes "\<forall>(env, e) \<in> set fs. \<not> renews e"
  shows "startCount (vcLog (vcRun fs s)) \<le> startCount (vcLog s) +
    (if m_pendingNetworkAction s \<in> {StartConnection, RequestReconnect} then kMaxConnectedRecoveryAttempts
     else kMaxConnectedRecoveryAttempts - m_connectedRecoveryAttempts s) + 1"
proof -
  have safe: "safe s" by (simp add: s_def safe_vcRun)
  have "safe (vcRun fs s) \<and> budget (vcRun fs s) \<le> budget s"
  proof (rule run_invariant)
    fix env e t assume "(env, e) \<in> set fs" "safe t \<and> budget t \<le> budget s"
    then show "safe (vcStep env e t) \<and> budget (vcStep env e t) \<le> budget s"
      using budget_vcStep [of t e env] safe_vcStep assms(2) by fastforce
  qed (simp add: safe)
  moreover have "startCount (vcLog (vcRun fs s)) \<le> budget (vcRun fs s)" by (simp add: budget_def effort_def)
  moreover have "settled s \<longleftrightarrow> m_pendingNetworkAction s \<notin> {StartConnection, RequestReconnect}"
    by (cases "m_pendingNetworkAction s") (simp_all add: settled_def)
  ultimately show ?thesis using retriesLeft_bound [OF safe] by (auto simp: budget_def effort_def)
qed

section \<open>After a disconnect\<close>

definition isDown :: "vcState \<Rightarrow> bool" where
  "isDown s \<longleftrightarrow> m_vpnProtocol s = None \<and> m_pendingNetworkAction s = NoAction"

fun isConnect :: "vcEvent \<Rightarrow> bool" where
  "isConnect (Connect serverId container config) = True"
| "isConnect _ = False"

lemma down_loosely: "loosely r s \<Longrightarrow> isDown r \<Longrightarrow> isDown s \<and> noStarts (vcLog r) (vcLog s)"
  using loosely_facts [of r s] by (simp add: isDown_def extends_noStarts)

lemma down_vcStep:
  assumes "isDown s" "\<not> isConnect e"
  shows "isDown (vcStep env e s) \<and> noStarts (vcLog s) (vcLog (vcStep env e s))"
proof (cases "observes e")
  case True
  then have "loosely s (vcStep env e s)" using signalled_observes [of e s env] by (simp add: signalled_def)
  then show ?thesis using down_loosely assms(1) by blast
next
  case False
  have d: "m_vpnProtocol s = None" "m_pendingNetworkAction s = NoAction" using assms(1) by (simp_all add: isDown_def)
  have timeout: "isDown (onConnectingTimedOut env t) \<and> noStarts (vcLog t) (vcLog (onConnectingTimedOut env t))" if "isDown t" for t
    using that down_loosely [OF loosely_timedOut] down_loosely [OF handleSilentReconnectFailure_loosely]
    by (simp add: onConnectingTimedOut_eq)
  show ?thesis
  proof (cases e)
    case Disconnect
    then show ?thesis using disconnect_ended [of s env] by (simp add: ended_def isDown_def)
  next
    case ConnectingTimeout
    then show ?thesis using timeout [of "s\<lparr>connectingTimer := False\<rparr>"] assms(1) by (simp add: isDown_def)
  next
    case (ProbeConnected ms)
    let ?t = "stopConnectivityProbe (recordConnectivityProbe ms s)"
    have t: "m_vpnProtocol ?t = None" "m_pendingNetworkAction ?t = NoAction" "vcLog ?t = vcLog s"
      using d by (simp_all add: stopConnectivityProbe_def recordConnectivityProbe_def Let_def)
    then show ?thesis
      using ProbeConnected assms(1) by (auto simp: onConnectivityProbeSucceeded_def Let_def markLastError_def setConnectionHealth_def
          act_def isDown_def noStarts_def)
  qed (use False assms d in \<open>simp_all add: isDown_def reconnectToVpn_def resumePendingNetworkAction_def Let_def
      setRepositories_def\<close>)
qed

text \<open>C8. Once the user has disconnected, the tunnel stays down: until the next request to connect no event starts a protocol,
  be it a timer that was still running, a late signal, a probe, the end of a wait for the network or a report by the
  service that the network changed.\<close>

theorem disconnected_stays_down:
  assumes "\<forall>(env, e) \<in> set fs. \<not> isConnect e"
  shows "m_vpnProtocol (vcRun fs (vcStep env Disconnect s)) = None \<and>
    startCount (vcLog (vcRun fs (vcStep env Disconnect s))) = startCount (vcLog s)"
proof -
  have "isDown (vcRun fs (vcStep env Disconnect s)) \<and> noStarts (vcLog s) (vcLog (vcRun fs (vcStep env Disconnect s)))"
  proof (rule run_invariant)
    show "isDown (vcStep env Disconnect s) \<and> noStarts (vcLog s) (vcLog (vcStep env Disconnect s))"
      using disconnect_ended [of s env] by (simp add: ended_def isDown_def)
    fix env e t assume "(env, e) \<in> set fs" "isDown t \<and> noStarts (vcLog s) (vcLog t)"
    then show "isDown (vcStep env e t) \<and> noStarts (vcLog s) (vcLog (vcStep env e t))"
      using down_vcStep [of t e env] assms noStarts_trans by fastforce
  qed
  then show ?thesis by (simp add: isDown_def noStarts_count)
qed

section \<open>A request to connect and the answer of the service\<close>

text \<open>A request leads to a tunnel, now or when the network is back, only after the service accepted the configuration.\<close>

lemma connect_needs_protection:
  assumes "m_appSettingsRepository s = Some st" and "m_serversRepository s = Some repo"
    and "startCount (vcLog (connectToVpn env serverId container config s)) \<noteq> startCount (vcLog s) \<or>
      m_pendingNetworkAction (connectToVpn env serverId container config s) \<noteq> NoAction"
  obtains cfg l where
    "appendSplitTunnelingConfig (readsIPv4 env) st container (appendKillSwitchConfig st config) = Some cfg"
    "replyOk (ipcReply env l (SetConnectionProtection (isKillSwitchEnabled st)
       (qinsert ''vpnServer'' (JStr (getIPAddress env (jToString (jvalue config ''hostName'')))) cfg)))"
proof -
  define t where "t = connectRequested env serverId container config s"
  note t = requested_values [where env = env and serverId = serverId and container = container and config = config
      and s = s, folded t_def]
  have quiet: "startCount (vcLog t) = startCount (vcLog s)" using t(4) extends_facts(3) by blast
  show thesis
  proof (cases "appendSplitTunnelingConfig (readsIPv4 env) st container (appendKillSwitchConfig st config)")
    case None
    then have "connectToVpn env serverId container config s = raise EmptyRule t"
      using assms(1,2) t by (simp add: connectToVpn_eq t_def [symmetric])
    then show ?thesis using assms(3) quiet t(5) by (simp add: raise_def)
  next
    case (Some cfg)
    let ?req = "qinsert ''vpnServer'' (JStr (getIPAddress env (jToString (jvalue config ''hostName'')))) cfg"
    obtain ok v where v: "protectConnection env (isKillSwitchEnabled st) ?req (t\<lparr>m_vpnConfiguration := cfg\<rparr>) = (ok, v)" by fastforce
    show ?thesis
    proof (cases ok)
      case True
      then show ?thesis
        using v that [OF Some] by (auto simp: protectConnection_def callService_def Let_def split: if_splits)
    next
      case False
      let ?f = "startFailed env AmneziaServiceConnectionFailed LocalServiceUnavailable v"
      have "connectToVpn env serverId container config s = ?f"
        using assms(1,2) Some v t False by (simp add: connectToVpn_eq t_def [symmetric] Let_def)
      moreover have "signalled v ?f" by (simp add: signalled_intros)
      ultimately show ?thesis
        using assms(3) signalled_facts(2) extends_facts(3) [OF signalled_facts(7)] quiet t(5)
          protectConnection_fields(3,5) [OF qinsert_neq_Nil v] noStarts_count by fastforce
    qed
  qed
qed

section \<open>Example runs\<close>

text \<open>A server reached by WireGuard, settings that send everything through the tunnel, a service that accepts
  everything and protocols that connect at once.\<close>

definition exampleServers :: serversRepo where
  "exampleServers = \<lparr>defaultServerId = ''home'', serverKind = (\<lambda>i. SelfHostedUser), selfHostedAdminConfig = (\<lambda>i. None),
     selfHostedUserConfig = (\<lambda>i. Some WireGuard), nativeConfig = (\<lambda>i. None), apiV2Config = (\<lambda>i. None)\<rparr>"

definition tunnelSettings :: appSettings where
  "tunnelSettings = exampleSettings\<lparr>isSitesSplitTunnelingEnabled := False, storedSites := (\<lambda>mode. [])\<rparr>"

definition tunnelEnv :: vcEnv where
  "tunnelEnv = \<lparr>serviceUp = (\<lambda>l. True),
     ipcReply = (\<lambda>l c. case c of RouteAddList gw ips \<Rightarrow> Some (int (length ips)) | _ \<Rightarrow> Some 1),
     startResult = (\<lambda>l. ([Emits (StateSignal Connecting), Emits (StateSignal Connected)], NoError)),
     stopSignals = (\<lambda>l. [StateSignal Disconnected]), requestStatus = (\<lambda>l. False), protocolLastError = (\<lambda>l. NoError),
     routeGateway = (\<lambda>l. ''192.168.0.1''), vpnGateway = (\<lambda>l. ''10.8.0.1''), readsIPv4 = (\<lambda>a. True), getIPAddress = (\<lambda>h. h)\<rparr>"

definition exampleConnect :: "(vcEnv \<times> vcEvent) list" where
  "exampleConnect = [(tunnelEnv, Connect ''home'' WireGuard [(''hostName'', JStr ''9.9.9.9'')])]"

text \<open>No traffic gets through the tunnel, which is restarted.\<close>

definition exampleLoss :: "(vcEnv \<times> vcEvent) list" where
  "exampleLoss = [(tunnelEnv, PostedRuns PostHealthCheck), (tunnelEnv, ProbeFailed), (tunnelEnv, RecoveryTimeout)]"

definition exampleStart :: vcState where
  "exampleStart = vcState0 (Some exampleServers) (Some tunnelSettings)"

definition slowEnv :: vcEnv where
  "slowEnv = tunnelEnv\<lparr>startResult := (\<lambda>l. ([], NoError))\<rparr>"

lemma example_connected:
  "(m_connectionState (vcRun exampleConnect exampleStart), startCount (vcLog (vcRun exampleConnect exampleStart)),
    m_pendingNetworkAction (vcRun exampleConnect exampleStart), m_connectedRecoveryAttempts (vcRun exampleConnect exampleStart)) =
   (Connected, 1, NoAction, 0)"
  by code_simp

lemma example_restarted: "startCount (vcLog (vcRun exampleLoss (vcRun exampleConnect exampleStart))) = 2"
  by code_simp

theorem null_protocol_never_used_witness: "NullProtocol \<notin> set (vcFaults (vcRun (exampleConnect @ exampleLoss) exampleStart))"
proof -
  have "goodEnv tunnelEnv" by (simp add: goodEnv_def tunnelEnv_def)
  then show ?thesis unfolding exampleStart_def
    by (intro null_protocol_never_used) (auto simp: exampleConnect_def exampleLoss_def)
qed

theorem tunnel_start_protected_witness:
  "\<exists>before p after earlier config reply later. vcLog (vcRun exampleConnect exampleStart) = before @ ProtocolStart p # after \<and>
     before = earlier @ Called (SetConnectionProtection True config) reply # later \<and> replyOk reply \<and>
     list_all (\<lambda>a. \<not> releases a) later"
proof -
  have "filter isStart (vcLog (vcRun exampleConnect exampleStart)) \<noteq> []"
    using example_connected by (auto simp: startCount_def)
  then obtain a where a: "a \<in> set (vcLog (vcRun exampleConnect exampleStart))" "isStart a" by (auto simp: filter_empty_conv)
  from a(2) obtain p where "a = ProtocolStart p" by (cases a) auto
  with a obtain before after where l: "vcLog (vcRun exampleConnect exampleStart) = before @ ProtocolStart p # after"
    using split_list by fastforce
  have on: "\<forall>x. Some tunnelSettings = Some x \<longrightarrow> isKillSwitchEnabled x" "list_all (\<lambda>(env, e). switchOn e) exampleConnect"
    by (simp_all add: tunnelSettings_def exampleSettings_def exampleConnect_def)
  from tunnel_start_protected [OF l [unfolded exampleStart_def]] on l show ?thesis by blast
qed

theorem connecting_is_watched_witness:
  "\<exists>timeout. m_connectionState (vcStep tunnelEnv timeout (vcRun [(slowEnv, Connect ''home'' WireGuard [])] exampleStart)) = ErrorState"
proof -
  have "m_connectionState (vcRun [(slowEnv, Connect ''home'' WireGuard [])] exampleStart) = Connecting" by code_simp
  from connecting_is_watched [OF this [unfolded exampleStart_def]] show ?thesis unfolding exampleStart_def by blast
qed

theorem recovery_is_bounded_witness:
  "startCount (vcLog (vcRun exampleLoss (vcRun exampleConnect exampleStart))) = 2 \<and>
   startCount (vcLog (vcRun exampleLoss (vcRun exampleConnect exampleStart))) \<le> 5"
  using recovery_is_bounded [of exampleLoss exampleConnect "Some exampleServers" "Some tunnelSettings"] example_connected
    example_restarted by (simp add: exampleStart_def exampleLoss_def kMaxConnectedRecoveryAttempts_def)

theorem disconnected_stays_down_witness:
  "startCount (vcLog (vcRun exampleLoss (vcStep tunnelEnv Disconnect (vcRun exampleConnect exampleStart)))) = 1"
  using disconnected_stays_down [of exampleLoss tunnelEnv "vcRun exampleConnect exampleStart"] example_connected
  by (simp add: exampleLoss_def)

end
