(* ===== verification/Spec2Isabelle.thy ===== *)
theory Spec2Isabelle
  imports Tunnel_Daemon Router_Mac Dns_Utils Installer_Run Site_List App_List Vpn_Lifecycle
begin

text \<open>
  Verification of AlzheimerVPN, a fork of the AmneziaVPN client.

  \<^bold>\<open>The program.\<close> A client (\<^verbatim>\<open>client/\<close>) asks a privileged service (\<^verbatim>\<open>service/\<close>, requests in \<^verbatim>\<open>ipc/\<close>) to route
  traffic, to guard a connection with the packet filter and to answer DNS queries. What the fork adds is split
  tunnelling by host name on macOS: a local DNS observer sees every query, reports the addresses of the hosts
  that a rule names, and the router of the service leads these addresses past the tunnel and tells the kill
  switch to let them through. The installer scripts (\<^verbatim>\<open>deploy/installer/qif\<close>, JavaScript) put program and
  service on the machine. The development covers the path from the DNS datagram to the packet filter, the path from
  the user's settings through the life cycle of a connection to the packet filter, and both installer scripts.

  \<^bold>\<open>Theories and sources.\<close>
  \<^item> \<open>Prelude\<close>: what the code uses of Qt strings, numbers and ordered maps. The contract of an ordered map is
    the locale \<open>ordered_map\<close>, interpreted on sorted association lists. \<open>Regex\<close>: regular expressions with a
    matcher and its correctness. \<open>Json\<close>: the values of a configuration.
  \<^item> \<open>Net_Formats\<close>: the address patterns and CIDR functions of \<^verbatim>\<open>client/core/utils/networkUtilities.cpp\<close>.
  \<^item> \<open>Split_Rule\<close>: \<^verbatim>\<open>client/core/utils/splitTunnelRule.cpp\<close>, site rules and how they match hosts.
  \<^item> \<open>Dns_Message\<close>: \<^verbatim>\<open>client/core/utils/dnsMessageParser.cpp\<close>. Reads of the datagram are partial, so that memory
    safety is a statement; the wire format is defined beside the parser for the round trip.
  \<^item> \<open>Dns_Observer\<close>: \<^verbatim>\<open>client/platforms/macos/daemon/dnssplitrouteobserver.cpp\<close>. The state is the record
    \<open>obState\<close>, sockets are the lists of datagrams sent, an event is a datagram or a request (\<open>obStep\<close>, \<open>obRun\<close>).
  \<^item> \<open>Dns_Utils\<close>: \<^verbatim>\<open>client/platforms/macos/daemon/dnsutilsmacos.cpp\<close>, which points the DNS configuration of
    the machine at the observer and restores it.
  \<^item> \<open>Mac_Firewall\<close>: \<^verbatim>\<open>client/platforms/macos/daemon/macosfirewall.cpp\<close> and the rule files under
    \<^verbatim>\<open>deploy/data/macos/pf\<close>, with a semantics of the filter that decides packets.
  \<^item> \<open>Kill_Switch\<close>: \<^verbatim>\<open>service/server/killswitch.cpp\<close> (macOS) and the requests to it in \<^verbatim>\<open>ipc/ipcserver.cpp\<close>
    (\<open>ksStep\<close>).
  \<^item> \<open>Router_Mac\<close>: \<^verbatim>\<open>service/server/router_mac.cpp\<close>: routes, DNS leases, prewarming. \<open>rtStep\<close> and \<open>rtReach\<close> are
    its events and reachable states.
  \<^item> \<open>App_Settings\<close>: the settings of split tunnelling in \<^verbatim>\<open>client/core/repositories/secureAppSettingsRepository.cpp\<close> with
    the signals they emit, and \<^verbatim>\<open>allowedDnsController.cpp\<close>. \<open>App_List\<close>: \<^verbatim>\<open>appSplitTunnelingController.cpp\<close>. \<open>Site_List\<close>:
    \<^verbatim>\<open>ipSplitTunnelingController.cpp\<close>, the list of sites with its look-ups; what it needs of the stored lists is the locale
    \<open>site_store\<close>, interpreted on the settings. \<open>Route_Planner\<close>: \<^verbatim>\<open>splitTunnelRoutePlanner.cpp\<close>.
  \<^item> \<open>Split_Config\<close>: the part of \<^verbatim>\<open>client/vpnConnection.cpp\<close> that makes the configuration of a connection of the
    settings. \<open>Connection_Health\<close>: \<^verbatim>\<open>client/core/utils/connectionHealth.cpp\<close>. \<open>Vpn_Connection\<close>: the rest of
    \<^verbatim>\<open>client/vpnConnection.cpp\<close>; the members are the record \<open>vcState\<close>, timers are flags, an event is a request, a signal of
    the protocol, a timer or an answer (\<open>vcStep\<close>). \<open>Vpn_Lifecycle\<close>: what holds of its runs (\<open>vcRun\<close>).
  \<^item> \<open>Tunnel_Daemon\<close>: \<^verbatim>\<open>client/daemon/daemon.cpp\<close>, which brings WireGuard tunnels up and down in the service. The members
    are the record \<open>dmState\<close>, the calls of WireGuard and DNS tools a log with arbitrary outcomes (\<open>dmStep\<close>, \<open>dmRun\<close>); what an
    invariant of the daemon has to survive is the locale \<open>dm_invariant\<close>.
  \<^item> \<open>Installer_Api\<close>: what the scripts use of JavaScript and of the installer framework. The framework is a
    parameter (\<open>instEnv\<close>) whose answers may depend on the whole log of calls.
  \<^item> \<open>Installer_Control\<close> and \<open>Installer_Controller\<close>: \<^verbatim>\<open>controlscript.js\<close>, its functions and its behaviour.
    \<open>Installer_Component\<close>: \<^verbatim>\<open>componentscript.js\<close>. \<open>Installer_Run\<close>: runs of the wizard through the callbacks of
    both scripts; the locale \<open>page_callback\<close> is the contract of a callback, interpreted on every callback.
  \<^item> This theory: the composition of observer, router and kill switch, and of connection and kill switch.

  \<^bold>\<open>What is shown.\<close>
  \<^item> Kill switch: once enabled and when no command failed, the filter decides every packet as the policy of the
    configuration says. A reported protection is real whichever commands failed. It is kept until it is released by
    \<^verbatim>\<open>setConnectionProtection(false)\<close>: later requests open no more than what they name, as long as the commands of those
    that touch the root anchors work and no configuration that sends only listed sites through the tunnel is enabled.
    Without a protected connection, ending the kill switch leaves the always-blocked sites, or in strict mode everything
    but the loopback, blocked when the commands work. Nothing but addresses reaches the shell.
  \<^item> DNS: the parser is total, memory safe and inverts the wire format; the observer's state stays well formed,
    queries are forwarded under fresh identifiers, responses go back to the client that asked and to nobody
    else; the search for an identifier ends exactly when one is free; the one fault is characterised. When
    the dynamic store works and nobody else writes to it, the domain, servers, search domains and sort list of every
    network service are restored after a session; other keys of an overridden entry are lost.
  \<^item> Router: for a learned address that is new exactly one command adds its host route and, with the kill switch on, it is
    allowed; this needs a usable gateway and a \<^verbatim>\<open>route\<close> command that works. Cleared leases leave nothing behind, and every round
    of prewarming has at most eight look-ups under way. Together with the observer: an answer for a matched host takes effect.
  \<^item> Connection: whatever the service answers and the protocols signal, every start of a tunnel follows a configuration that
    the service accepted, and with the kill switch on in the settings a request for protection that was not released since;
    between requests to connect, reports of a changed network and probes that get through, the number of automatic restarts
    is bounded; a disconnected tunnel stays down, a connection that is being set up is watched by a timer that
    ends it, the health fits the state, and no null protocol is used under a hypothesis on the protocols. With the kill
    switch behind the service, a tunnel is started only behind a closed filter.
  \<^item> Daemon: what a request to activate reports is what happened; every exclusion route that is set has a user and its
    removal is asked for by a deactivation, after which late answers to look-ups change nothing. An example run shows that
    switching servers may leave an exclusion route behind until then.
  \<^item> Settings: the site list shows what is stored, and a list of names in normal form survives export and import up to
    order; look-ups follow the list, and results of look-ups that are no longer open change nothing; the three computations
    of addresses agree, and the plan of the kill switch has the addresses of the site list, besides the VPN server and the
    DNS servers.
  \<^item> Rules and formats: rules survive printing and parsing, wildcards match what they should, the address
    pattern accepts exactly the addresses.
  \<^item> Installer: the constructor returns when the clock moves on and the user stops retrying; an old installation
    is removed only after a look that did not find the application running and after the user agreed, and a failed removal
    cancels; waits are
    bounded; the application is never started with administrator rights in any run of the wizard; every
    platform runs the post-installation script last and registers the post-uninstallation script as the one undo; an update asks nothing.

  \<^bold>\<open>Modelling choices.\<close> Undefined behaviour and thrown errors are values (\<^const>\<open>None\<close>, \<open>fault\<close>, \<open>jsError\<close>).
  Loops that may not end are partial functions into an option; where they return is a theorem, so no fuel is
  used. The 8, 16 and 32 bit fields of DNS messages and the query identifiers are words. Shell commands, the
  routing command, the dynamic store and the installer framework are parameters: which calls fail is arbitrary
  unless a theorem says otherwise. The service as the connection sees it and the protocols are parameters too (\<open>vcEnv\<close>)
  that may answer differently at every event and depend on the whole log; while a protocol starts, its signals and a
  disconnect by the user may intervene, other queued events not. A shell command either fails without effect or does what
  it says; which ones fail may depend on all commands issued before. Counters of the C++ type \<^verbatim>\<open>int\<close> that grow by one per
  request (generations, users of a route, prewarmed hosts) are unbounded. The updater's handler of
  \<^verbatim>\<open>installationFinished\<close> is not a step of its own, since it only presses Next, as other callbacks do. Numbers of JavaScript are exact rationals, since only small integers occur.

  \<^bold>\<open>Not modelled.\<close> The branches for Windows, Linux, Android and iOS, sockets and processes, logging, host name
  resolution by the system (its results are events), the WireGuard interface, the reading of the daemon's configuration
  from JSON, its local socket and the route monitor, which drive system interfaces, the concrete protocols and their configurators, the encrypted settings file and the servers, the gateway
  API, the user interface and the mobile platforms.
\<close>

section \<open>From the DNS observer to the router\<close>

text \<open>A response of an upstream server as the service handles it: the observer reports a resolved host, the report is
  passed on at once and the router leases the addresses.\<close>

definition serviceResponse ::
    "rtEnv \<Rightarrow> int \<Rightarrow> bytes \<Rightarrow> 'a obState \<times> rtState \<Rightarrow> fault + 'a obState \<times> rtState" where
  "serviceResponse env now response s =
     (case upstreamDatagram response (fst s) of
        Inl f \<Rightarrow> Inl f
      | Inr ob \<Rightarrow> Inr (ob, fold (\<lambda>(host, answers). updateDnsSplitTunnelHostLeases env now host answers)
          (drop (length (hostResolved (fst s))) (hostResolved ob)) (snd s)))"


text \<open>A session in which a client asks for a host of the rule \<^verbatim>\<open>*.ru\<close>, and the response with its address.\<close>

definition exampleSession :: "nat obEvent list" where
  "exampleSession = [RulesSet [''*.ru''], Started True True [8] [], FromClient exampleQuery 5 4000]"

definition exampleResponse :: bytes where
  "exampleResponse = encResponse 2 0x8180 [[121, 97], [114, 117]]
     [\<lparr>owner = [[121, 97], [114, 117]], recTtl = 300, octets = (1, 2, 3, 4)\<rparr>]"

lemma exampleRule_matches: "matchesHost exampleRule ''ya.ru'' = Some True"
  by code_simp

lemma exampleSession_state:
  "\<exists>ob p. obRun (\<lambda>a. True) exampleSession obState0 = Inr ob \<and> m_pendingQueries ob 2 = Some p \<and> matched p"
proof -
  define ob where "ob = snd (startObserver (\<lambda>a. True) True True [8] [] ((obState0 :: nat obState)\<lparr>m_rules := [exampleRule]\<rparr>))"
  have rules: "setRules [''*.ru''] obState0 = Inr ((obState0 :: nat obState)\<lparr>m_rules := [exampleRule]\<rparr>)"
    using exampleRule_parsed by (simp add: setRules_def exampleRule_def mkRule_def)
  have ob: "m_rules ob = [exampleRule]" "m_upstreamServers ob = [8]" "m_matchedUpstreamServers ob = []" "m_nextQueryId ob = 1"
      "m_pendingQueries ob = Map.empty"
    by (simp_all add: ob_def startObserver_def stopObserver_def obState0_def Let_def appendUsableServers_def)
  have "freeId (\<lambda>i. False) 1 = Some 2" by (subst freeId.simps) (simp add: stepId_def Let_def)
  then have "nextQueryId ob = Some (2, ob\<lparr>m_nextQueryId := 2\<rparr>)" by (simp add: nextQueryId_def ob)
  then show ?thesis
    unfolding exampleSession_def
    by (simp add: rules clientDatagram_def exampleQuery_host exampleRule_matches ob Let_def flip: ob_def)
qed

lemma exampleResponse_parsed:
  "responseIpv4Answers exampleResponse = Some [\<lparr>address = addressText 1 2 3 4, ttlSeconds = clampTtl 300\<rparr>]"
proof -
  have "nameOk [[121, 97], [114, 117]]" by (simp add: nameOk_def labelOk_def)
  then show ?thesis
    unfolding exampleResponse_def by (subst parse_encResponse) (simp_all add: recordAnswer_def addAnswer_def)
qed

lemma exampleResponse_id: "messageId exampleResponse = 2"
  by (simp add: exampleResponse_def encResponse_def enc16_def messageId_def)


section \<open>From the settings to the packet filter\<close>

text \<open>The client and the service: a request for protection is accepted only if the kill switch reports it.\<close>

definition reportsProtection :: "(string \<Rightarrow> bool) \<Rightarrow> pfEnv \<Rightarrow> ksState \<Rightarrow> vcEnv \<Rightarrow> bool" where
  "reportsProtection reads fw ks env \<longleftrightarrow> (\<forall>l config. replyOk (ipcReply env l (Vpn_Connection.SetConnectionProtection True config)) \<longrightarrow>
     fst (setConnectionProtection reads fw True config ks))"

lemma splitResult_not_forward:
  assumes "\<not> (isSitesSplitTunnelingEnabled st \<and> storedRouteMode st = VpnOnlyForwardSites)"
    and "splitResult reads st container config = Some (mode, sites)"
  shows "mode \<noteq> VpnOnlyForwardSites"
  using assms by (auto simp: splitResult_def splitChoice_def Let_def split: if_splits)

lemma full_tunnel_type:
  assumes "\<not> (isSitesSplitTunnelingEnabled st \<and> storedRouteMode st = VpnOnlyForwardSites)"
    and "appendSplitTunnelingConfig reads st container config = Some cfg"
  shows "jToInt (jvalue (qinsert ''vpnServer'' v cfg) ''splitTunnelType'') \<noteq> 1"
proof -
  obtain mode sites where m: "splitResult reads st container config = Some (mode, sites)"
    "jvalue cfg ''splitTunnelType'' = JNum (routeModeNumber mode)" using assms(2) by (rule appended_values)
  then have "mode \<noteq> VpnOnlyForwardSites" using splitResult_not_forward [OF assms(1)] by blast
  then have "routeModeNumber mode \<noteq> 1" by (cases mode) simp_all
  then show ?thesis using m(2) by simp
qed

text \<open>C2. From the user's settings to the filter: with the kill switch on and no list of sites to send through the tunnel
  alone, a request to connect starts a tunnel, at once or when the network is back, only if the service has closed the
  packet filter for it. After the accepted request no packet outside the exempt traffic leaves the machine, whichever
  shell commands failed.\<close>

theorem connect_closes_filter:
  assumes "m_appSettingsRepository s = Some st" and "m_serversRepository s = Some repo"
    and "isKillSwitchEnabled st" and "\<not> (isSitesSplitTunnelingEnabled st \<and> storedRouteMode st = VpnOnlyForwardSites)"
    and "reportsProtection reads fw ks env"
    and "startCount (vcLog (connectToVpn env serverId container config s)) \<noteq> startCount (vcLog s) \<or>
      m_pendingNetworkAction (connectToVpn env serverId container config s) \<noteq> NoAction"
  shows "\<exists>cfg ks'. appendSplitTunnelingConfig (readsIPv4 env) st container (appendKillSwitchConfig st config) = Some cfg \<and>
    setConnectionProtection reads fw True
      (qinsert ''vpnServer'' (JStr (getIPAddress env (jToString (jvalue config ''hostName'')))) cfg) ks = (True, ks') \<and>
    (\<forall>p. \<not> exempt inNet (pf ks') p \<longrightarrow> verdict inNet (pf ks') p = Block)"
proof -
  let ?server = "JStr (getIPAddress env (jToString (jvalue config ''hostName'')))"
  obtain cfg l where cfg: "appendSplitTunnelingConfig (readsIPv4 env) st container (appendKillSwitchConfig st config) = Some cfg"
    and ok: "replyOk (ipcReply env l (Vpn_Connection.SetConnectionProtection (isKillSwitchEnabled st) (qinsert ''vpnServer'' ?server cfg)))"
    using assms(1,2,6) by (rule connect_needs_protection)
  obtain ks' where ks': "setConnectionProtection reads fw True (qinsert ''vpnServer'' ?server cfg) ks = (True, ks')"
    using ok assms(3,5) by (auto simp: reportsProtection_def prod_eq_iff)
  have "verdict inNet (pf ks') p = Block" if "\<not> exempt inNet (pf ks') p" for p
    using protection_confirmed [OF ks'] full_tunnel_type [OF assms(4) cfg] that by (intro verdict_block) auto
  with cfg ks' show ?thesis by blast
qed

text \<open>The tunnel of the example, with a service that knows the configuration it is asked to protect.\<close>

definition exampleRequest :: jobj where
  "exampleRequest = qinsert ''vpnServer'' (JStr ''9.9.9.9'')
     (the (appendSplitTunnelingConfig (\<lambda>a. True) tunnelSettings WireGuard
       (appendKillSwitchConfig tunnelSettings [(''hostName'', JStr ''9.9.9.9'')])))"

definition serviceEnv :: vcEnv where
  "serviceEnv = tunnelEnv\<lparr>ipcReply := (\<lambda>l c. case c of
       Vpn_Connection.SetConnectionProtection enabled config \<Rightarrow> Some (if enabled \<and> config = exampleRequest then 1 else 0)
     | _ \<Rightarrow> Some 1)\<rparr>"

lemma exampleRequest_type:
  "jToInt (jvalue exampleRequest ''splitTunnelType'') = 0 \<and> dnsAddresses exampleRequest = ([], []) \<and>
   allownets (ksPlanOf (\<lambda>a. True) exampleRequest) = [''9.9.9.9''] \<and> blocknets (ksPlanOf (\<lambda>a. True) exampleRequest) = []"
  by code_simp

lemma exampleRequest_reported: "fst (setConnectionProtection (\<lambda>a. True) Kill_Switch.exampleEnv True exampleRequest (ksState0 False))"
proof (rule protection_reported)
  have "isValidIpOrCidr (dotted 9 9 9 9)" by (rule valid_dotted) simp_all
  then have "isValidIpOrCidr ''9.9.9.9''" by (simp add: dotted_def showNat.simps digitChar_simps)
  then show "fst (enableKillSwitch (\<lambda>a. True) Kill_Switch.exampleEnv exampleRequest 0 (ksState0 False))"
    using exampleRequest_type by (simp add: enableKillSwitch_def Let_def)
qed (use exampleRequest_type in simp_all)

theorem connect_closes_filter_witness:
  "\<exists>cfg ks'. setConnectionProtection (\<lambda>a. True) Kill_Switch.exampleEnv True cfg (ksState0 False) = (True, ks') \<and>
     (\<forall>p. \<not> exempt (=) (pf ks') p \<longrightarrow> verdict (=) (pf ks') p = Block)"
proof -
  have "reportsProtection (\<lambda>a. True) Kill_Switch.exampleEnv (ksState0 False) serviceEnv"
    using exampleRequest_reported by (auto simp: reportsProtection_def serviceEnv_def replyOk_def split: if_splits)
  moreover have "startCount (vcLog (connectToVpn serviceEnv ''home'' WireGuard [(''hostName'', JStr ''9.9.9.9'')] exampleStart)) \<noteq>
      startCount (vcLog exampleStart)" by code_simp
  moreover have "m_appSettingsRepository exampleStart = Some tunnelSettings" "m_serversRepository exampleStart = Some exampleServers"
    "isKillSwitchEnabled tunnelSettings" "\<not> isSitesSplitTunnelingEnabled tunnelSettings"
    by (simp_all add: exampleStart_def vcState0_def tunnelSettings_def exampleSettings_def)
  ultimately show ?thesis
    using connect_closes_filter [of exampleStart tunnelSettings exampleServers "\<lambda>a. True" Kill_Switch.exampleEnv "ksState0 False" serviceEnv
        "''home''" WireGuard "[(''hostName'', JStr ''9.9.9.9'')]" "(=)"] by blast
qed

end
